(* ===== verification/Prelude.thy ===== *)
theory Prelude
  imports Main "HOL-Library.Word" "HOL-Library.Monad_Syntax"
begin

text \<open>
  Shared types and lemmas of the development.

  The device is a 32-bit ARM target, so \<open>size_t\<close>, \<open>unsigned int\<close> and \<open>uint32_t\<close> are
  32-bit words with wrapping arithmetic.  A byte is an 8-bit word, a C character literal is
  the byte \<open>ascii CHR c\<close>.  A C function that answers \<open>true\<close>/\<open>0\<close> with output parameters or
  \<open>false\<close>/\<open>-1\<close> is a function into \<^typ>\<open>'a option\<close>, \<open>None\<close> being the refusal; where the error
  codes differ, the result is a sum.  Reading or writing outside of an object, undefined in C, is
  never given a value: \<open>rd\<close> and \<open>wr\<close> answer \<open>None\<close> there.
\<close>

unbundle bit_operations_syntax

section \<open>Types\<close>

type_synonym u8 = "8 word"
type_synonym u16 = "16 word"
type_synonym u32 = "32 word"
type_synonym u64 = "64 word"
type_synonym size_t = "32 word"
type_synonym bytes = "8 word list"

section \<open>Collections of rewrite rules\<close>

named_theorems bytes_defs \<open>definitions of the byte-level readers and writers\<close>
named_theorems buffer_defs \<open>definitions of the buffer operations\<close>
named_theorems typing_defs \<open>definitions of the miniscript typing rules\<close>
named_theorems parser_defs \<open>definitions of the descriptor template parser\<close>

section \<open>Characters\<close>

definition ascii :: "char \<Rightarrow> u8" where
  "ascii c = word_of_nat (of_char c)"

definition ascii_string :: "string \<Rightarrow> bytes" where
  "ascii_string s = map ascii s"

lemma ascii_string_Nil [simp]: "ascii_string [] = []"
  by (simp add: ascii_string_def)

lemma ascii_string_Cons [simp]: "ascii_string (c # s) = ascii c # ascii_string s"
  by (simp add: ascii_string_def)

lemma length_ascii_string [simp]: "length (ascii_string s) = length s"
  by (simp add: ascii_string_def)

lemma ascii_inj: "ascii c = ascii d \<longleftrightarrow> c = d"
proof
  assume "ascii c = ascii d"
  then have "unat (ascii c) = unat (ascii d)"
    by simp
  moreover have "unat (ascii e) = of_char e" for e
    by (simp add: ascii_def unat_of_nat)
  ultimately show "c = d"
    by simp
qed simp

section \<open>Memory accesses\<close>

text \<open>\<open>rd m i\<close> is the C expression \<open>m[i]\<close> on an object whose bytes are \<open>m\<close>; \<open>wr m i v\<close> is the
  assignment \<open>m[i] = v\<close>.\<close>

definition rd :: "'a list \<Rightarrow> size_t \<Rightarrow> 'a option" where
  "rd m i = (if unat i < length m then Some (m ! unat i) else None)"

definition wr :: "'a list \<Rightarrow> size_t \<Rightarrow> 'a \<Rightarrow> 'a list option" where
  "wr m i v = (if unat i < length m then Some (m[unat i := v]) else None)"

lemma rd_eq_Some_iff: "rd m i = Some v \<longleftrightarrow> unat i < length m \<and> m ! unat i = v"
  by (auto simp: rd_def)

lemma rd_eq_None_iff: "rd m i = None \<longleftrightarrow> length m \<le> unat i"
  by (auto simp: rd_def)

lemma rd_wr:
  "wr m i v = Some m' \<Longrightarrow> rd m' j = (if j = i then Some v else rd m j)"
  by (auto simp: wr_def rd_def nth_list_update word_unat_eq_iff split: if_splits)

lemma length_wr: "wr m i v = Some m' \<Longrightarrow> length m' = length m"
  by (auto simp: wr_def split: if_splits)

section \<open>Lists\<close>

lemma take_drop_Cons_nth:
  "i < length xs \<Longrightarrow> drop i xs = xs ! i # drop (Suc i) xs"
  by (simp add: Cons_nth_drop_Suc)

lemma drop_take_drop: "drop m (take n (drop k xs)) = take (n - m) (drop (k + m) xs)"
  by (simp add: drop_take add.commute)

lemma take_length_take: "take (length (take n xs)) (xs @ ys) = take n xs"
  by (cases "n \<le> length xs") simp_all

section \<open>Words\<close>

lemma unat_add_lem_le:
  fixes a b :: "'a::len word"
  assumes "unat a + unat b < 2 ^ LENGTH('a)"
  shows "unat (a + b) = unat a + unat b"
  using assms by (simp add: unat_word_ariths)

lemma unat_sub_le: "b \<le> (a :: 'a::len word) \<Longrightarrow> unat (a - b) = unat a - unat b"
  by (rule unat_sub)

lemma unat_u32_bound: "unat (x :: u32) < 4294967296"
  using unsigned_less [of x, where ?'a = nat] by simp

lemma unat_u16_bound: "unat (x :: u16) < 65536"
  using unsigned_less [of x, where ?'a = nat] by simp

lemma unat_u8_bound: "unat (x :: u8) < 256"
  using unsigned_less [of x, where ?'a = nat] by simp

lemma unat_of_nat_u32: "n < 4294967296 \<Longrightarrow> unat (word_of_nat n :: u32) = n"
  by (simp add: unat_of_nat)

lemma unat_ucast_up:
  "unat (ucast (x :: u8) :: u32) = unat x" "unat (ucast (y :: u16) :: u32) = unat y"
  "unat (ucast (x :: u8) :: u64) = unat x" "unat (ucast (y :: u16) :: u64) = unat y"
  "unat (ucast (z :: u32) :: u64) = unat z" "unat (ucast (x :: u8) :: u16) = unat x"
  using unat_u8_bound [of x] unat_u16_bound [of y] unat_u32_bound [of z]
  by (simp_all add: unsigned_ucast_eq take_bit_nat_eq_self)

section \<open>The option monad\<close>

lemma bind_SomeE:
  assumes "Option.bind m f = Some r"
  obtains x where "m = Some x" and "f x = Some r"
  using assms by (cases m) auto

lemma bind_pairE:
  assumes "Option.bind m (\<lambda>(x, y). f x y) = Some r"
  obtains x y where "m = Some (x, y)" and "f x y = Some r"
  using assms by (cases m) auto

lemma guardE:
  assumes "(if b then None else m) = Some r"
  obtains "\<not> b" and "m = Some r"
  using assms by (cases b) auto

lemma Some_pairE:
  assumes "Some (a, b) = Some (c, d)"
  obtains "c = a" and "d = b"
  using assms by simp

lemma those_map_Some:
  "those (map g xs) = Some ys \<longleftrightarrow> list_all2 (\<lambda>x y. g x = Some y) xs ys"
  by (induction xs arbitrary: ys) (auto simp: list_all2_Cons1 split: option.splits)

lemma those_map_total: "\<forall>x\<in>set xs. g x \<noteq> None \<Longrightarrow> \<exists>ys. those (map g xs) = Some ys \<and> length ys = length xs"
  by (induction xs) auto

text \<open>Taking apart a successful run of a \<open>do\<close> block.\<close>

lemmas optionE = guardE bind_pairE bind_SomeE Some_pairE notnotD [elim_format]

end
