(* ===== verification/Policy_Ast.thy ===== *)
theory Policy_Ast
  imports Prelude
begin

text \<open>
  The abstract syntax tree of a wallet policy: the tokens, flags and node structures of
  \<^verbatim>\<open>src/src/common/wallet.h\<close>.

  The C code lays the nodes out in a byte array and links them by 16-bit relative pointers; a
  node is read by looking at its \<open>type\<close> tag and casting to the structure of that tag.  Here a
  node is a value of the datatype \<open>policy_node\<close>: one constructor per C structure, the tag
  restricted to the tokens that use the structure, a relative pointer replaced by what it points
  to, an array or linked list of \<open>n\<close> elements by a list of length \<open>n\<close>.  The bit field \<open>flags\<close> is
  \<open>None\<close> when \<open>is_miniscript\<close> is 0 (its other bits are then never read).
\<close>

section \<open>Tokens\<close>

datatype PolicyNodeType =
    TOKEN_SH | TOKEN_WSH | TOKEN_PK | TOKEN_PKH | TOKEN_WPKH
  | TOKEN_MULTI | TOKEN_MULTI_A | TOKEN_SORTEDMULTI | TOKEN_SORTEDMULTI_A | TOKEN_TR
  | TOKEN_0 | TOKEN_1 | TOKEN_PK_K | TOKEN_PK_H | TOKEN_OLDER | TOKEN_AFTER
  | TOKEN_SHA256 | TOKEN_HASH256 | TOKEN_RIPEMD160 | TOKEN_HASH160
  | TOKEN_ANDOR | TOKEN_AND_V | TOKEN_AND_B | TOKEN_AND_N
  | TOKEN_OR_B | TOKEN_OR_C | TOKEN_OR_D | TOKEN_OR_I | TOKEN_THRESH
  | TOKEN_A | TOKEN_S | TOKEN_C | TOKEN_T | TOKEN_D | TOKEN_V | TOKEN_J | TOKEN_N
  | TOKEN_L | TOKEN_U

datatype MiniscriptContext = MINISCRIPT_CONTEXT_P2WSH | MINISCRIPT_CONTEXT_TAPSCRIPT

text \<open>The tokens that share a structure.\<close>

datatype const_tok = Tok_0 | Tok_1
datatype sh_tok = Tok_SH | Tok_WSH
datatype wrap_tok = Tok_A | Tok_S | Tok_C | Tok_T | Tok_D | Tok_V | Tok_J | Tok_N | Tok_L | Tok_U
datatype script2_tok =
  Tok_AND_V | Tok_AND_B | Tok_AND_N | Tok_OR_B | Tok_OR_C | Tok_OR_D | Tok_OR_I
datatype key_tok = Tok_PK | Tok_PKH | Tok_PK_K | Tok_PK_H | Tok_WPKH
datatype uint_tok = Tok_OLDER | Tok_AFTER
datatype hash256_tok = Tok_SHA256 | Tok_HASH256
datatype hash160_tok = Tok_RIPEMD160 | Tok_HASH160
datatype multi_tok = Tok_MULTI | Tok_MULTI_A | Tok_SORTEDMULTI | Tok_SORTEDMULTI_A

section \<open>Miniscript flags\<close>

datatype ms_type = MINISCRIPT_TYPE_B | MINISCRIPT_TYPE_V | MINISCRIPT_TYPE_K | MINISCRIPT_TYPE_W

record ms_flags =
  miniscript_type :: ms_type
  mod_z :: bool
  mod_o :: bool
  mod_n :: bool
  mod_d :: bool
  mod_u :: bool

abbreviation mk_flags :: "ms_type \<Rightarrow> bool \<Rightarrow> bool \<Rightarrow> bool \<Rightarrow> bool \<Rightarrow> bool \<Rightarrow> ms_flags" where
  "mk_flags t z o' n d u \<equiv>
     \<lparr>miniscript_type = t, mod_z = z, mod_o = o', mod_n = n, mod_d = d, mod_u = u\<rparr>"

section \<open>Nodes\<close>

datatype key_kind = KEY_EXPRESSION_NORMAL nat | KEY_EXPRESSION_MUSIG "nat list"

record policy_node_keyexpr =
  num_first :: u32
  num_second :: u32
  key_kind :: key_kind
  keyexpr_index :: u16

datatype policy_node =
    Constant const_tok "ms_flags option"
  | With_sh sh_tok policy_node
  | With_wrapper wrap_tok "ms_flags option" policy_node
  | With_script2 script2_tok "ms_flags option" policy_node policy_node
  | With_script3 "ms_flags option" policy_node policy_node policy_node
  | With_key key_tok "ms_flags option" policy_node_keyexpr
  | With_uint32 uint_tok "ms_flags option" u32
  | With_hash256 hash256_tok "ms_flags option" bytes
  | With_hash160 hash160_tok "ms_flags option" bytes
  | Multisig multi_tok "ms_flags option" nat "policy_node_keyexpr list"
  | Thresh "ms_flags option" nat "policy_node list"
  | Tr policy_node_keyexpr "policy_node_tree option"
and policy_node_tree =
    Tree_leaf policy_node
  | Tree_node policy_node_tree policy_node_tree

text \<open>The fields of \<open>base\<close>, common to all structures: \<open>flags\<close> and \<open>type\<close>.\<close>

fun node_flags :: "policy_node \<Rightarrow> ms_flags option" where
  "node_flags (Constant _ f) = f"
| "node_flags (With_sh _ _) = None"
| "node_flags (With_wrapper _ f _) = f"
| "node_flags (With_script2 _ f _ _) = f"
| "node_flags (With_script3 f _ _ _) = f"
| "node_flags (With_key _ f _) = f"
| "node_flags (With_uint32 _ f _) = f"
| "node_flags (With_hash256 _ f _) = f"
| "node_flags (With_hash160 _ f _) = f"
| "node_flags (Multisig _ f _ _) = f"
| "node_flags (Thresh f _ _) = f"
| "node_flags (Tr _ _) = None"

definition wrap_type :: "wrap_tok \<Rightarrow> PolicyNodeType" where
  "wrap_type w = (case w of
      Tok_A \<Rightarrow> TOKEN_A | Tok_S \<Rightarrow> TOKEN_S | Tok_C \<Rightarrow> TOKEN_C | Tok_T \<Rightarrow> TOKEN_T
    | Tok_D \<Rightarrow> TOKEN_D | Tok_V \<Rightarrow> TOKEN_V | Tok_J \<Rightarrow> TOKEN_J | Tok_N \<Rightarrow> TOKEN_N
    | Tok_L \<Rightarrow> TOKEN_L | Tok_U \<Rightarrow> TOKEN_U)"

definition script2_type :: "script2_tok \<Rightarrow> PolicyNodeType" where
  "script2_type t = (case t of
      Tok_AND_V \<Rightarrow> TOKEN_AND_V | Tok_AND_B \<Rightarrow> TOKEN_AND_B | Tok_AND_N \<Rightarrow> TOKEN_AND_N
    | Tok_OR_B \<Rightarrow> TOKEN_OR_B | Tok_OR_C \<Rightarrow> TOKEN_OR_C | Tok_OR_D \<Rightarrow> TOKEN_OR_D
    | Tok_OR_I \<Rightarrow> TOKEN_OR_I)"

definition key_type :: "key_tok \<Rightarrow> PolicyNodeType" where
  "key_type t = (case t of
      Tok_PK \<Rightarrow> TOKEN_PK | Tok_PKH \<Rightarrow> TOKEN_PKH | Tok_PK_K \<Rightarrow> TOKEN_PK_K
    | Tok_PK_H \<Rightarrow> TOKEN_PK_H | Tok_WPKH \<Rightarrow> TOKEN_WPKH)"

definition multi_type :: "multi_tok \<Rightarrow> PolicyNodeType" where
  "multi_type t = (case t of
      Tok_MULTI \<Rightarrow> TOKEN_MULTI | Tok_MULTI_A \<Rightarrow> TOKEN_MULTI_A
    | Tok_SORTEDMULTI \<Rightarrow> TOKEN_SORTEDMULTI | Tok_SORTEDMULTI_A \<Rightarrow> TOKEN_SORTEDMULTI_A)"

fun node_type :: "policy_node \<Rightarrow> PolicyNodeType" where
  "node_type (Constant t _) = (if t = Tok_0 then TOKEN_0 else TOKEN_1)"
| "node_type (With_sh t _) = (if t = Tok_SH then TOKEN_SH else TOKEN_WSH)"
| "node_type (With_wrapper t _ _) = wrap_type t"
| "node_type (With_script2 t _ _ _) = script2_type t"
| "node_type (With_script3 _ _ _ _) = TOKEN_ANDOR"
| "node_type (With_key t _ _) = key_type t"
| "node_type (With_uint32 t _ _) = (if t = Tok_OLDER then TOKEN_OLDER else TOKEN_AFTER)"
| "node_type (With_hash256 t _ _) = (if t = Tok_SHA256 then TOKEN_SHA256 else TOKEN_HASH256)"
| "node_type (With_hash160 t _ _) = (if t = Tok_RIPEMD160 then TOKEN_RIPEMD160 else TOKEN_HASH160)"
| "node_type (Multisig t _ _ _) = multi_type t"
| "node_type (Thresh _ _ _) = TOKEN_THRESH"
| "node_type (Tr _ _) = TOKEN_TR"

section \<open>The key expressions of a policy, in parsing order\<close>

fun node_keyexprs :: "policy_node \<Rightarrow> policy_node_keyexpr list"
  and tree_keyexprs :: "policy_node_tree \<Rightarrow> policy_node_keyexpr list" where
  "node_keyexprs (Constant _ _) = []"
| "node_keyexprs (With_sh _ x) = node_keyexprs x"
| "node_keyexprs (With_wrapper _ _ x) = node_keyexprs x"
| "node_keyexprs (With_script2 _ _ x y) = node_keyexprs x @ node_keyexprs y"
| "node_keyexprs (With_script3 _ x y z) = node_keyexprs x @ node_keyexprs y @ node_keyexprs z"
| "node_keyexprs (With_key _ _ k) = [k]"
| "node_keyexprs (With_uint32 _ _ _) = []"
| "node_keyexprs (With_hash256 _ _ _) = []"
| "node_keyexprs (With_hash160 _ _ _) = []"
| "node_keyexprs (Multisig _ _ _ ks) = ks"
| "node_keyexprs (Thresh _ _ xs) = concat (map node_keyexprs xs)"
| "node_keyexprs (Tr k None) = [k]"
| "node_keyexprs (Tr k (Some t)) = k # tree_keyexprs t"
| "tree_keyexprs (Tree_leaf x) = node_keyexprs x"
| "tree_keyexprs (Tree_node l r) = tree_keyexprs l @ tree_keyexprs r"

end
