(* ===== verification/Policy_Typing.thy ===== *)
theory Policy_Typing
  imports Policy_Ast
begin

text \<open>
  The miniscript type system of the descriptor template parser: what \<open>parse_script\<close> in
  \<^verbatim>\<open>src/src/common/wallet.c\<close> computes for the bit field \<open>flags\<close> of each kind of node from the
  flags of its children, \<open>None\<close> being a refusal (\<open>WITH_ERROR(-1, "invalid type")\<close> and the like).
\<close>

section \<open>The rules\<close>

definition constant_flags :: "const_tok \<Rightarrow> ms_flags" where [typing_defs]:
  "constant_flags t =
     (if t = Tok_0 then mk_flags MINISCRIPT_TYPE_B True False False True True
      else mk_flags MINISCRIPT_TYPE_B True False False False True)"

definition hash_flags :: ms_flags where [typing_defs]:
  "hash_flags = mk_flags MINISCRIPT_TYPE_B False True True True True"

definition andor_flags :: "ms_flags \<Rightarrow> ms_flags \<Rightarrow> ms_flags \<Rightarrow> ms_flags option" where [typing_defs]:
  "andor_flags X Y Z =
     (if miniscript_type X \<noteq> MINISCRIPT_TYPE_B \<or> \<not> mod_d X \<or> \<not> mod_u X then None
      else if miniscript_type Y \<noteq> miniscript_type Z then None
      else if miniscript_type Y = MINISCRIPT_TYPE_W then None
      else Some (mk_flags (miniscript_type Y)
        (mod_z X \<and> mod_z Y \<and> mod_z Z)
        (mod_z X \<and> mod_o Y \<and> mod_o Z \<or> mod_o X \<and> mod_z Y \<and> mod_z Z)
        False
        (mod_d Z)
        (mod_u Y \<and> mod_u Z)))"

text \<open>In \<open>and_v\<close> the check that the first child has type \<open>V\<close> is commented out in the source.\<close>

definition and_v_flags :: "ms_flags \<Rightarrow> ms_flags \<Rightarrow> ms_flags option" where [typing_defs]:
  "and_v_flags X Y =
     (if miniscript_type Y = MINISCRIPT_TYPE_W then None
      else Some (mk_flags (miniscript_type Y)
        (mod_z X \<and> mod_z Y)
        (mod_z X \<and> mod_o Y \<or> mod_o X \<and> mod_z Y)
        (mod_n X \<or> mod_z X \<and> mod_n Y)
        False
        (mod_u Y)))"

definition and_b_flags :: "ms_flags \<Rightarrow> ms_flags \<Rightarrow> ms_flags option" where [typing_defs]:
  "and_b_flags X Y =
     (if miniscript_type X \<noteq> MINISCRIPT_TYPE_B \<or> miniscript_type Y \<noteq> MINISCRIPT_TYPE_W then None
      else Some (mk_flags MINISCRIPT_TYPE_B
        (mod_z X \<and> mod_z Y)
        (mod_z X \<and> mod_o Y \<or> mod_o X \<and> mod_z Y)
        (mod_n X \<or> mod_z X \<and> mod_n Y)
        (mod_d X \<and> mod_d Y)
        True))"

definition and_n_flags :: "ms_flags \<Rightarrow> ms_flags \<Rightarrow> ms_flags option" where [typing_defs]:
  "and_n_flags X Y =
     (if miniscript_type X \<noteq> MINISCRIPT_TYPE_B \<or> \<not> mod_d X \<or> \<not> mod_u X then None
      else if miniscript_type Y \<noteq> MINISCRIPT_TYPE_B then None
      else Some (mk_flags MINISCRIPT_TYPE_B
        (mod_z X \<and> mod_z Y)
        (mod_o X \<and> mod_z Y)
        False
        True
        (mod_u Y)))"

definition or_b_flags :: "ms_flags \<Rightarrow> ms_flags \<Rightarrow> ms_flags option" where [typing_defs]:
  "or_b_flags X Z =
     (if miniscript_type X \<noteq> MINISCRIPT_TYPE_B \<or> \<not> mod_d X then None
      else if miniscript_type Z \<noteq> MINISCRIPT_TYPE_W \<or> \<not> mod_d Z then None
      else Some (mk_flags MINISCRIPT_TYPE_B
        (mod_z X \<and> mod_z Z)
        (mod_z X \<and> mod_o Z \<or> mod_o X \<and> mod_z Z)
        False
        True
        True))"

definition or_c_flags :: "ms_flags \<Rightarrow> ms_flags \<Rightarrow> ms_flags option" where [typing_defs]:
  "or_c_flags X Z =
     (if miniscript_type X \<noteq> MINISCRIPT_TYPE_B \<or> \<not> mod_d X \<or> \<not> mod_u X then None
      else if miniscript_type Z \<noteq> MINISCRIPT_TYPE_V then None
      else Some (mk_flags MINISCRIPT_TYPE_V
        (mod_z X \<and> mod_z Z)
        (mod_o X \<and> mod_z Z)
        False
        False
        False))"

definition or_d_flags :: "ms_flags \<Rightarrow> ms_flags \<Rightarrow> ms_flags option" where [typing_defs]:
  "or_d_flags X Z =
     (if miniscript_type X \<noteq> MINISCRIPT_TYPE_B \<or> \<not> mod_d X \<or> \<not> mod_u X then None
      else if miniscript_type Z \<noteq> MINISCRIPT_TYPE_B then None
      else Some (mk_flags MINISCRIPT_TYPE_B
        (mod_z X \<and> mod_z Z)
        (mod_o X \<and> mod_z Z)
        False
        (mod_d Z)
        (mod_u Z)))"

definition or_i_flags :: "ms_flags \<Rightarrow> ms_flags \<Rightarrow> ms_flags option" where [typing_defs]:
  "or_i_flags X Z =
     (if miniscript_type X = MINISCRIPT_TYPE_W then None
      else if miniscript_type X \<noteq> miniscript_type Z then None
      else Some (mk_flags (miniscript_type X)
        False
        (mod_z X \<and> mod_z Z)
        False
        (mod_d X \<or> mod_d Z)
        (mod_u X \<and> mod_u Z)))"

definition script2_flags :: "script2_tok \<Rightarrow> ms_flags \<Rightarrow> ms_flags \<Rightarrow> ms_flags option" where
  "script2_flags t = (case t of
      Tok_AND_V \<Rightarrow> and_v_flags | Tok_AND_B \<Rightarrow> and_b_flags | Tok_AND_N \<Rightarrow> and_n_flags
    | Tok_OR_B \<Rightarrow> or_b_flags | Tok_OR_C \<Rightarrow> or_c_flags | Tok_OR_D \<Rightarrow> or_d_flags
    | Tok_OR_I \<Rightarrow> or_i_flags)"

text \<open>\<open>thresh\<close>: the check of the \<open>n\<close>-th child (from 1), and the flags of the node from the
  number of children and the counts of those with \<open>z\<close> and with \<open>o\<close>.\<close>

definition thresh_child_ok :: "nat \<Rightarrow> ms_flags \<Rightarrow> bool" where
  "thresh_child_ok n X \<longleftrightarrow>
     (if n = 1 then miniscript_type X = MINISCRIPT_TYPE_B else miniscript_type X = MINISCRIPT_TYPE_W)
     \<and> mod_d X \<and> mod_u X"

definition thresh_flags :: "nat \<Rightarrow> nat \<Rightarrow> nat \<Rightarrow> ms_flags" where
  "thresh_flags n count_z count_o =
     mk_flags MINISCRIPT_TYPE_B (count_z = n) (int count_z = int n - 1 \<and> count_o = 1) False True True"

definition key_flags :: "key_tok \<Rightarrow> ms_flags option" where [typing_defs]:
  "key_flags t = (case t of
      Tok_WPKH \<Rightarrow> None
    | Tok_PK \<Rightarrow> Some (mk_flags MINISCRIPT_TYPE_B False True True True True)
    | Tok_PKH \<Rightarrow> Some (mk_flags MINISCRIPT_TYPE_B False False True True True)
    | Tok_PK_K \<Rightarrow> Some (mk_flags MINISCRIPT_TYPE_K False True True True True)
    | Tok_PK_H \<Rightarrow> Some (mk_flags MINISCRIPT_TYPE_K False False True True True))"

definition uint32_flags :: ms_flags where [typing_defs]:
  "uint32_flags = mk_flags MINISCRIPT_TYPE_B True False False False False"

definition multi_flags :: "multi_tok \<Rightarrow> ms_flags option" where [typing_defs]:
  "multi_flags t = (case t of
      Tok_SORTEDMULTI \<Rightarrow> None
    | Tok_SORTEDMULTI_A \<Rightarrow> None
    | Tok_MULTI \<Rightarrow> Some (mk_flags MINISCRIPT_TYPE_B False False True True True)
    | Tok_MULTI_A \<Rightarrow> Some (mk_flags MINISCRIPT_TYPE_B False False False True True))"

text \<open>The wrappers; \<open>within_tr\<close> is \<open>context_flags & CONTEXT_WITHIN_TR\<close>.\<close>

definition wrapper_flags :: "bool \<Rightarrow> wrap_tok \<Rightarrow> ms_flags \<Rightarrow> ms_flags option" where [typing_defs]:
  "wrapper_flags within_tr w X = (case w of
      Tok_A \<Rightarrow>
        if miniscript_type X \<noteq> MINISCRIPT_TYPE_B then None
        else Some (mk_flags MINISCRIPT_TYPE_W False False False (mod_d X) (mod_u X))
    | Tok_S \<Rightarrow>
        if miniscript_type X \<noteq> MINISCRIPT_TYPE_B \<or> \<not> mod_o X then None
        else Some (mk_flags MINISCRIPT_TYPE_W False False False (mod_d X) (mod_u X))
    | Tok_C \<Rightarrow>
        if miniscript_type X \<noteq> MINISCRIPT_TYPE_K then None
        else Some (mk_flags MINISCRIPT_TYPE_B False (mod_o X) (mod_n X) (mod_d X) True)
    | Tok_T \<Rightarrow>
        if miniscript_type X \<noteq> MINISCRIPT_TYPE_V then None
        else Some (mk_flags MINISCRIPT_TYPE_B (mod_z X) (mod_o X) (mod_n X) False True)
    | Tok_D \<Rightarrow>
        if miniscript_type X \<noteq> MINISCRIPT_TYPE_V \<or> \<not> mod_z X then None
        else Some (mk_flags MINISCRIPT_TYPE_B False True True True within_tr)
    | Tok_V \<Rightarrow>
        if miniscript_type X \<noteq> MINISCRIPT_TYPE_B then None
        else Some (mk_flags MINISCRIPT_TYPE_V (mod_z X) (mod_o X) (mod_n X) False False)
    | Tok_J \<Rightarrow>
        if miniscript_type X \<noteq> MINISCRIPT_TYPE_B \<or> \<not> mod_n X then None
        else Some (mk_flags MINISCRIPT_TYPE_B False (mod_o X) True True (mod_u X))
    | Tok_N \<Rightarrow>
        if miniscript_type X \<noteq> MINISCRIPT_TYPE_B then None
        else Some (mk_flags MINISCRIPT_TYPE_B (mod_z X) (mod_o X) (mod_n X) (mod_d X) True)
    | Tok_L \<Rightarrow>
        if miniscript_type X \<noteq> MINISCRIPT_TYPE_B then None
        else Some (mk_flags MINISCRIPT_TYPE_B False (mod_z X) False True (mod_u X))
    | Tok_U \<Rightarrow>
        if miniscript_type X \<noteq> MINISCRIPT_TYPE_B then None
        else Some (mk_flags MINISCRIPT_TYPE_B False (mod_z X) False True (mod_u X)))"


section \<open>The type system on whole trees\<close>

definition thresh_type :: "ms_flags list \<Rightarrow> ms_flags option" where
  "thresh_type fs = (case fs of
      [] \<Rightarrow> None
    | X # Xs \<Rightarrow>
        if thresh_child_ok 1 X \<and> list_all (thresh_child_ok 2) Xs
        then Some (thresh_flags (length fs) (length (filter mod_z fs)) (length (filter mod_o fs)))
        else None)"

text \<open>The type of a script, computed from its structure alone (the stored flags are not looked at).\<close>

fun infer_flags :: "bool \<Rightarrow> policy_node \<Rightarrow> ms_flags option" where
  "infer_flags tr (Constant t _) = Some (constant_flags t)"
| "infer_flags tr (With_sh _ _) = None"
| "infer_flags tr (With_wrapper w _ x) = do { X \<leftarrow> infer_flags tr x; wrapper_flags tr w X }"
| "infer_flags tr (With_script2 t _ x y) =
     do { X \<leftarrow> infer_flags tr x; Y \<leftarrow> infer_flags tr y; script2_flags t X Y }"
| "infer_flags tr (With_script3 _ x y z) =
     do { X \<leftarrow> infer_flags tr x; Y \<leftarrow> infer_flags tr y; Z \<leftarrow> infer_flags tr z; andor_flags X Y Z }"
| "infer_flags tr (With_key t _ _) = key_flags t"
| "infer_flags tr (With_uint32 _ _ _) = Some uint32_flags"
| "infer_flags tr (With_hash256 _ _ _) = Some hash_flags"
| "infer_flags tr (With_hash160 _ _ _) = Some hash_flags"
| "infer_flags tr (Multisig t _ _ _) = multi_flags t"
| "infer_flags tr (Thresh _ _ xs) = do { fs \<leftarrow> those (map (infer_flags tr) xs); thresh_type fs }"
| "infer_flags tr (Tr _ _) = None"

text \<open>The flags stored in every node are those inferred, and the nodes that must be miniscript
  are.\<close>

fun well_typed :: "bool \<Rightarrow> policy_node \<Rightarrow> bool" and well_typed_tree :: "policy_node_tree \<Rightarrow> bool" where
  "well_typed tr (Constant t f) \<longleftrightarrow> f = Some (constant_flags t)"
| "well_typed tr (With_sh _ x) \<longleftrightarrow> well_typed tr x"
| "well_typed tr (With_wrapper w f x) \<longleftrightarrow>
     well_typed tr x \<and> f \<noteq> None \<and> f = infer_flags tr (With_wrapper w f x)"
| "well_typed tr (With_script2 t f x y) \<longleftrightarrow>
     well_typed tr x \<and> well_typed tr y \<and> f \<noteq> None \<and> f = infer_flags tr (With_script2 t f x y)"
| "well_typed tr (With_script3 f x y z) \<longleftrightarrow>
     well_typed tr x \<and> well_typed tr y \<and> well_typed tr z \<and> f \<noteq> None
     \<and> f = infer_flags tr (With_script3 f x y z)"
| "well_typed tr (With_key t f _) \<longleftrightarrow> f = key_flags t"
| "well_typed tr (With_uint32 _ f _) \<longleftrightarrow> f = Some uint32_flags"
| "well_typed tr (With_hash256 _ f _) \<longleftrightarrow> f = Some hash_flags"
| "well_typed tr (With_hash160 _ f _) \<longleftrightarrow> f = Some hash_flags"
| "well_typed tr (Multisig t f _ _) \<longleftrightarrow> f = multi_flags t"
| "well_typed tr (Thresh f k xs) \<longleftrightarrow>
     list_all (well_typed tr) xs \<and> f \<noteq> None \<and> f = infer_flags tr (Thresh f k xs)"
| "well_typed tr (Tr _ None) \<longleftrightarrow> True"
| "well_typed tr (Tr _ (Some t)) \<longleftrightarrow> well_typed_tree t"
| "well_typed_tree (Tree_leaf x) \<longleftrightarrow> well_typed True x"
| "well_typed_tree (Tree_node l r) \<longleftrightarrow> well_typed_tree l \<and> well_typed_tree r"

lemma well_typed_flags: "well_typed tr x \<Longrightarrow> node_flags x = infer_flags tr x"
  by (cases x) auto

section \<open>Sanity of the types\<close>

text \<open>The restrictions between types and modifiers of the miniscript specification.\<close>

definition flags_sane :: "ms_flags \<Rightarrow> bool" where
  "flags_sane f \<longleftrightarrow>
     \<not> (mod_z f \<and> mod_o f) \<and> \<not> (mod_n f \<and> mod_z f) \<and>
     (miniscript_type f = MINISCRIPT_TYPE_W \<longrightarrow> \<not> mod_n f) \<and>
     (miniscript_type f = MINISCRIPT_TYPE_V \<longrightarrow> \<not> mod_d f \<and> \<not> mod_u f) \<and>
     (miniscript_type f = MINISCRIPT_TYPE_K \<longrightarrow> mod_u f)"

lemma leaf_flags_sane [simp]:
  "flags_sane (constant_flags t)" "flags_sane hash_flags" "flags_sane uint32_flags"
  by (simp_all add: flags_sane_def typing_defs)

lemma key_flags_sane: "key_flags t = Some f \<Longrightarrow> flags_sane f"
  by (cases t) (auto simp: flags_sane_def typing_defs)

lemma multi_flags_sane: "multi_flags t = Some f \<Longrightarrow> flags_sane f"
  by (cases t) (auto simp: flags_sane_def typing_defs)

lemma wrapper_flags_sane: "flags_sane X \<Longrightarrow> wrapper_flags tr w X = Some f \<Longrightarrow> flags_sane f"
  by (cases w) (auto simp: flags_sane_def typing_defs split: if_splits)

lemma script2_flags_sane:
  "flags_sane X \<Longrightarrow> flags_sane Y \<Longrightarrow> script2_flags t X Y = Some f \<Longrightarrow> flags_sane f"
  unfolding script2_flags_def flags_sane_def typing_defs
  by (cases t; cases "miniscript_type X"; cases "miniscript_type Y"; simp split: if_splits; force)

lemma andor_flags_sane:
  "flags_sane X \<Longrightarrow> flags_sane Y \<Longrightarrow> flags_sane Z \<Longrightarrow> andor_flags X Y Z = Some f \<Longrightarrow> flags_sane f"
  unfolding flags_sane_def typing_defs
  by (cases "miniscript_type Y"; simp split: if_splits; force)

lemma thresh_type_sane: "thresh_type fs = Some f \<Longrightarrow> flags_sane f"
  by (auto simp: thresh_type_def thresh_flags_def flags_sane_def split: list.splits if_splits)

lemma infer_flags_sane: "infer_flags tr x = Some f \<Longrightarrow> flags_sane f"
proof (induction tr x arbitrary: f rule: infer_flags.induct)
  case (5 tr g x y z)
  from "5.prems" obtain X Y Z where "infer_flags tr x = Some X" "infer_flags tr y = Some Y"
    "infer_flags tr z = Some Z" "andor_flags X Y Z = Some f"
    by (auto elim!: bind_SomeE)
  with 5 show ?case
    by (metis andor_flags_sane)
qed (auto elim!: bind_SomeE intro: key_flags_sane multi_flags_sane wrapper_flags_sane
      script2_flags_sane thresh_type_sane)


text \<open>All flags stored in a tree.\<close>

definition flag_list :: "ms_flags option \<Rightarrow> ms_flags list" where
  "flag_list f = (case f of None \<Rightarrow> [] | Some X \<Rightarrow> [X])"

fun all_flags :: "policy_node \<Rightarrow> ms_flags list" and all_flags_tree :: "policy_node_tree \<Rightarrow> ms_flags list"
  where
  "all_flags (Constant t f) = flag_list f"
| "all_flags (With_sh _ x) = all_flags x"
| "all_flags (With_wrapper w f x) = flag_list f @ all_flags x"
| "all_flags (With_script2 t f x y) =
     flag_list f @ all_flags x @ all_flags y"
| "all_flags (With_script3 f x y z) =
     flag_list f @ all_flags x @ all_flags y @ all_flags z"
| "all_flags (With_key t f _) = flag_list f"
| "all_flags (With_uint32 _ f _) = flag_list f"
| "all_flags (With_hash256 _ f _) = flag_list f"
| "all_flags (With_hash160 _ f _) = flag_list f"
| "all_flags (Multisig t f _ _) = flag_list f"
| "all_flags (Thresh f k xs) = flag_list f @ concat (map all_flags xs)"
| "all_flags (Tr _ None) = []"
| "all_flags (Tr _ (Some t)) = all_flags_tree t"
| "all_flags_tree (Tree_leaf x) = all_flags x"
| "all_flags_tree (Tree_node l r) = all_flags_tree l @ all_flags_tree r"

lemma set_flag_list [simp]: "F \<in> set (flag_list f) \<longleftrightarrow> f = Some F"
  by (auto simp: flag_list_def split: option.splits)

lemma well_typed_sane:
  "well_typed tr x \<Longrightarrow> F \<in> set (all_flags x) \<Longrightarrow> flags_sane F"
  "well_typed_tree t \<Longrightarrow> F \<in> set (all_flags_tree t) \<Longrightarrow> flags_sane F"
  by (induction tr x and t arbitrary: F and F rule: well_typed_well_typed_tree.induct)
    (auto simp del: infer_flags.simps simp: list_all_iff
      dest: infer_flags_sane [OF sym] key_flags_sane multi_flags_sane)

end
