(* ===== verification/Bytes.thy ===== *)
theory Bytes
  imports Prelude
begin

text \<open>
  Byte-level serialisation: \<^verbatim>\<open>src/src/common/read.c\<close>, \<^verbatim>\<open>src/src/common/write.c\<close>,
  \<^verbatim>\<open>src/src/common/varint.c\<close> and \<^verbatim>\<open>src/src/common/bitvector.h\<close>.  The readers and writers take
  the bytes of the object behind the C pointer and an offset of type \<open>size_t\<close>.
\<close>

section \<open>memcmp\<close>

text \<open>The order of \<open>memcmp\<close> on two arrays of the same length: the difference of the first bytes that
  differ.\<close>

fun memcmp :: "bytes \<Rightarrow> bytes \<Rightarrow> int" where
  "memcmp (x # xs) (y # ys) = (if x = y then memcmp xs ys else uint x - uint y)"
| "memcmp _ _ = 0"

section \<open>read.c\<close>

definition read_u16_be :: "bytes \<Rightarrow> size_t \<Rightarrow> u16 option" where [bytes_defs]:
  "read_u16_be p offset = do {
     b0 \<leftarrow> rd p (offset + 0);
     b1 \<leftarrow> rd p (offset + 1);
     Some (push_bit 8 (ucast b0) OR push_bit 0 (ucast b1)) }"

definition read_u32_be :: "bytes \<Rightarrow> size_t \<Rightarrow> u32 option" where [bytes_defs]:
  "read_u32_be p offset = do {
     b0 \<leftarrow> rd p (offset + 0);
     b1 \<leftarrow> rd p (offset + 1);
     b2 \<leftarrow> rd p (offset + 2);
     b3 \<leftarrow> rd p (offset + 3);
     Some (push_bit 24 (ucast b0) OR push_bit 16 (ucast b1) OR push_bit 8 (ucast b2)
           OR push_bit 0 (ucast b3)) }"

definition read_u64_be :: "bytes \<Rightarrow> size_t \<Rightarrow> u64 option" where [bytes_defs]:
  "read_u64_be p offset = do {
     b0 \<leftarrow> rd p (offset + 0);
     b1 \<leftarrow> rd p (offset + 1);
     b2 \<leftarrow> rd p (offset + 2);
     b3 \<leftarrow> rd p (offset + 3);
     b4 \<leftarrow> rd p (offset + 4);
     b5 \<leftarrow> rd p (offset + 5);
     b6 \<leftarrow> rd p (offset + 6);
     b7 \<leftarrow> rd p (offset + 7);
     Some (push_bit 56 (ucast b0) OR push_bit 48 (ucast b1) OR push_bit 40 (ucast b2)
           OR push_bit 32 (ucast b3) OR push_bit 24 (ucast b4) OR push_bit 16 (ucast b5)
           OR push_bit 8 (ucast b6) OR push_bit 0 (ucast b7)) }"

definition read_u16_le :: "bytes \<Rightarrow> size_t \<Rightarrow> u16 option" where [bytes_defs]:
  "read_u16_le p offset = do {
     b0 \<leftarrow> rd p (offset + 0);
     b1 \<leftarrow> rd p (offset + 1);
     Some (push_bit 0 (ucast b0) OR push_bit 8 (ucast b1)) }"

definition read_u32_le :: "bytes \<Rightarrow> size_t \<Rightarrow> u32 option" where [bytes_defs]:
  "read_u32_le p offset = do {
     b0 \<leftarrow> rd p (offset + 0);
     b1 \<leftarrow> rd p (offset + 1);
     b2 \<leftarrow> rd p (offset + 2);
     b3 \<leftarrow> rd p (offset + 3);
     Some (push_bit 0 (ucast b0) OR push_bit 8 (ucast b1) OR push_bit 16 (ucast b2)
           OR push_bit 24 (ucast b3)) }"

definition read_u64_le :: "bytes \<Rightarrow> size_t \<Rightarrow> u64 option" where [bytes_defs]:
  "read_u64_le p offset = do {
     b0 \<leftarrow> rd p (offset + 0);
     b1 \<leftarrow> rd p (offset + 1);
     b2 \<leftarrow> rd p (offset + 2);
     b3 \<leftarrow> rd p (offset + 3);
     b4 \<leftarrow> rd p (offset + 4);
     b5 \<leftarrow> rd p (offset + 5);
     b6 \<leftarrow> rd p (offset + 6);
     b7 \<leftarrow> rd p (offset + 7);
     Some (push_bit 0 (ucast b0) OR push_bit 8 (ucast b1) OR push_bit 16 (ucast b2)
           OR push_bit 24 (ucast b3) OR push_bit 32 (ucast b4) OR push_bit 40 (ucast b5)
           OR push_bit 48 (ucast b6) OR push_bit 56 (ucast b7)) }"

section \<open>write.c\<close>

definition write_u16_be :: "bytes \<Rightarrow> size_t \<Rightarrow> u16 \<Rightarrow> bytes option" where [bytes_defs]:
  "write_u16_be p offset v = do {
     p \<leftarrow> wr p (offset + 0) (ucast (drop_bit 8 v));
     wr p (offset + 1) (ucast (drop_bit 0 v)) }"

definition write_u32_be :: "bytes \<Rightarrow> size_t \<Rightarrow> u32 \<Rightarrow> bytes option" where [bytes_defs]:
  "write_u32_be p offset v = do {
     p \<leftarrow> wr p (offset + 0) (ucast (drop_bit 24 v));
     p \<leftarrow> wr p (offset + 1) (ucast (drop_bit 16 v));
     p \<leftarrow> wr p (offset + 2) (ucast (drop_bit 8 v));
     wr p (offset + 3) (ucast (drop_bit 0 v)) }"

definition write_u64_be :: "bytes \<Rightarrow> size_t \<Rightarrow> u64 \<Rightarrow> bytes option" where [bytes_defs]:
  "write_u64_be p offset v = do {
     p \<leftarrow> wr p (offset + 0) (ucast (drop_bit 56 v));
     p \<leftarrow> wr p (offset + 1) (ucast (drop_bit 48 v));
     p \<leftarrow> wr p (offset + 2) (ucast (drop_bit 40 v));
     p \<leftarrow> wr p (offset + 3) (ucast (drop_bit 32 v));
     p \<leftarrow> wr p (offset + 4) (ucast (drop_bit 24 v));
     p \<leftarrow> wr p (offset + 5) (ucast (drop_bit 16 v));
     p \<leftarrow> wr p (offset + 6) (ucast (drop_bit 8 v));
     wr p (offset + 7) (ucast (drop_bit 0 v)) }"

definition write_u16_le :: "bytes \<Rightarrow> size_t \<Rightarrow> u16 \<Rightarrow> bytes option" where [bytes_defs]:
  "write_u16_le p offset v = do {
     p \<leftarrow> wr p (offset + 0) (ucast (drop_bit 0 v));
     wr p (offset + 1) (ucast (drop_bit 8 v)) }"

definition write_u32_le :: "bytes \<Rightarrow> size_t \<Rightarrow> u32 \<Rightarrow> bytes option" where [bytes_defs]:
  "write_u32_le p offset v = do {
     p \<leftarrow> wr p (offset + 0) (ucast (drop_bit 0 v));
     p \<leftarrow> wr p (offset + 1) (ucast (drop_bit 8 v));
     p \<leftarrow> wr p (offset + 2) (ucast (drop_bit 16 v));
     wr p (offset + 3) (ucast (drop_bit 24 v)) }"

definition write_u64_le :: "bytes \<Rightarrow> size_t \<Rightarrow> u64 \<Rightarrow> bytes option" where [bytes_defs]:
  "write_u64_le p offset v = do {
     p \<leftarrow> wr p (offset + 0) (ucast (drop_bit 0 v));
     p \<leftarrow> wr p (offset + 1) (ucast (drop_bit 8 v));
     p \<leftarrow> wr p (offset + 2) (ucast (drop_bit 16 v));
     p \<leftarrow> wr p (offset + 3) (ucast (drop_bit 24 v));
     p \<leftarrow> wr p (offset + 4) (ucast (drop_bit 32 v));
     p \<leftarrow> wr p (offset + 5) (ucast (drop_bit 40 v));
     p \<leftarrow> wr p (offset + 6) (ucast (drop_bit 48 v));
     wr p (offset + 7) (ucast (drop_bit 56 v)) }"

section \<open>varint.c\<close>

definition varint_size :: "u64 \<Rightarrow> u8" where
  "varint_size v =
     (if v \<le> 0xFC then 1 else if v \<le> 0xFFFF then 3 else if v \<le> 0xFFFFFFFF then 5 else 9)"

text \<open>\<open>varint_read p in_len\<close> answers the length read together with the value, \<open>None\<close> for the
  return value \<open>-1\<close>.\<close>

definition varint_read :: "bytes \<Rightarrow> size_t \<Rightarrow> (nat \<times> u64) option" where
  "varint_read p in_len =
     (if in_len < 1 then None
      else do {
        prefix \<leftarrow> rd p 0;
        if prefix = 0xFD then
          (if in_len < 3 then None else do { v \<leftarrow> read_u16_le p 1; Some (3, ucast v) })
        else if prefix = 0xFE then
          (if in_len < 5 then None else do { v \<leftarrow> read_u32_le p 1; Some (5, ucast v) })
        else if prefix = 0xFF then
          (if in_len < 9 then None else do { v \<leftarrow> read_u64_le p 1; Some (9, v) })
        else Some (1, ucast prefix) })"

text \<open>\<open>varint_write p offset v\<close> answers the length written with the updated bytes.  The default
  branch of the C switch (\<open>-1\<close>) is the last one.\<close>

definition varint_write :: "bytes \<Rightarrow> size_t \<Rightarrow> u64 \<Rightarrow> (u8 \<times> bytes) option" where
  "varint_write out offset v =
     (let n = varint_size v in
      if n = 1 then do { out \<leftarrow> wr out offset (ucast v); Some (n, out) }
      else if n = 3 then do {
        out \<leftarrow> wr out offset 0xFD; out \<leftarrow> write_u16_le out (offset + 1) (ucast v); Some (n, out) }
      else if n = 5 then do {
        out \<leftarrow> wr out offset 0xFE; out \<leftarrow> write_u32_le out (offset + 1) (ucast v); Some (n, out) }
      else if n = 9 then do {
        out \<leftarrow> wr out offset 0xFF; out \<leftarrow> write_u64_le out (offset + 1) v; Some (n, out) }
      else None)"

section \<open>bitvector.h\<close>

definition bitvector_get :: "bytes \<Rightarrow> u32 \<Rightarrow> bool option" where
  "bitvector_get vec i =
     (let byte_pos = i div 8; shift = 7 - i mod 8 in
      do { b \<leftarrow> rd vec byte_pos; Some (drop_bit (unat shift) b AND 1 \<noteq> 0) })"

definition bitvector_set :: "bytes \<Rightarrow> u32 \<Rightarrow> bool \<Rightarrow> bytes option" where
  "bitvector_set vec i value =
     (let byte_pos = i div 8; shift = 7 - i mod 8; mask = push_bit (unat shift) 1 in
      do { b \<leftarrow> rd vec byte_pos;
           wr vec byte_pos (if value then b OR mask else b AND NOT mask) })"

section \<open>Serialising and reading back\<close>

lemma take_bit_or_push_bit:
  fixes v :: "'a::len word"
  shows "take_bit k v OR push_bit k (take_bit m (drop_bit k v)) = take_bit (k + m) v"
proof (rule bit_word_eqI)
  fix n
  assume "n < LENGTH('a)"
  then show "bit (take_bit k v OR push_bit k (take_bit m (drop_bit k v))) n
             = bit (take_bit (k + m) v) n"
    by (cases "n < k") (auto simp: bit_simps)
qed

lemma ucast_ucast_u8:
  "8 \<le> LENGTH('a) \<Longrightarrow> (ucast (ucast (v :: 'a::len word) :: u8) :: 'a word) = take_bit 8 v"
  by (rule bit_word_eqI) (auto simp: bit_simps)

lemmas byte_chain =
  ucast_ucast_u8 take_bit_or_push_bit [where m = 8] take_bit_word_eq_self or.assoc [symmetric]

lemma u16_bytes:
  "push_bit 0 (ucast (ucast (drop_bit 0 v) :: u8))
   OR push_bit 8 (ucast (ucast (drop_bit 8 v) :: u8)) = (v :: u16)"
  by (simp add: byte_chain)

lemma u32_bytes:
  "push_bit 0 (ucast (ucast (drop_bit 0 v) :: u8))
   OR push_bit 8 (ucast (ucast (drop_bit 8 v) :: u8))
   OR push_bit 16 (ucast (ucast (drop_bit 16 v) :: u8))
   OR push_bit 24 (ucast (ucast (drop_bit 24 v) :: u8)) = (v :: u32)"
  by (simp add: byte_chain)

lemma u64_bytes:
  "push_bit 0 (ucast (ucast (drop_bit 0 v) :: u8))
   OR push_bit 8 (ucast (ucast (drop_bit 8 v) :: u8))
   OR push_bit 16 (ucast (ucast (drop_bit 16 v) :: u8))
   OR push_bit 24 (ucast (ucast (drop_bit 24 v) :: u8))
   OR push_bit 32 (ucast (ucast (drop_bit 32 v) :: u8))
   OR push_bit 40 (ucast (ucast (drop_bit 40 v) :: u8))
   OR push_bit 48 (ucast (ucast (drop_bit 48 v) :: u8))
   OR push_bit 56 (ucast (ucast (drop_bit 56 v) :: u8)) = (v :: u64)"
  by (simp add: byte_chain)


lemma or_rev4: "d OR c OR b OR a = a OR b OR c OR (d :: 'a::len word)"
  by (simp only: or.commute or.left_commute)

lemma or_rev8:
  "h OR g OR f OR e OR d OR c OR b OR a = a OR b OR c OR d OR e OR f OR g OR (h :: 'a::len word)"
  by (simp only: or.commute or.left_commute)

lemma read_write_u16_le: "write_u16_le p off v = Some p' \<Longrightarrow> read_u16_le p' off = Some v"
  using u16_bytes [of v] unfolding bytes_defs by (elim bind_SomeE) (simp add: rd_wr)

lemma read_write_u16_be: "write_u16_be p off v = Some p' \<Longrightarrow> read_u16_be p' off = Some v"
  using u16_bytes [of v] unfolding bytes_defs
  by (subst or.commute) (elim bind_SomeE, simp add: rd_wr)

lemma read_write_u32_le: "write_u32_le p off v = Some p' \<Longrightarrow> read_u32_le p' off = Some v"
  using u32_bytes [of v] unfolding bytes_defs by (elim bind_SomeE) (simp add: rd_wr)

lemma read_write_u32_be: "write_u32_be p off v = Some p' \<Longrightarrow> read_u32_be p' off = Some v"
  using u32_bytes [of v] unfolding bytes_defs
  by (subst or_rev4) (elim bind_SomeE, simp add: rd_wr)

lemma read_write_u64_le: "write_u64_le p off v = Some p' \<Longrightarrow> read_u64_le p' off = Some v"
  using u64_bytes [of v] unfolding bytes_defs by (elim bind_SomeE) (simp add: rd_wr)

lemma read_write_u64_be: "write_u64_be p off v = Some p' \<Longrightarrow> read_u64_be p' off = Some v"
  using u64_bytes [of v] unfolding bytes_defs
  by (subst or_rev8) (elim bind_SomeE, simp add: rd_wr)

lemma rd_drop:
  assumes "unat off + unat i < 4294967296"
  shows "rd (drop (unat off) m) i = rd m (off + i)"
proof -
  have "unat (off + i) = unat off + unat i"
    by (rule unat_add_lem_le) (use assms in simp)
  then show ?thesis
    by (auto simp: rd_def)
qed

lemma read_le_drop:
  assumes "unat off + unat i + 8 \<le> 4294967296"
  shows "read_u16_le (drop (unat off) m) i = read_u16_le m (off + i)"
    and "read_u32_le (drop (unat off) m) i = read_u32_le m (off + i)"
    and "read_u64_le (drop (unat off) m) i = read_u64_le m (off + i)"
proof -
  have *: "rd (drop (unat off) m) (i + k) = rd m (off + i + k)" if "unat k < 8" for k
  proof -
    have "unat (i + k) = unat i + unat k"
      by (rule unat_add_lem_le) (use assms that in simp)
    then show ?thesis
      using assms that by (simp only: rd_drop add.assoc)
  qed
  have "rd (drop (unat off) m) (i + 0) = rd m (off + i + 0)"
    by (rule *) simp
  then show "read_u16_le (drop (unat off) m) i = read_u16_le m (off + i)"
    and "read_u32_le (drop (unat off) m) i = read_u32_le m (off + i)"
    and "read_u64_le (drop (unat off) m) i = read_u64_le m (off + i)"
    by (simp_all add: bytes_defs *)
qed
lemma write_le_other:
  "write_u16_le p (off + 1) v = Some p' \<Longrightarrow> rd p' off = rd p off"
  "write_u32_le p (off + 1) w = Some p' \<Longrightarrow> rd p' off = rd p off"
  "write_u64_le p (off + 1) x = Some p' \<Longrightarrow> rd p' off = rd p off"
  unfolding bytes_defs by (elim bind_SomeE, simp add: rd_wr)+

lemma ucast_ucast_small:
  fixes v :: "'a::len word"
  assumes "unat v < 2 ^ LENGTH('b::len)"
  shows "(ucast (ucast v :: 'b word) :: 'a word) = v"
proof (rule bit_word_eqI)
  fix n
  assume "n < LENGTH('a)"
  have "take_bit LENGTH('b) (unat v) = unat v"
    using assms by (simp add: take_bit_nat_eq_self)
  then have "bit (unat v) n \<longrightarrow> n < LENGTH('b)"
    by (metis bit_take_bit_iff)
  then have "bit v n \<longrightarrow> n < LENGTH('b)"
    by (simp add: bit_unsigned_iff)
  then show "bit (ucast (ucast v :: 'b word) :: 'a word) n = bit v n"
    using \<open>n < LENGTH('a)\<close> by (auto simp: bit_simps)
qed

lemma varint_size_cases:
  obtains "v \<le> 0xFC" "varint_size v = 1"
  | "\<not> v \<le> 0xFC" "v \<le> 0xFFFF" "varint_size v = 3"
  | "\<not> v \<le> 0xFFFF" "v \<le> 0xFFFFFFFF" "varint_size v = 5"
  | "\<not> v \<le> 0xFFFFFFFF" "varint_size v = 9"
proof -
  have "v \<le> 0xFFFF \<Longrightarrow> v \<le> 0xFFFFFFFF" "v \<le> 0xFC \<Longrightarrow> v \<le> 0xFFFF"
    by (auto intro: order_trans)
  then show ?thesis
    using that unfolding varint_size_def
    by (cases "v \<le> 0xFC"; cases "v \<le> 0xFFFF"; cases "v \<le> 0xFFFFFFFF") simp_all
qed

theorem varint_roundtrip:
  assumes w: "varint_write out off v = Some (n, out')"
    and off: "unat off + 9 \<le> 4294967296" and len: "unat n \<le> unat in_len"
  shows "varint_read (drop (unat off) out') in_len = Some (unat n, v)"
proof (cases v rule: varint_size_cases)
  case 1
  have small: "ucast (ucast v :: u8) = v"
    by (rule ucast_ucast_small) (use 1 in \<open>simp add: word_le_nat_alt\<close>)
  have "rd out' off = Some (ucast v)" and n: "n = 1"
    using w 1 by (auto simp: varint_write_def Let_def rd_wr elim!: bind_SomeE)
  moreover have "(ucast v :: u8) \<notin> {0xFD, 0xFE, 0xFF}"
    using 1 small by auto
  ultimately show ?thesis
    using small off len by (simp add: varint_read_def rd_drop word_less_nat_alt)
next
  case 2
  have small: "ucast (ucast v :: u16) = v"
    by (rule ucast_ucast_small) (use 2 in \<open>simp add: word_le_nat_alt\<close>)
  from w 2 have "rd out' off = Some 0xFD" "read_u16_le out' (off + 1) = Some (ucast v)" "n = 3"
    by (auto simp: varint_write_def Let_def rd_wr write_le_other read_write_u16_le
             elim!: bind_SomeE)
  then show ?thesis
    using small off len by (simp add: varint_read_def rd_drop read_le_drop word_less_nat_alt)
next
  case 3
  have small: "ucast (ucast v :: u32) = v"
    by (rule ucast_ucast_small) (use 3 in \<open>simp add: word_le_nat_alt\<close>)
  from w 3 have "rd out' off = Some 0xFE" "read_u32_le out' (off + 1) = Some (ucast v)" "n = 5"
    by (auto simp: varint_write_def Let_def rd_wr write_le_other read_write_u32_le
             elim!: bind_SomeE)
  then show ?thesis
    using small off len by (simp add: varint_read_def rd_drop read_le_drop word_less_nat_alt)
next
  case 4
  from w 4 have "rd out' off = Some 0xFF" "read_u64_le out' (off + 1) = Some v" "n = 9"
    by (auto simp: varint_write_def Let_def rd_wr write_le_other read_write_u64_le
             elim!: bind_SomeE)
  then show ?thesis
    using off len by (simp add: varint_read_def rd_drop read_le_drop word_less_nat_alt)
qed

lemma varint_read_length:
  "varint_read p l = Some (k, v) \<Longrightarrow> k \<in> {1, 3, 5, 9} \<and> k \<le> unat l"
  by (auto simp: varint_read_def word_less_nat_alt split: if_splits elim!: bind_SomeE)


section \<open>Bit vectors\<close>

lemma drop_bit_and_1: "(drop_bit k (b :: 'a::len word) AND 1 \<noteq> 0) = bit b k"
  by (simp add: bit_iff_and_drop_bit_eq_1 and_one_eq mod_2_eq_odd)

lemma bitvector_shift: "unat (7 - i mod 8 :: u32) = 7 - unat i mod 8"
proof -
  have "i mod 8 \<le> 7"
    by (simp add: word_le_nat_alt unat_mod)
  then show ?thesis
    by (simp add: unat_sub unat_mod)
qed

lemma bitvector_position:
  assumes "i div 8 = (j :: u32) div 8" and "7 - unat i mod 8 = 7 - unat j mod 8"
  shows "i = j"
proof -
  have "unat (i div 8) = unat (j div 8)"
    using assms(1) by simp
  then have "unat i div 8 = unat j div 8"
    by (simp add: unat_div)
  moreover have "unat i mod 8 = unat j mod 8"
    using assms(2) mod_less_divisor [of 8 "unat i"] mod_less_divisor [of 8 "unat j"] by linarith
  ultimately have "unat i = unat j"
    by (metis div_mult_mod_eq)
  then show ?thesis by (simp add: word_unat_eq_iff)
qed

lemma bitvector_get_bit:
  "bitvector_get vec i = map_option (\<lambda>b. bit b (7 - unat i mod 8)) (rd vec (i div 8))"
  by (cases "rd vec (i div 8)")
    (simp_all add: bitvector_get_def Let_def drop_bit_and_1 bitvector_shift)

theorem bitvector_get_set:
  assumes "bitvector_set vec i value = Some vec'"
  shows "bitvector_get vec' j = (if j = i then Some value else bitvector_get vec j)"
proof -
  let ?s = "\<lambda>k :: u32. 7 - unat k mod 8"
  from assms [unfolded bitvector_set_def Let_def bitvector_shift]
  obtain b where b: "rd vec (i div 8) = Some b"
    and "wr vec (i div 8) (if value then b OR push_bit (?s i) 1
           else b AND NOT (push_bit (?s i) 1)) = Some vec'"
    by (rule bind_SomeE)
  note rd' = rd_wr [OF this(2)]
  show ?thesis
  proof (cases "i div 8 = j div 8")
    case True
    then have "j = i" if "?s j = ?s i"
      using bitvector_position that by metis
    then show ?thesis
      using True b by (auto simp: bitvector_get_bit rd' bit_simps)
  next
    case False
    then show ?thesis
      by (auto simp: bitvector_get_bit rd')
  qed
qed

end
