(* ===== verification/Script.thy ===== *)
theory Script
  imports Bytes
begin

text \<open>
  \<^verbatim>\<open>src/src/common/script.c\<close>: opcodes, recognition of the standard output scripts, and the description
  of an \<open>OP_RETURN\<close> script that is shown to the user.  A script is the list of its bytes, so \<open>script_len\<close>
  is its length and the suffix from \<open>offset\<close> stands for the offset; characters are bytes.
\<close>

section \<open>Opcodes\<close>

abbreviation (input) OP_0 :: u8 where "OP_0 \<equiv> 0x00"
abbreviation (input) OP_1 :: u8 where "OP_1 \<equiv> 0x51"
abbreviation (input) OP_PUSHDATA1 :: u8 where "OP_PUSHDATA1 \<equiv> 0x4c"
abbreviation (input) OP_PUSHDATA2 :: u8 where "OP_PUSHDATA2 \<equiv> 0x4d"
abbreviation (input) OP_PUSHDATA4 :: u8 where "OP_PUSHDATA4 \<equiv> 0x4e"
abbreviation (input) OP_1NEGATE :: u8 where "OP_1NEGATE \<equiv> 0x4f"
abbreviation (input) OP_RESERVED :: u8 where "OP_RESERVED \<equiv> 0x50"
abbreviation (input) OP_16 :: u8 where "OP_16 \<equiv> 0x60"
abbreviation (input) OP_IF :: u8 where "OP_IF \<equiv> 0x63"
abbreviation (input) OP_NOTIF :: u8 where "OP_NOTIF \<equiv> 0x64"
abbreviation (input) OP_ELSE :: u8 where "OP_ELSE \<equiv> 0x67"
abbreviation (input) OP_ENDIF :: u8 where "OP_ENDIF \<equiv> 0x68"
abbreviation (input) OP_VERIFY :: u8 where "OP_VERIFY \<equiv> 0x69"
abbreviation (input) OP_RETURN :: u8 where "OP_RETURN \<equiv> 0x6a"
abbreviation (input) OP_TOALTSTACK :: u8 where "OP_TOALTSTACK \<equiv> 0x6b"
abbreviation (input) OP_FROMALTSTACK :: u8 where "OP_FROMALTSTACK \<equiv> 0x6c"
abbreviation (input) OP_IFDUP :: u8 where "OP_IFDUP \<equiv> 0x73"
abbreviation (input) OP_DUP :: u8 where "OP_DUP \<equiv> 0x76"
abbreviation (input) OP_SWAP :: u8 where "OP_SWAP \<equiv> 0x7c"
abbreviation (input) OP_SIZE :: u8 where "OP_SIZE \<equiv> 0x82"
abbreviation (input) OP_EQUAL :: u8 where "OP_EQUAL \<equiv> 0x87"
abbreviation (input) OP_EQUALVERIFY :: u8 where "OP_EQUALVERIFY \<equiv> 0x88"
abbreviation (input) OP_0NOTEQUAL :: u8 where "OP_0NOTEQUAL \<equiv> 0x92"
abbreviation (input) OP_ADD :: u8 where "OP_ADD \<equiv> 0x93"
abbreviation (input) OP_BOOLAND :: u8 where "OP_BOOLAND \<equiv> 0x9a"
abbreviation (input) OP_BOOLOR :: u8 where "OP_BOOLOR \<equiv> 0x9b"
abbreviation (input) OP_NUMEQUAL :: u8 where "OP_NUMEQUAL \<equiv> 0x9c"
abbreviation (input) OP_RIPEMD160 :: u8 where "OP_RIPEMD160 \<equiv> 0xa6"
abbreviation (input) OP_SHA256 :: u8 where "OP_SHA256 \<equiv> 0xa8"
abbreviation (input) OP_HASH160 :: u8 where "OP_HASH160 \<equiv> 0xa9"
abbreviation (input) OP_HASH256 :: u8 where "OP_HASH256 \<equiv> 0xaa"
abbreviation (input) OP_CHECKSIG :: u8 where "OP_CHECKSIG \<equiv> 0xac"
abbreviation (input) OP_CHECKSIGVERIFY :: u8 where "OP_CHECKSIGVERIFY \<equiv> 0xad"
abbreviation (input) OP_CHECKMULTISIG :: u8 where "OP_CHECKMULTISIG \<equiv> 0xae"
abbreviation (input) OP_CLTV :: u8 where "OP_CLTV \<equiv> 0xb1"
abbreviation (input) OP_CSV :: u8 where "OP_CSV \<equiv> 0xb2"
abbreviation (input) OP_CHECKSIGADD :: u8 where "OP_CHECKSIGADD \<equiv> 0xba"

section \<open>Sizes and types\<close>

definition get_push_script_size :: "u32 \<Rightarrow> size_t" where
  "get_push_script_size n =
     (if n \<le> 16 then 1 else if n < 0x80 then 2 else if n < 0x8000 then 3
      else if n < 0x800000 then 4 else if n < 0x80000000 then 5 else 6)"

datatype script_type =
    SCRIPT_TYPE_P2PKH | SCRIPT_TYPE_P2SH | SCRIPT_TYPE_P2WPKH | SCRIPT_TYPE_P2WSH | SCRIPT_TYPE_P2TR
  | SCRIPT_TYPE_UNKNOWN_SEGWIT

definition get_script_type :: "bytes \<Rightarrow> script_type option" where
  "get_script_type script =
     (let n = length script in
      if n = 25 \<and> script ! 0 = OP_DUP \<and> script ! 1 = OP_HASH160 \<and> script ! 2 = 0x14
         \<and> script ! 23 = OP_EQUALVERIFY \<and> script ! 24 = OP_CHECKSIG
      then Some SCRIPT_TYPE_P2PKH
      else if n = 23 \<and> script ! 0 = OP_HASH160 \<and> script ! 1 = 0x14 \<and> script ! 22 = OP_EQUAL
      then Some SCRIPT_TYPE_P2SH
      else if n = 22 \<and> script ! 0 = 0x00 \<and> script ! 1 = 0x14 then Some SCRIPT_TYPE_P2WPKH
      else if n = 34 \<and> script ! 0 = OP_0 \<and> script ! 1 = 0x20 then Some SCRIPT_TYPE_P2WSH
      else if n = 34 \<and> script ! 0 = OP_1 \<and> script ! 1 = 0x20 then Some SCRIPT_TYPE_P2TR
      else if n \<ge> 4 \<and> n \<le> 42 \<and> (script ! 0 = 0 \<or> script ! 0 \<ge> OP_1 \<and> script ! 0 \<le> OP_16)
         \<and> n = 1 + 1 + unat (script ! 1)
      then Some SCRIPT_TYPE_UNKNOWN_SEGWIT
      else None)"

definition is_opreturn :: "bytes \<Rightarrow> bool" where
  "is_opreturn script \<longleftrightarrow> length script > 0 \<and> length script \<le> 83 \<and> script ! 0 = OP_RETURN"

section \<open>Description of OP_RETURN scripts\<close>

definition hex_digit :: "u8 \<Rightarrow> u8" where
  "hex_digit n = ascii_string ''0123456789abcdef'' ! unat n"

definition hex_byte :: "u8 \<Rightarrow> bytes" where
  "hex_byte data = [hex_digit (data div 16), hex_digit (data mod 16)]"

text \<open>What the first part of an iteration reads: the characters it writes at once, the number of bytes
  of data that follow (\<open>hex_length\<close>), and the rest of the script.\<close>

definition push_header :: "u8 \<Rightarrow> bytes \<Rightarrow> (bytes \<times> nat \<times> bytes) option" where
  "push_header opcode script =
     (if opcode > OP_16 \<or> opcode = OP_RESERVED \<or> opcode = OP_PUSHDATA2 \<or> opcode = OP_PUSHDATA4 then None
      else if opcode = OP_0 then Some ([ascii CHR ''0''], 0, script)
      else if opcode \<ge> 1 \<and> opcode \<le> 75 then Some ([], unat opcode, script)
      else if opcode = OP_PUSHDATA1 then
        (case script of
           [] \<Rightarrow> None
         | n # script \<Rightarrow> if n \<le> 75 then None else Some ([], unat n, script))
      else if opcode = OP_1NEGATE then Some ([ascii CHR ''-'', ascii CHR ''1''], 0, script)
      else if opcode \<ge> OP_1 \<and> opcode \<le> OP_16 then
        let num = opcode - 0x50 in
        Some (if num \<ge> 10 then [ascii CHR ''1'', ascii CHR ''0'' + (num - 10)] else [ascii CHR ''0'' + num], 0, script)
      else None)"

definition format_push :: "u8 \<Rightarrow> bytes \<Rightarrow> (bytes \<times> bytes) option" where
  "format_push opcode script =
     do {
       (text, hex_length, script) \<leftarrow> push_header opcode script;
       if hex_length > length script then None
       else if hex_length = 1 \<and> (script ! 0 = 0x81 \<or> 1 \<le> script ! 0 \<and> script ! 0 \<le> 16) then None
       else if hex_length > 0 then
         Some (text @ [ascii CHR ''0'', ascii CHR ''x''] @ concat (map hex_byte (take hex_length script)),
           drop hex_length script)
       else Some (text, script) }"

text \<open>The loop, with the number of pushes still allowed; every push is followed by a space.\<close>

fun format_pushes :: "nat \<Rightarrow> bytes \<Rightarrow> bytes option" where
  "format_pushes n [] = Some []"
| "format_pushes 0 (opcode # script) = None"
| "format_pushes (Suc n) (opcode # script) =
     do {
       (text, script) \<leftarrow> format_push opcode script;
       rest \<leftarrow> format_pushes n script;
       Some (text @ [ascii CHR '' ''] @ rest) }"

text \<open>The characters in \<open>out\<close>, with the terminating 0, which overwrites the last space.\<close>

definition format_opscript_script :: "bytes \<Rightarrow> bytes option" where
  "format_opscript_script script =
     (if script = [] \<or> script ! 0 \<noteq> OP_RETURN then None
      else if length script > 83 then None
      else if length script = 1 then Some (ascii_string ''OP_RETURN'' @ [0])
      else do {
        out \<leftarrow> format_pushes 5 (tl script);
        Some (butlast (ascii_string ''OP_RETURN '' @ out) @ [0]) })"

section \<open>Properties of the descriptions\<close>

text \<open>The characters of a push: no spaces, and how to read them back.\<close>

definition hex_value :: "u8 \<Rightarrow> u8" where
  "hex_value c = (if c \<le> ascii CHR ''9'' then c - ascii CHR ''0'' else c - ascii CHR ''a'' + 10)"

fun unhex :: "bytes \<Rightarrow> bytes" where
  "unhex (a # b # cs) = (16 * hex_value a + hex_value b) # unhex cs"
| "unhex _ = []"

definition unformat_push :: "bytes \<Rightarrow> bytes" where
  "unformat_push t =
     (if t = [ascii CHR ''-'', ascii CHR ''1''] then [OP_1NEGATE]
      else if t = [ascii CHR ''0''] then [OP_0]
      else if length t = 1 then [0x50 + (hd t - ascii CHR ''0'')]
      else if length t = 2 then [0x50 + (10 + (t ! 1 - ascii CHR ''0''))]
      else let data = unhex (drop 2 t); n = word_of_nat (length data)
           in if length data \<le> 75 then n # data else OP_PUSHDATA1 # n # data)"

lemma hex_digits:
  "list_all (\<lambda>n. hex_value (hex_digit n) = n \<and> hex_digit n \<noteq> ascii CHR '' '') (map word_of_nat [0..<16])"
  by code_simp

lemma hex_digit_less_16:
  assumes "n < 16"
  shows "hex_value (hex_digit n) = n" "hex_digit n \<noteq> ascii CHR '' ''"
proof -
  have "unat n < 16"
    using assms by (simp add: word_less_nat_alt)
  then have "n \<in> set (map word_of_nat [0..<16])"
    unfolding set_map by (intro image_eqI [of _ _ "unat n"]) simp_all
  then show "hex_value (hex_digit n) = n" "hex_digit n \<noteq> ascii CHR '' ''"
    using hex_digits unfolding list_all_iff by blast+
qed

lemma byte_div_mod_16: "b div 16 < 16" "b mod 16 < 16" "16 * (b div 16) + b mod 16 = b" for b :: u8
proof -
  show "b div 16 < 16"
    using unat_u8_bound [of b] by (simp add: word_less_nat_alt unat_div less_mult_imp_div_less)
  show "b mod 16 < 16"
    by (simp add: word_less_nat_alt unat_mod)
  show "16 * (b div 16) + b mod 16 = b"
    by (rule mult_div_mod_eq)
qed

lemma unhex_hex_bytes: "unhex (concat (map hex_byte d)) = d"
  by (induction d) (simp_all add: hex_byte_def hex_digit_less_16 byte_div_mod_16)

lemma length_hex_bytes: "length (concat (map hex_byte d)) = 2 * length d"
  by (induction d) (simp_all add: hex_byte_def)

lemma hex_bytes_no_space: "ascii CHR '' '' \<notin> set (concat (map hex_byte d))"
proof
  assume "ascii CHR '' '' \<in> set (concat (map hex_byte d))"
  then show False
    using hex_digit_less_16(2) [OF byte_div_mod_16(1)] hex_digit_less_16(2) [OF byte_div_mod_16(2)]
    by (auto simp: hex_byte_def) metis+
qed

definition small_ops :: "u8 list" where
  "small_ops = map word_of_nat ([0] @ [79] @ [81..<97])"

lemma push_header_small:
  "list_all (\<lambda>opcode. case push_header opcode [] of
     None \<Rightarrow> False
   | Some (t, h, s) \<Rightarrow> h = 0 \<and> s = [] \<and> unformat_push t = [opcode] \<and> ascii CHR '' '' \<notin> set t
       \<and> t \<noteq> [] \<and> length t \<le> 2) small_ops"
  by code_simp

lemma small_op_member:
  assumes "opcode = 0 \<or> opcode = 0x4f \<or> 0x51 \<le> opcode \<and> opcode \<le> 0x60"
  shows "opcode \<in> set small_ops"
proof -
  have "unat opcode \<in> set ([0] @ [79] @ [81..<97])"
    unfolding set_append set_upt list.set using assms by (auto simp: word_le_nat_alt)
  then show ?thesis
    unfolding small_ops_def set_map by (intro image_eqI [of _ _ "unat opcode"]) simp_all
qed

lemma push_header_cases:
  assumes "push_header opcode script = Some (t, h, s)"
  obtains (data) "t = []" "0 < h" "h \<le> 75" "opcode = word_of_nat h" "s = script"
    | (pushdata) "t = []" "75 < h" "h < 256" "opcode = OP_PUSHDATA1" "script = word_of_nat h # s"
    | (small) "h = 0" "s = script" "opcode \<in> set small_ops" "push_header opcode [] = Some (t, 0, [])"
proof -
  consider "opcode = 0" | "1 \<le> opcode \<and> opcode \<le> 75" | "opcode = OP_PUSHDATA1" | "opcode = OP_1NEGATE"
    | "OP_1 \<le> opcode \<and> opcode \<le> OP_16"
    using assms by (auto simp: push_header_def split: if_splits)
  then show ?thesis
  proof cases
    case 2
    then have "unat opcode = h" "t = []" "s = script" "0 < h" "h \<le> 75"
      using assms by (auto simp: push_header_def word_le_nat_alt word_less_nat_alt unat_gt_0 split: if_splits)
    then show ?thesis
      using data by auto
  next
    case 3
    then obtain n where "script = n # s" "75 < unat n" "unat n = h" "t = []"
      using assms by (auto simp: push_header_def word_le_nat_alt not_le split: list.splits if_splits)
    then show ?thesis
      using pushdata 3 unat_u8_bound [of n] by auto
  qed (use assms small small_op_member in \<open>auto simp: push_header_def Let_def word_le_nat_alt split: if_splits\<close>)
qed

lemma unformat_data:
  assumes "0 < length d"
  shows "unformat_push ([ascii CHR ''0'', ascii CHR ''x''] @ concat (map hex_byte d)) =
    (if length d \<le> 75 then word_of_nat (length d) # d else OP_PUSHDATA1 # word_of_nat (length d) # d)"
proof -
  have "2 < length ([ascii CHR ''0'', ascii CHR ''x''] @ concat (map hex_byte d))"
    using assms by (simp add: length_hex_bytes del: length_concat)
  moreover have "drop 2 ([ascii CHR ''0'', ascii CHR ''x''] @ concat (map hex_byte d)) = concat (map hex_byte d)"
    by (simp add: numeral_eq_Suc)
  ultimately show ?thesis
    by (auto simp: unformat_push_def Let_def unhex_hex_bytes simp del: length_concat)
qed

lemma format_push_facts:
  assumes "format_push opcode script = Some (t, rest)"
  shows "opcode # script = unformat_push t @ rest \<and> ascii CHR '' '' \<notin> set t \<and> t \<noteq> []
    \<and> length t + 2 * length rest \<le> 2 + 2 * length script"
proof -
  from assms obtain u h s where hd: "push_header opcode script = Some (u, h, s)" and h: "h \<le> length s"
    and t: "(t, rest) = (if 0 < h then (u @ [ascii CHR ''0'', ascii CHR ''x''] @ concat (map hex_byte (take h s)), drop h s)
       else (u, s))"
    by (auto simp: format_push_def split: if_splits Option.bind_splits)
  have sp: "ascii CHR '' '' \<noteq> ascii CHR ''0''" "ascii CHR '' '' \<noteq> ascii CHR ''x''"
    by (simp_all add: ascii_inj)
  from hd show ?thesis
  proof (cases rule: push_header_cases)
    case data
    then show ?thesis
      using t h sp unformat_data [of "take h s"] hex_bytes_no_space [of "take h s"] length_hex_bytes [of "take h s"]
      by (simp del: length_concat)
  next
    case pushdata
    then show ?thesis
      using t h sp unformat_data [of "take h s"] hex_bytes_no_space [of "take h s"] length_hex_bytes [of "take h s"]
      by (simp del: length_concat)
  next
    case small
    then show ?thesis
      using t push_header_small unfolding list_all_iff by fastforce
  qed
qed

lemma append_space_inj:
  assumes "t @ x # u = t' @ x # u'" "x \<notin> set t" "x \<notin> set t'"
  shows "t = t' \<and> u = u'"
  using assms by (induction t arbitrary: t') (auto simp: Cons_eq_append_conv append_eq_Cons_conv)

lemma format_pushes_inj:
  "format_pushes n s = Some t \<Longrightarrow> format_pushes m s' = Some t \<Longrightarrow> s = s'"
proof (induction n s arbitrary: t m s' rule: format_pushes.induct)
  case (1 n)
  then show ?case
    by (cases "(m, s')" rule: format_pushes.cases) (auto elim!: bind_SomeE split: prod.splits)
next
  case (3 n opcode script)
  from "3.prems"(1) obtain u r t1 where u: "format_push opcode script = Some (u, r)" "format_pushes n r = Some t1"
    "t = u @ [ascii CHR '' ''] @ t1"
    by (auto elim!: bind_SomeE split: prod.splits)
  from "3.prems"(2) u(3) obtain m' opcode' script' u' r' t1' where s': "s' = opcode' # script'"
    "format_push opcode' script' = Some (u', r')" "format_pushes m' r' = Some t1'" "t = u' @ [ascii CHR '' ''] @ t1'"
    by (cases "(m, s')" rule: format_pushes.cases) (auto elim!: bind_SomeE split: prod.splits)
  have "u = u'" "t1 = t1'"
    using append_space_inj [of u "ascii CHR '' ''" t1 u' t1'] u(3) s'(4) format_push_facts [OF u(1)]
      format_push_facts [OF s'(2)]
    by simp_all
  moreover from this have "r = r'"
    using "3.IH" u s' by blast
  ultimately show ?case
    using format_push_facts [OF u(1)] format_push_facts [OF s'(2)] s'(1) by simp
qed simp

lemma length_format_pushes: "format_pushes n s = Some t \<Longrightarrow> length t \<le> 2 * length s + n"
proof (induction n s arbitrary: t rule: format_pushes.induct)
  case (3 n opcode script)
  then obtain u r t1 where u: "format_push opcode script = Some (u, r)" "format_pushes n r = Some t1"
    "t = u @ [ascii CHR '' ''] @ t1"
    by (auto elim!: bind_SomeE split: prod.splits)
  then show ?case
    using format_push_facts [OF u(1), THEN conjunct2, THEN conjunct2, THEN conjunct2] "3.IH" [OF u(1) refl u(2)]
    by simp
qed simp_all

definition example_opreturn :: bytes where
  "example_opreturn = [OP_RETURN, 2, 0xab, 0xcd, OP_16]"

lemma example_description:
  "format_opscript_script example_opreturn = Some (ascii_string ''OP_RETURN 0xabcd 16'' @ [0])"
  by code_simp

text \<open>C13: The description of an \<open>OP_RETURN\<close> script, with its terminating 0, fits in the buffer of
  \<open>MAX_OPRETURN_OUTPUT_DESC_SIZE\<close> bytes.\<close>

theorem format_opscript_bound:
  assumes "format_opscript_script script = Some out"
  shows "length out \<le> 9 + 5 * 3 + 2 * 80 + 1"
  using assms length_format_pushes [of 5 "tl script"]
  by (auto simp: format_opscript_script_def split: if_splits Option.bind_splits)

theorem format_opscript_bound_witness:
  "\<exists>out. format_opscript_script example_opreturn = Some out \<and> length out \<le> 185"
  using format_opscript_bound [OF example_description] example_description by auto

lemma format_pushes_last: "format_pushes n s = Some t \<Longrightarrow> s \<noteq> [] \<Longrightarrow> t \<noteq> [] \<and> last t = ascii CHR '' ''"
proof (induction n s arbitrary: t rule: format_pushes.induct)
  case (3 n opcode script)
  then obtain u r t1 where u: "format_push opcode script = Some (u, r)" "format_pushes n r = Some t1"
    "t = u @ [ascii CHR '' ''] @ t1"
    by (auto elim!: bind_SomeE split: prod.splits)
  then show ?case
    using "3.IH" [OF u(1) refl u(2)] by (cases "r = []") auto
qed simp_all

lemma format_opscript_cases:
  assumes "format_opscript_script s = Some out"
  obtains "s = [OP_RETURN]" "out = ascii_string ''OP_RETURN'' @ [0]"
    | t s1 where "s = OP_RETURN # s1" "s1 \<noteq> []" "format_pushes 5 s1 = Some t" "t \<noteq> []"
      "t = butlast t @ [ascii CHR '' '']" "out = ascii_string ''OP_RETURN '' @ butlast t @ [0]"
proof -
  obtain s1 where s: "s = OP_RETURN # s1"
    using assms by (cases s) (auto simp: format_opscript_script_def split: if_splits)
  show ?thesis
  proof (cases "s1 = []")
    case True
    then show ?thesis
      using that(1) assms s by (simp add: format_opscript_script_def)
  next
    case False
    then obtain t where t: "format_pushes 5 s1 = Some t" "out = butlast (ascii_string ''OP_RETURN '' @ t) @ [0]"
      using assms s by (auto simp: format_opscript_script_def split: if_splits Option.bind_splits)
    from format_pushes_last [OF t(1) False] show ?thesis
      using that(2) [OF s False t(1)] t(2) by (simp add: butlast_append) (metis append_butlast_last_id)
  qed
qed

text \<open>C12: The description shown to the user determines the \<open>OP_RETURN\<close> script: two different scripts never
  have the same description.\<close>

theorem format_opscript_injective:
  assumes "format_opscript_script s = Some out" and "format_opscript_script s' = Some out"
  shows "s = s'"
proof (rule format_opscript_cases [OF assms(1)]; rule format_opscript_cases [OF assms(2)])
  fix t s1 t' s1'
  assume *: "s = OP_RETURN # s1" "format_pushes 5 s1 = Some t" "t = butlast t @ [ascii CHR '' '']"
    "out = ascii_string ''OP_RETURN '' @ butlast t @ [0]"
    "s' = OP_RETURN # s1'" "format_pushes 5 s1' = Some t'" "t' = butlast t' @ [ascii CHR '' '']"
    "out = ascii_string ''OP_RETURN '' @ butlast t' @ [0]"
  then have "butlast t = butlast t'"
    by simp
  then have "t = t'"
    using *(3,7) by metis
  then show ?thesis
    using *(1,2,5,6) format_pushes_inj by blast
qed (simp_all add: ascii_def)

theorem format_opscript_injective_witness:
  "\<exists>out. format_opscript_script example_opreturn = Some out
     \<and> (\<forall>s. format_opscript_script s = Some out \<longrightarrow> s = example_opreturn)"
  using format_opscript_injective [OF _ example_description] example_description by blast

end
