(* ===== verification/Ext_Info.thy ===== *)
theory Ext_Info
  imports Policy_Typing Script
begin

text \<open>
  The static analysis of miniscript: \<open>compute_miniscript_policy_ext_info\<close> of
  \<^verbatim>\<open>src/src/common/wallet.c\<close>, that is the size of the script, the numbers of opcodes and of stack
  elements, and the flags for signatures (\<open>s\<close>), malleability (\<open>f\<close>, \<open>e\<close>, \<open>m\<close>), timelocks (\<open>g\<close> to
  \<open>k\<close>) and the last opcode (\<open>x\<close>).

  The \<open>uint16_t\<close> fields are 16-bit words, so their sums wrap around; the \<open>int16_t\<close> fields are
  integers, which \<open>sumcheck\<close> keeps in range (the counts \<open>k\<close> and \<open>n\<close> of a node are themselves of type
  \<open>int16_t\<close>).  The arrays \<open>sats\<close> of the \<open>thresh\<close> computations have
  130 elements, and reading outside of them gives \<open>None\<close>.
\<close>

section \<open>Data\<close>

record policy_node_ext_info =
  ops_count :: u16
  ops_sat :: int
  ops_dsat :: int
  ss_sat :: int
  ss_dsat :: int
  script_size :: u16
  ext_s :: bool
  ext_f :: bool
  ext_e :: bool
  ext_m :: bool
  ext_g :: bool
  ext_h :: bool
  ext_i :: bool
  ext_j :: bool
  ext_k :: bool
  ext_x :: bool

definition sumcheck :: "int \<Rightarrow> int \<Rightarrow> int" where
  "sumcheck a b = (if a < 0 \<or> b < 0 then - 1 else if a + b > 32767 then 32767 else a + b)"

definition maxcheck :: "int \<Rightarrow> int \<Rightarrow> int" where
  "maxcheck a b = (if a < 0 then b else if a > b then a else b)"

text \<open>After \<open>memset\<close> and the initialisation of \<open>m\<close>, \<open>k\<close> and \<open>x\<close>.\<close>

definition ext_init :: policy_node_ext_info where
  "ext_init =
     \<lparr>ops_count = 0, ops_sat = 0, ops_dsat = 0, ss_sat = 0, ss_dsat = 0, script_size = 0,
      ext_s = False, ext_f = False, ext_e = False, ext_m = True, ext_g = False, ext_h = False,
      ext_i = False, ext_j = False, ext_k = True, ext_x = True\<rparr>"

definition set_ops :: "u16 \<Rightarrow> int \<Rightarrow> int \<Rightarrow> policy_node_ext_info \<Rightarrow> policy_node_ext_info" where
  "set_ops count sat dsat t = t\<lparr>ops_count := count, ops_sat := sat, ops_dsat := dsat\<rparr>"

definition set_ss :: "int \<Rightarrow> int \<Rightarrow> policy_node_ext_info \<Rightarrow> policy_node_ext_info" where
  "set_ss sat dsat t = t\<lparr>ss_sat := sat, ss_dsat := dsat\<rparr>"

section \<open>Fragments without children\<close>

definition ext_constant :: "const_tok \<Rightarrow> policy_node_ext_info" where
  "ext_constant t = (case t of
      Tok_0 \<Rightarrow> set_ss (- 1) 0 (set_ops 0 (- 1) 0
        (ext_init\<lparr>ext_s := True, ext_e := True, script_size := 1\<rparr>))
    | Tok_1 \<Rightarrow> set_ss 0 (- 1) (set_ops 0 0 (- 1) (ext_init\<lparr>ext_f := True, script_size := 1\<rparr>)))"

definition ext_key :: "MiniscriptContext \<Rightarrow> key_tok \<Rightarrow> policy_node_ext_info option" where
  "ext_key ctx t = (let tap = (ctx = MINISCRIPT_CONTEXT_TAPSCRIPT) in case t of
      Tok_PK_K \<Rightarrow> Some (set_ss 1 1 (set_ops 0 0 0
        (ext_init\<lparr>ext_s := True, ext_e := True, script_size := if tap then 33 else 34\<rparr>)))
    | Tok_PK_H \<Rightarrow> Some (set_ss 2 2 (set_ops 3 0 0
        (ext_init\<lparr>ext_s := True, ext_e := True, script_size := 3 + 21\<rparr>)))
    | Tok_PK \<Rightarrow> Some (set_ss 1 1 (set_ops 1 0 0
        (ext_init\<lparr>ext_s := True, ext_e := True, ext_x := False,
          script_size := if tap then 34 else 35\<rparr>)))
    | Tok_PKH \<Rightarrow> Some (set_ss 2 2 (set_ops 4 0 0
        (ext_init\<lparr>ext_s := True, ext_e := True, ext_x := False, script_size := 3 + 21 + 1\<rparr>)))
    | Tok_WPKH \<Rightarrow> None)"

definition ext_multi :: "multi_tok \<Rightarrow> nat \<Rightarrow> nat \<Rightarrow> policy_node_ext_info option" where
  "ext_multi t k n = (case t of
      Tok_MULTI \<Rightarrow> Some (set_ss (int k + 1) (int k + 1) (set_ops 1 (int n) (int n)
        (ext_init\<lparr>ext_s := True, ext_e := True, ext_x := False,
          script_size := ucast (1 + get_push_script_size (word_of_nat k)
            + get_push_script_size (word_of_nat n) + 34 * word_of_nat n)\<rparr>)))
    | Tok_MULTI_A \<Rightarrow> Some (set_ss (int n) (int n) (set_ops (word_of_nat n + 1) 0 0
        (ext_init\<lparr>ext_s := True, ext_e := True, ext_x := False,
          script_size := ucast (1 + get_push_script_size (word_of_nat k) + 34 * word_of_nat n)\<rparr>)))
    | Tok_SORTEDMULTI \<Rightarrow> None
    | Tok_SORTEDMULTI_A \<Rightarrow> None)"

abbreviation (input) SEQUENCE_LOCKTIME_TYPE_FLAG :: u32 where
  "SEQUENCE_LOCKTIME_TYPE_FLAG \<equiv> push_bit 22 1"

abbreviation (input) LOCKTIME_THRESHOLD :: u32 where "LOCKTIME_THRESHOLD \<equiv> 500000000"

definition ext_uint32 :: "uint_tok \<Rightarrow> u32 \<Rightarrow> policy_node_ext_info" where
  "ext_uint32 t n =
     set_ss 0 (- 1) (set_ops 1 0 (- 1)
       ((case t of
           Tok_OLDER \<Rightarrow>
             if n AND SEQUENCE_LOCKTIME_TYPE_FLAG \<noteq> 0 then ext_init\<lparr>ext_g := True\<rparr>
             else ext_init\<lparr>ext_h := True\<rparr>
         | Tok_AFTER \<Rightarrow>
             if n \<ge> LOCKTIME_THRESHOLD then ext_init\<lparr>ext_i := True\<rparr> else ext_init\<lparr>ext_j := True\<rparr>)
        \<lparr>ext_f := True, script_size := ucast (1 + get_push_script_size n)\<rparr>))"

definition ext_hash256 :: policy_node_ext_info where
  "ext_hash256 =
     set_ss 1 (- 1) (set_ops 4 0 (- 1) (ext_init\<lparr>ext_x := False, script_size := 4 + 2 + 33\<rparr>))"

definition ext_hash160 :: policy_node_ext_info where
  "ext_hash160 =
     set_ss 1 (- 1) (set_ops 4 0 (- 1) (ext_init\<lparr>ext_x := False, script_size := 4 + 2 + 21\<rparr>))"

section \<open>Fragments with two or three children\<close>

text \<open>The timelock flags of a conjunction and of a disjunction.\<close>

definition set_locks :: "policy_node_ext_info \<Rightarrow> policy_node_ext_info \<Rightarrow> policy_node_ext_info \<Rightarrow> policy_node_ext_info"
  where
  "set_locks x y t =
     t\<lparr>ext_g := ext_g x \<or> ext_g y, ext_h := ext_h x \<or> ext_h y,
       ext_i := ext_i x \<or> ext_i y, ext_j := ext_j x \<or> ext_j y\<rparr>"

definition mixed_locks :: "policy_node_ext_info \<Rightarrow> policy_node_ext_info \<Rightarrow> bool" where
  "mixed_locks x y \<longleftrightarrow>
     ext_g x \<and> ext_h y \<or> ext_h x \<and> ext_g y \<or> ext_i x \<and> ext_j y \<or> ext_j x \<and> ext_i y"

definition ext_andor ::
    "policy_node_ext_info \<Rightarrow> policy_node_ext_info \<Rightarrow> policy_node_ext_info \<Rightarrow> policy_node_ext_info" where
  "ext_andor x y z =
     set_ss
       (maxcheck (sumcheck (ss_sat x) (ss_sat y)) (sumcheck (ss_dsat x) (ss_sat z)))
       (sumcheck (ss_dsat x) (ss_dsat z))
     (set_ops (3 + ops_count x + ops_count y + ops_count z)
       (maxcheck (sumcheck (ops_sat y) (ops_sat x)) (sumcheck (ops_dsat y) (ops_sat z)))
       (sumcheck (ops_dsat x) (ops_dsat z))
     (ext_init
       \<lparr>ext_s := ext_s z \<and> (ext_s x \<or> ext_s y),
        ext_f := ext_f z \<and> (ext_s x \<or> ext_f y),
        ext_e := ext_e z \<and> (ext_s x \<or> ext_f y),
        ext_m := ext_m x \<and> ext_m y \<and> ext_m z \<and> ext_e x \<and> (ext_s x \<or> ext_s y \<or> ext_s z),
        ext_g := ext_g x \<or> ext_g y \<or> ext_g z, ext_h := ext_h x \<or> ext_h y \<or> ext_h z,
        ext_i := ext_i x \<or> ext_i y \<or> ext_i z, ext_j := ext_j x \<or> ext_j y \<or> ext_j z,
        ext_k := ext_k x \<and> ext_k y \<and> ext_k z \<and> \<not> mixed_locks x y,
        script_size := 3 + script_size x + script_size y + script_size z\<rparr>))"

definition ext_and_v :: "policy_node_ext_info \<Rightarrow> policy_node_ext_info \<Rightarrow> policy_node_ext_info" where
  "ext_and_v x y =
     set_ss (sumcheck (ss_sat x) (ss_sat y)) (- 1)
     (set_ops (ops_count x + ops_count y) (sumcheck (ops_sat x) (ops_sat y)) (- 1)
     (set_locks x y ext_init
       \<lparr>ext_s := ext_s x \<or> ext_s y,
        ext_f := ext_s x \<or> ext_f y,
        ext_m := ext_m x \<and> ext_m y,
        ext_k := ext_k x \<and> ext_k y \<and> \<not> mixed_locks x y,
        ext_x := ext_x y,
        script_size := script_size x + script_size y\<rparr>))"

definition ext_and_b :: "policy_node_ext_info \<Rightarrow> policy_node_ext_info \<Rightarrow> policy_node_ext_info" where
  "ext_and_b x y =
     set_ss (sumcheck (ss_sat x) (ss_sat y)) (sumcheck (ss_dsat x) (ss_dsat y))
     (set_ops (1 + ops_count x + ops_count y)
       (sumcheck (ops_sat x) (ops_sat y)) (sumcheck (ops_dsat x) (ops_dsat y))
     (set_locks x y ext_init
       \<lparr>ext_s := ext_s x \<or> ext_s y,
        ext_f := ext_f x \<and> ext_f y \<or> ext_s x \<and> ext_f x \<or> ext_s y \<and> ext_f y,
        ext_e := ext_e x \<and> ext_e y \<and> ext_s x \<and> ext_s y,
        ext_m := ext_m x \<and> ext_m y,
        ext_k := ext_k x \<and> ext_k y \<and> \<not> mixed_locks x y,
        script_size := 1 + script_size x + script_size y\<rparr>))"

definition ext_and_n :: "policy_node_ext_info \<Rightarrow> policy_node_ext_info \<Rightarrow> policy_node_ext_info" where
  "ext_and_n x y =
     set_ss (sumcheck (ss_sat x) (ss_sat y)) (ss_dsat x)
     (set_ops (3 + ops_count x + ops_count y)
       (maxcheck (sumcheck (ops_sat y) (ops_sat x)) (ops_dsat y)) (ops_dsat x)
     (set_locks x y ext_init
       \<lparr>ext_s := ext_s x \<or> ext_s y,
        ext_e := ext_s x \<or> ext_f y,
        ext_m := ext_m x \<and> ext_m y \<and> ext_e x \<and> (ext_s x \<or> ext_s y),
        ext_k := ext_k x \<and> ext_k y \<and> \<not> mixed_locks x y,
        script_size := 4 + script_size x + script_size y\<rparr>))"

definition ext_or_b :: "policy_node_ext_info \<Rightarrow> policy_node_ext_info \<Rightarrow> policy_node_ext_info" where
  "ext_or_b x z =
     set_ss
       (maxcheck (sumcheck (ss_dsat x) (ss_sat z)) (sumcheck (ss_sat x) (ss_dsat z)))
       (sumcheck (ss_dsat x) (ss_dsat z))
     (set_ops (1 + ops_count x + ops_count z)
       (maxcheck (sumcheck (ops_sat x) (ops_dsat z)) (sumcheck (ops_sat z) (ops_dsat x)))
       (sumcheck (ops_dsat x) (ops_dsat z))
     (set_locks x z ext_init
       \<lparr>ext_s := ext_s x \<and> ext_s z,
        ext_e := True,
        ext_m := ext_m x \<and> ext_m z \<and> ext_e x \<and> ext_e z \<and> (ext_s x \<or> ext_s z),
        ext_k := ext_k x \<and> ext_k z,
        script_size := 1 + script_size x + script_size z\<rparr>))"

definition ext_or_c :: "policy_node_ext_info \<Rightarrow> policy_node_ext_info \<Rightarrow> policy_node_ext_info" where
  "ext_or_c x z =
     set_ss (maxcheck (ss_sat x) (sumcheck (ss_dsat x) (ss_sat z))) (- 1)
     (set_ops (2 + ops_count x + ops_count z)
       (maxcheck (ops_sat x) (sumcheck (ops_sat z) (ops_dsat x))) (- 1)
     (set_locks x z ext_init
       \<lparr>ext_s := ext_s x \<and> ext_s z,
        ext_f := True,
        ext_m := ext_m x \<and> ext_m z \<and> ext_e x \<and> (ext_s x \<or> ext_s z),
        ext_k := ext_k x \<and> ext_k z,
        script_size := 2 + script_size x + script_size z\<rparr>))"

definition ext_or_d :: "policy_node_ext_info \<Rightarrow> policy_node_ext_info \<Rightarrow> policy_node_ext_info" where
  "ext_or_d x z =
     set_ss (maxcheck (ss_sat x) (sumcheck (ss_dsat x) (ss_sat z))) (sumcheck (ss_dsat x) (ss_dsat z))
     (set_ops (3 + ops_count x + ops_count z)
       (maxcheck (ops_sat x) (sumcheck (ops_sat z) (ops_dsat x)))
       (sumcheck (ops_dsat x) (ops_dsat z))
     (set_locks x z ext_init
       \<lparr>ext_s := ext_s x \<and> ext_s z,
        ext_f := ext_f z,
        ext_e := ext_e z,
        ext_m := ext_m x \<and> ext_m z \<and> ext_e x \<and> (ext_s x \<or> ext_s z),
        ext_k := ext_k x \<and> ext_k z,
        script_size := 3 + script_size x + script_size z\<rparr>))"

definition ext_or_i :: "policy_node_ext_info \<Rightarrow> policy_node_ext_info \<Rightarrow> policy_node_ext_info" where
  "ext_or_i x z =
     set_ss (maxcheck (sumcheck (ss_sat x) 1) (sumcheck (ss_sat z) 1))
       (maxcheck (sumcheck (ss_dsat x) 1) (sumcheck (ss_dsat z) 1))
     (set_ops (3 + ops_count x + ops_count z)
       (maxcheck (ops_sat x) (ops_sat z)) (maxcheck (ops_dsat x) (ops_dsat z))
     (set_locks x z ext_init
       \<lparr>ext_s := ext_s x \<and> ext_s z,
        ext_f := ext_f x \<and> ext_f z,
        ext_e := ext_e x \<and> ext_f z \<or> ext_e z \<and> ext_f x,
        ext_m := ext_m x \<and> ext_m z \<and> (ext_s x \<or> ext_s z),
        ext_k := ext_k x \<and> ext_k z,
        script_size := 3 + script_size x + script_size z\<rparr>))"

definition ext_script2 ::
    "script2_tok \<Rightarrow> policy_node_ext_info \<Rightarrow> policy_node_ext_info \<Rightarrow> policy_node_ext_info" where
  "ext_script2 t = (case t of
      Tok_AND_V \<Rightarrow> ext_and_v | Tok_AND_B \<Rightarrow> ext_and_b | Tok_AND_N \<Rightarrow> ext_and_n
    | Tok_OR_B \<Rightarrow> ext_or_b | Tok_OR_C \<Rightarrow> ext_or_c | Tok_OR_D \<Rightarrow> ext_or_d | Tok_OR_I \<Rightarrow> ext_or_i)"

section \<open>Wrappers\<close>

text \<open>The fields that every wrapper copies from its child (\<open>s\<close>, \<open>m\<close>, timelocks).\<close>

definition ext_wrap :: "policy_node_ext_info \<Rightarrow> policy_node_ext_info" where
  "ext_wrap x =
     ext_init\<lparr>ext_s := ext_s x, ext_m := ext_m x, ext_g := ext_g x, ext_h := ext_h x,
       ext_i := ext_i x, ext_j := ext_j x, ext_k := ext_k x\<rparr>"

definition ext_a :: "policy_node_ext_info \<Rightarrow> policy_node_ext_info" where
  "ext_a x =
     set_ss (ss_sat x) (ss_dsat x) (set_ops (2 + ops_count x) (ops_sat x) (ops_dsat x)
       (ext_wrap x\<lparr>ext_f := ext_f x, ext_e := ext_e x, script_size := script_size x + 2\<rparr>))"

definition ext_s_n :: "bool \<Rightarrow> policy_node_ext_info \<Rightarrow> policy_node_ext_info" where
  "ext_s_n is_s x =
     set_ss (ss_sat x) (ss_dsat x) (set_ops (1 + ops_count x) (ops_sat x) (ops_dsat x)
       (ext_wrap x\<lparr>ext_f := ext_f x, ext_e := ext_e x,
          ext_x := if is_s then ext_x x else True, script_size := script_size x + 1\<rparr>))"

definition ext_c :: "policy_node_ext_info \<Rightarrow> policy_node_ext_info" where
  "ext_c x =
     set_ss (ss_sat x) (ss_dsat x) (set_ops (1 + ops_count x) (ops_sat x) (ops_dsat x)
       (ext_wrap x\<lparr>ext_s := True, ext_f := ext_f x, ext_e := ext_e x, ext_x := False,
          script_size := script_size x + 1\<rparr>))"

definition ext_d :: "policy_node_ext_info \<Rightarrow> policy_node_ext_info" where
  "ext_d x =
     set_ss (sumcheck 1 (ss_sat x)) 1 (set_ops (3 + ops_count x) (ops_sat x) 0
       (ext_wrap x\<lparr>ext_e := True, script_size := script_size x + 3\<rparr>))"

definition ext_t :: "policy_node_ext_info \<Rightarrow> policy_node_ext_info" where
  "ext_t x =
     set_ss (ss_sat x) (- 1) (set_ops (ops_count x) (ops_sat x) (- 1)
       (ext_wrap x\<lparr>ext_f := True, script_size := script_size x + 1\<rparr>))"

definition ext_v :: "policy_node_ext_info \<Rightarrow> policy_node_ext_info" where
  "ext_v x =
     set_ss (ss_sat x) (- 1)
     (set_ops (ops_count x + (if ext_x x then 1 else 0)) (ops_sat x) (- 1)
       (ext_wrap x\<lparr>ext_f := True, script_size := script_size x + (if ext_x x then 1 else 0)\<rparr>))"

definition ext_j_wrap :: "policy_node_ext_info \<Rightarrow> policy_node_ext_info" where
  "ext_j_wrap x =
     set_ss (ss_sat x) 1 (set_ops (4 + ops_count x) (ops_sat x) 0
       (ext_wrap x\<lparr>ext_e := ext_f x, script_size := script_size x + 4\<rparr>))"

definition ext_l_u :: "policy_node_ext_info \<Rightarrow> policy_node_ext_info" where
  "ext_l_u x =
     set_ss (sumcheck (ss_sat x) 1) (maxcheck 1 (sumcheck (ss_dsat x) 1))
     (set_ops (3 + ops_count x) (ops_sat x) (ops_dsat x)
       (ext_wrap x\<lparr>ext_f := False, ext_e := ext_f x, script_size := script_size x + 4\<rparr>))"

definition ext_wrapper :: "wrap_tok \<Rightarrow> policy_node_ext_info \<Rightarrow> policy_node_ext_info" where
  "ext_wrapper w = (case w of
      Tok_A \<Rightarrow> ext_a | Tok_S \<Rightarrow> ext_s_n True | Tok_N \<Rightarrow> ext_s_n False | Tok_C \<Rightarrow> ext_c
    | Tok_D \<Rightarrow> ext_d | Tok_T \<Rightarrow> ext_t | Tok_V \<Rightarrow> ext_v | Tok_J \<Rightarrow> ext_j_wrap | Tok_L \<Rightarrow> ext_l_u
    | Tok_U \<Rightarrow> ext_l_u)"

section \<open>thresh\<close>

abbreviation (input) MAX_N_IN_THRESH :: nat where "MAX_N_IN_THRESH \<equiv> 128"

text \<open>One round of the loops of \<open>compute_thresh_ops\<close> and \<open>compute_thresh_stacksize\<close>: \<open>sats\<close> are the
  first \<open>sats_size\<close> elements of the array.\<close>

definition next_sats :: "int \<Rightarrow> int \<Rightarrow> int list \<Rightarrow> int list" where
  "next_sats sat dsat sats =
     [sumcheck (sats ! 0) dsat]
     @ map (\<lambda>j. maxcheck (sumcheck (sats ! j) dsat) (sumcheck (sats ! (j - 1)) sat)) [1..<length sats]
     @ [sumcheck (sats ! (length sats - 1)) sat]"

primrec thresh_sats :: "(int \<times> int) list \<Rightarrow> int list \<Rightarrow> int list" where
  "thresh_sats [] sats = sats"
| "thresh_sats (c # cs) sats = thresh_sats cs (next_sats (fst c) (snd c) sats)"

text \<open>The whole array: zero after the first \<open>sats_size\<close> elements.\<close>

definition sats_array :: "int list \<Rightarrow> int list" where
  "sats_array sats = sats @ replicate (MAX_N_IN_THRESH + 1 + 1 - length sats) 0"

definition compute_thresh_ops :: "nat \<Rightarrow> policy_node_ext_info list \<Rightarrow> (u16 \<times> int \<times> int) option" where
  "compute_thresh_ops k ts =
     (if length ts > MAX_N_IN_THRESH then None
      else do {
        let sats = sats_array (thresh_sats (map (\<lambda>t. (ops_sat t, ops_dsat t)) ts) [0]);
        sat \<leftarrow> rd sats (word_of_nat k);
        Some (sum_list (map (\<lambda>t. ops_count t + 1) ts), sat, sats ! 0) })"

definition compute_thresh_stacksize :: "nat \<Rightarrow> policy_node_ext_info list \<Rightarrow> (int \<times> int) option" where
  "compute_thresh_stacksize k ts =
     (if length ts > MAX_N_IN_THRESH then None
      else do {
        let sats = sats_array (thresh_sats (map (\<lambda>t. (ss_sat t, ss_dsat t)) ts) [0]);
        sat \<leftarrow> rd sats (word_of_nat k);
        Some (sat, sats ! 0) })"

text \<open>The loop over the children in \<open>compute_miniscript_policy_ext_info\<close>, for the flags \<open>g\<close> to \<open>k\<close>:
  \<open>t\<close> is tested for a mix after its own flags have been added to \<open>out\<close>.\<close>

fun thresh_locks :: "nat \<Rightarrow> policy_node_ext_info list \<Rightarrow> policy_node_ext_info \<Rightarrow> policy_node_ext_info" where
  "thresh_locks k [] out = out"
| "thresh_locks k (t # ts) out =
     (let out = set_locks out t out;
          out = out\<lparr>ext_k := ext_k out \<and> ext_k t\<rparr>;
          out = (if k \<ge> 2 \<and> mixed_locks t out then out\<lparr>ext_k := False\<rparr> else out)
      in thresh_locks k ts out)"

definition ext_thresh :: "nat \<Rightarrow> policy_node_ext_info list \<Rightarrow> policy_node_ext_info option" where
  "ext_thresh k ts =
     do {
       let n = length ts;
       let count_s = length (filter ext_s ts);
       let count_e = length (filter ext_e ts);
       let count_not_s = n - count_s;
       let out = thresh_locks k ts ext_init;
       let children_scriptsize = sum_list (map (\<lambda>t. ucast (script_size t) :: size_t) ts);
       (count, osat, odsat) \<leftarrow> compute_thresh_ops k ts;
       (ssat, sdsat) \<leftarrow> compute_thresh_stacksize k ts;
       Some (set_ss ssat sdsat (set_ops count osat odsat
         (out\<lparr>ext_s := int count_not_s \<le> int k - 1, ext_e := count_s = n,
              ext_m := count_e = n \<and> count_not_s \<le> k, ext_x := False,
              script_size := ucast (children_scriptsize + word_of_nat n
                + get_push_script_size (word_of_nat k))\<rparr>))) }"

section \<open>The analysis\<close>

fun compute_miniscript_policy_ext_info ::
    "MiniscriptContext \<Rightarrow> policy_node \<Rightarrow> policy_node_ext_info option" where
  "compute_miniscript_policy_ext_info ctx (Constant t f) =
     (if f = None then None else Some (ext_constant t))"
| "compute_miniscript_policy_ext_info ctx (With_key t f k) = (if f = None then None else ext_key ctx t)"
| "compute_miniscript_policy_ext_info ctx (Multisig t f k ks) =
     (if f = None then None else ext_multi t k (length ks))"
| "compute_miniscript_policy_ext_info ctx (With_uint32 t f n) =
     (if f = None then None else Some (ext_uint32 t n))"
| "compute_miniscript_policy_ext_info ctx (With_hash256 t f h) =
     (if f = None then None else Some ext_hash256)"
| "compute_miniscript_policy_ext_info ctx (With_hash160 t f h) =
     (if f = None then None else Some ext_hash160)"
| "compute_miniscript_policy_ext_info ctx (With_script3 f nx ny nz) =
     (if f = None then None
      else do {
        x \<leftarrow> compute_miniscript_policy_ext_info ctx nx;
        y \<leftarrow> compute_miniscript_policy_ext_info ctx ny;
        z \<leftarrow> compute_miniscript_policy_ext_info ctx nz;
        Some (ext_andor x y z) })"
| "compute_miniscript_policy_ext_info ctx (With_script2 t f nx ny) =
     (if f = None then None
      else do {
        x \<leftarrow> compute_miniscript_policy_ext_info ctx nx;
        y \<leftarrow> compute_miniscript_policy_ext_info ctx ny;
        Some (ext_script2 t x y) })"
| "compute_miniscript_policy_ext_info ctx (Thresh f k xs) =
     (if f = None then None
      else do {
        ts \<leftarrow> those (map (compute_miniscript_policy_ext_info ctx) xs);
        ext_thresh k ts })"
| "compute_miniscript_policy_ext_info ctx (With_wrapper w f nx) =
     (if f = None then None
      else do { x \<leftarrow> compute_miniscript_policy_ext_info ctx nx; Some (ext_wrapper w x) })"
| "compute_miniscript_policy_ext_info ctx (With_sh t x) = None"
| "compute_miniscript_policy_ext_info ctx (Tr k t) = None"

end
