(* ===== verification/Policy_Keys.thy ===== *)
theory Policy_Keys
  imports Ext_Info
begin

text \<open>
  The key expressions of a policy and the checks on them, \<^verbatim>\<open>src/src/handler/lib/policy.c\<close>: finding a
  key expression by its index, counting the keys, the sanity of miniscripts and of key
  expressions, the BIP-44 purpose of standard policies and the recognition of the
  Babylon policies by name.  \<open>qsort\<close> is \<^const>\<open>sort\<close>.
\<close>

section \<open>get\_keyexpr\_by\_index\<close>

text \<open>The number of key expressions, with what is written to \<open>*out_keyexpr\<close> and
  \<open>*out_tapleaf_ptr\<close> (\<open>None\<close>: nothing).  A later call overwrites, and it is passed null pointers
  once the key expression has been found.\<close>

type_synonym found_keyexpr = "nat \<times> policy_node_keyexpr option \<times> policy_node option"

definition overwrite :: "'a option \<Rightarrow> 'a option \<Rightarrow> 'a option" where
  "overwrite old new = (case new of None \<Rightarrow> old | Some x \<Rightarrow> Some x)"

definition continue_search :: "nat \<Rightarrow> found_keyexpr \<Rightarrow> (nat \<Rightarrow> found_keyexpr) \<Rightarrow> found_keyexpr" where
  "continue_search i r f =
     (case r of (ret, k, leaf) \<Rightarrow>
        let found = i < ret; (ret', k', leaf') = f (if found then 0 else i - ret)
        in (ret + ret', if found then k else overwrite k k', if found then leaf else overwrite leaf leaf'))"

fun get_keyexpr_by_index :: "policy_node \<Rightarrow> nat \<Rightarrow> found_keyexpr"
  and get_keyexpr_by_index_in_tree :: "policy_node_tree \<Rightarrow> nat \<Rightarrow> found_keyexpr" where
  "get_keyexpr_by_index (Constant _ _) i = (0, None, None)"
| "get_keyexpr_by_index (With_uint32 _ _ _) i = (0, None, None)"
| "get_keyexpr_by_index (With_hash256 _ _ _) i = (0, None, None)"
| "get_keyexpr_by_index (With_hash160 _ _ _) i = (0, None, None)"
| "get_keyexpr_by_index (With_key _ _ k) i = (1, if i = 0 then Some k else None, None)"
| "get_keyexpr_by_index (Tr k None) i = (1, if i = 0 then Some k else None, None)"
| "get_keyexpr_by_index (Tr k (Some t)) i =
     (case get_keyexpr_by_index_in_tree t (if i = 0 then 0 else i - 1) of (ret_tree, k', leaf) \<Rightarrow>
        (1 + ret_tree, if i = 0 then Some k else k', if i = 0 then None else leaf))"
| "get_keyexpr_by_index (Multisig _ _ _ ks) i =
     (length ks, if i < length ks then Some (ks ! i) else None, None)"
| "get_keyexpr_by_index (With_sh _ x) i = get_keyexpr_by_index x i"
| "get_keyexpr_by_index (With_wrapper _ _ x) i = get_keyexpr_by_index x i"
| "get_keyexpr_by_index (With_script2 _ _ x y) i =
     continue_search i (get_keyexpr_by_index x i) (get_keyexpr_by_index y)"
| "get_keyexpr_by_index (With_script3 _ x y z) i =
     continue_search i (continue_search i (get_keyexpr_by_index x i) (get_keyexpr_by_index y))
       (get_keyexpr_by_index z)"
| "get_keyexpr_by_index (Thresh _ _ xs) i =
     foldl (\<lambda>r f. continue_search i r f) (0, None, None) (map get_keyexpr_by_index xs)"
| "get_keyexpr_by_index_in_tree (Tree_leaf x) i =
     (case get_keyexpr_by_index x i of (ret, k, _) \<Rightarrow> (ret, k, if i < ret then Some x else None))"
| "get_keyexpr_by_index_in_tree (Tree_node l r) i =
     continue_search i (get_keyexpr_by_index_in_tree l i) (get_keyexpr_by_index_in_tree r)"

section \<open>count\_distinct\_keys\_info\<close>

fun keyexpr_max :: "int \<Rightarrow> policy_node_keyexpr \<Rightarrow> int" where
  "keyexpr_max ret k = (case key_kind k of
      KEY_EXPRESSION_NORMAL i \<Rightarrow> max ret (int i + 1)
    | KEY_EXPRESSION_MUSIG is \<Rightarrow> foldl (\<lambda>ret i. max ret (int i + 1)) ret is)"

text \<open>The loop over the indices from \<open>cur\<close>, with the number of iterations left; \<open>None\<close> would be a
  key expression that is not found.\<close>

fun count_keys_loop :: "policy_node \<Rightarrow> nat \<Rightarrow> nat \<Rightarrow> int \<Rightarrow> int option" where
  "count_keys_loop policy 0 cur ret = Some ret"
| "count_keys_loop policy (Suc n) cur ret =
     (case get_keyexpr_by_index policy cur of
        (_, None, _) \<Rightarrow> None
      | (_, Some k, _) \<Rightarrow> count_keys_loop policy n (Suc cur) (keyexpr_max ret k))"

definition count_distinct_keys_info :: "policy_node \<Rightarrow> int option" where
  "count_distinct_keys_info policy = count_keys_loop policy (fst (get_keyexpr_by_index policy 0)) 0 (- 1)"

section \<open>Sanity of miniscripts\<close>

abbreviation (input) MAX_STANDARD_P2WSH_STACK_ITEMS :: u32 where "MAX_STANDARD_P2WSH_STACK_ITEMS \<equiv> 100"
abbreviation (input) MAX_STANDARD_P2WSH_SCRIPT_SIZE :: u32 where "MAX_STANDARD_P2WSH_SCRIPT_SIZE \<equiv> 3600"
abbreviation (input) MAX_OPS_PER_SCRIPT :: u32 where "MAX_OPS_PER_SCRIPT \<equiv> 201"

definition is_miniscript_sane :: "policy_node \<Rightarrow> MiniscriptContext \<Rightarrow> bool" where
  "is_miniscript_sane script ctx = (case node_flags script of
      None \<Rightarrow> False
    | Some f \<Rightarrow>
        if miniscript_type f \<noteq> MINISCRIPT_TYPE_B then False
        else (case compute_miniscript_policy_ext_info ctx script of
            None \<Rightarrow> False
          | Some t \<Rightarrow>
              if \<not> ext_m t then False
              else if \<not> ext_s t then False
              else if \<not> ext_k t then False
              else if ss_sat t = - 1 \<or> word_of_int (ss_sat t) > MAX_STANDARD_P2WSH_STACK_ITEMS then False
              else if ops_sat t = - 1 then False
              else if ucast (ops_count t) + word_of_int (ops_sat t) > MAX_OPS_PER_SCRIPT then False
              else ucast (script_size t) \<le> MAX_STANDARD_P2WSH_SCRIPT_SIZE))"

fun is_taptree_miniscript_sane :: "policy_node_tree \<Rightarrow> bool" where
  "is_taptree_miniscript_sane (Tree_leaf script) =
     (node_flags script \<noteq> None \<longrightarrow> is_miniscript_sane script MINISCRIPT_CONTEXT_TAPSCRIPT)"
| "is_taptree_miniscript_sane (Tree_node l r) =
     (if \<not> is_taptree_miniscript_sane l then False else is_taptree_miniscript_sane r)"

text \<open>The first part of \<open>is_policy_sane\<close>.\<close>

definition policy_miniscripts_sane :: "policy_node \<Rightarrow> bool" where
  "policy_miniscripts_sane policy = (case policy of
      With_sh Tok_WSH inner \<Rightarrow>
        (node_flags inner \<noteq> None \<longrightarrow> is_miniscript_sane inner MINISCRIPT_CONTEXT_P2WSH)
    | Tr _ (Some taptree) \<Rightarrow> is_taptree_miniscript_sane taptree
    | _ \<Rightarrow> True)"

section \<open>Sanity of key expressions\<close>

definition are_key_placeholders_identical :: "policy_node_keyexpr \<Rightarrow> policy_node_keyexpr \<Rightarrow> bool" where
  "are_key_placeholders_identical kp1 kp2 = (case (key_kind kp1, key_kind kp2) of
      (KEY_EXPRESSION_NORMAL i, KEY_EXPRESSION_NORMAL j) \<Rightarrow> i = j
    | (KEY_EXPRESSION_MUSIG is, KEY_EXPRESSION_MUSIG js) \<Rightarrow>
        if length is \<noteq> length js then False else sort is = sort js
    | _ \<Rightarrow> False)"

fun adjacent_repeated :: "nat list \<Rightarrow> bool" where
  "adjacent_repeated (x # y # xs) = (if x = y then True else adjacent_repeated (y # xs))"
| "adjacent_repeated _ = False"

definition musig_keys_distinct :: "policy_node_keyexpr \<Rightarrow> bool" where
  "musig_keys_distinct kp = (case key_kind kp of
      KEY_EXPRESSION_NORMAL _ \<Rightarrow> True
    | KEY_EXPRESSION_MUSIG is \<Rightarrow> \<not> adjacent_repeated (sort is))"

text \<open>The comparison of \<open>k.key_index\<close> that follows in the code holds whenever the placeholders are
  identical: for two \<open>musig\<close> expressions that field overlays the offset of \<open>musig_info\<close> relative to
  its expression, which is the same in both.\<close>

definition derivations_overlap :: "policy_node_keyexpr \<Rightarrow> policy_node_keyexpr \<Rightarrow> bool" where
  "derivations_overlap kp_i kp_j \<longleftrightarrow>
     num_first kp_i = num_first kp_j \<or> num_first kp_i = num_second kp_j
     \<or> num_second kp_i = num_first kp_j \<or> num_second kp_i = num_second kp_j"

fun musig_loop :: "policy_node \<Rightarrow> nat \<Rightarrow> nat \<Rightarrow> bool" where
  "musig_loop policy 0 i = True"
| "musig_loop policy (Suc n) i =
     (case get_keyexpr_by_index policy i of
        (_, None, _) \<Rightarrow> False
      | (_, Some kp, _) \<Rightarrow> if musig_keys_distinct kp then musig_loop policy n (Suc i) else False)"

fun overlap_inner_loop :: "policy_node \<Rightarrow> policy_node_keyexpr \<Rightarrow> nat \<Rightarrow> nat \<Rightarrow> bool" where
  "overlap_inner_loop policy kp_i 0 j = True"
| "overlap_inner_loop policy kp_i (Suc n) j =
     (case get_keyexpr_by_index policy j of
        (_, None, _) \<Rightarrow> False
      | (_, Some kp_j, _) \<Rightarrow>
          if are_key_placeholders_identical kp_i kp_j \<and> derivations_overlap kp_i kp_j then False
          else overlap_inner_loop policy kp_i n (Suc j))"

text \<open>\<open>n\<close> is the number of key expressions from index \<open>i\<close> on.\<close>

fun overlap_loop :: "policy_node \<Rightarrow> nat \<Rightarrow> nat \<Rightarrow> bool" where
  "overlap_loop policy (Suc (Suc n)) i =
     (case get_keyexpr_by_index policy i of
        (_, None, _) \<Rightarrow> False
      | (_, Some kp_i, _) \<Rightarrow>
          if overlap_inner_loop policy kp_i (Suc n) (Suc i) then overlap_loop policy (Suc n) (Suc i) else False)"
| "overlap_loop policy _ i = True"

text \<open>The last part of \<open>is_policy_sane\<close>.\<close>

definition policy_keyexprs_sane :: "policy_node \<Rightarrow> bool" where
  "policy_keyexprs_sane policy =
     (let n = fst (get_keyexpr_by_index policy 0)
      in if musig_loop policy n 0 then overlap_loop policy n 0 else False)"

section \<open>Finding a key expression\<close>

definition nth_opt :: "'a list \<Rightarrow> nat \<Rightarrow> 'a option" where
  "nth_opt xs i = (if i < length xs then Some (xs ! i) else None)"

text \<open>For every key expression, the leaf of the taptree that contains it.\<close>

fun node_leaves :: "policy_node \<Rightarrow> policy_node option list"
  and tree_leaves :: "policy_node_tree \<Rightarrow> policy_node option list" where
  "node_leaves (Tr k (Some t)) = None # tree_leaves t"
| "node_leaves (With_sh _ x) = node_leaves x"
| "node_leaves (With_wrapper _ _ x) = node_leaves x"
| "node_leaves (With_script2 _ _ x y) = node_leaves x @ node_leaves y"
| "node_leaves (With_script3 _ x y z) = node_leaves x @ node_leaves y @ node_leaves z"
| "node_leaves (Thresh _ _ xs) = concat (map node_leaves xs)"
| "node_leaves x = map (\<lambda>_. None) (node_keyexprs x)"
| "tree_leaves (Tree_leaf x) = map (\<lambda>_. Some x) (node_keyexprs x)"
| "tree_leaves (Tree_node l r) = tree_leaves l @ tree_leaves r"

definition search_result :: "policy_node_keyexpr list \<Rightarrow> policy_node option list \<Rightarrow> nat \<Rightarrow> found_keyexpr" where
  "search_result ks ls i = (length ks, nth_opt ks i, Option.bind (nth_opt ls i) id)"

lemma continue_search_result:
  assumes "length ks = length ls" and "\<And>j. f j = search_result ks' ls' j"
  shows "continue_search i (search_result ks ls i) f = search_result (ks @ ks') (ls @ ls') i"
  using assms by (auto simp: continue_search_def search_result_def nth_opt_def overwrite_def nth_append Let_def
      split: option.splits)

lemma thresh_search_result:
  assumes "\<And>x i. x \<in> set xs \<Longrightarrow> get_keyexpr_by_index x i = search_result (node_keyexprs x) (node_leaves x) i"
    and "\<And>x. x \<in> set xs \<Longrightarrow> length (node_keyexprs x) = length (node_leaves x)" and "length ks = length ls"
  shows "foldl (\<lambda>r f. continue_search i r f) (search_result ks ls i) (map get_keyexpr_by_index xs) =
    search_result (ks @ concat (map node_keyexprs xs)) (ls @ concat (map node_leaves xs)) i"
  using assms
proof (induction xs arbitrary: ks ls)
  case (Cons x xs)
  then have "continue_search i (search_result ks ls i) (get_keyexpr_by_index x) =
      search_result (ks @ node_keyexprs x) (ls @ node_leaves x) i"
    by (intro continue_search_result) auto
  with Cons show ?case
    by simp
qed simp

lemma length_leaves:
  "length (node_keyexprs x) = length (node_leaves x)"
  "length (tree_keyexprs t) = length (tree_leaves t)"
proof (induction x and t rule: node_leaves_tree_leaves.induct)
  case (6 uu uv xs)
  then show ?case
    by (induction xs) auto
qed auto

lemma get_keyexpr_by_index_result:
  "get_keyexpr_by_index x i = search_result (node_keyexprs x) (node_leaves x) i"
  "get_keyexpr_by_index_in_tree t i = search_result (tree_keyexprs t) (tree_leaves t) i"
proof (induction x i and t i rule: get_keyexpr_by_index_get_keyexpr_by_index_in_tree.induct)
  case (13 uu uv xs i)
  then show ?case
    using thresh_search_result [of xs "[]" "[]" i] length_leaves(1)
    by (simp add: search_result_def nth_opt_def)
next
  case (11 uu uv x y i)
  then show ?case
    by (simp add: continue_search_result length_leaves)
next
  case (12 uu x y z i)
  then show ?case
    by (simp add: continue_search_result length_leaves)
next
  case (15 l r i)
  then show ?case
    by (simp add: continue_search_result length_leaves)
qed (auto simp: search_result_def nth_opt_def nth_Cons' split: prod.splits)

section \<open>The sanity checks\<close>

definition key_indices :: "policy_node_keyexpr \<Rightarrow> nat list" where
  "key_indices k = (case key_kind k of KEY_EXPRESSION_NORMAL i \<Rightarrow> [i] | KEY_EXPRESSION_MUSIG is \<Rightarrow> is)"

lemma keyexpr_max_foldl:
  "keyexpr_max ret k = foldl (\<lambda>ret i. max ret (int i + 1)) ret (key_indices k)"
  by (simp add: key_indices_def split: key_kind.splits)

lemma get_keyexpr_found:
  "get_keyexpr_by_index x i = (length (node_keyexprs x), nth_opt (node_keyexprs x) i, Option.bind (nth_opt (node_leaves x) i) id)"
  by (simp add: get_keyexpr_by_index_result search_result_def)

lemma drop_nth_Cons: "i < length xs \<Longrightarrow> drop i xs = xs ! i # drop (Suc i) xs"
  by (rule Cons_nth_drop_Suc [symmetric])

lemma count_keys_loop_eq:
  "i + n = length (node_keyexprs x) \<Longrightarrow>
   count_keys_loop x n i ret = Some (foldl keyexpr_max ret (drop i (node_keyexprs x)))"
  by (induction n arbitrary: i ret) (auto simp: get_keyexpr_found nth_opt_def drop_nth_Cons)

lemma foldl_max_Max:
  "foldl (\<lambda>ret i. max ret (int i + 1)) a is = (if is = [] then a else max a (int (Max (set is)) + 1))"
proof (induction "is" arbitrary: a)
  case (Cons i "is")
  then show ?case
    by (cases "is = []") (auto simp: max_def)
qed simp

lemma foldl_keyexpr_max:
  "foldl keyexpr_max a ks = foldl (\<lambda>ret i. max ret (int i + 1)) a (concat (map key_indices ks))"
  by (induction ks arbitrary: a) (simp_all add: keyexpr_max_foldl del: keyexpr_max.simps)

lemma adjacent_repeated_sorted:
  "sorted xs \<Longrightarrow> adjacent_repeated xs \<longleftrightarrow> \<not> distinct xs"
  by (induction xs rule: adjacent_repeated.induct) (auto dest: order.antisym)

lemma musig_keys_distinct_iff:
  "musig_keys_distinct k \<longleftrightarrow> distinct (key_indices k)"
  by (simp add: musig_keys_distinct_def key_indices_def adjacent_repeated_sorted split: key_kind.splits)

definition is_musig :: "policy_node_keyexpr \<Rightarrow> bool" where
  "is_musig k = (case key_kind k of KEY_EXPRESSION_MUSIG _ \<Rightarrow> True | _ \<Rightarrow> False)"

text \<open>Two key expressions over the same set of keys with a derivation step in common.\<close>

definition keyexprs_clash :: "policy_node_keyexpr \<Rightarrow> policy_node_keyexpr \<Rightarrow> bool" where
  "keyexprs_clash k k' \<longleftrightarrow> is_musig k = is_musig k' \<and> set (key_indices k) = set (key_indices k')
     \<and> {num_first k, num_second k} \<inter> {num_first k', num_second k'} \<noteq> {}"

lemma sort_eq_iff_set:
  "distinct xs \<Longrightarrow> distinct ys \<Longrightarrow> sort xs = sort ys \<longleftrightarrow> set xs = set ys"
  by (metis distinct_sort set_sort sorted_distinct_set_unique sorted_sort)

lemma are_key_placeholders_identical_iff:
  assumes "distinct (key_indices k)" "distinct (key_indices k')"
  shows "are_key_placeholders_identical k k' \<longleftrightarrow>
    is_musig k = is_musig k' \<and> set (key_indices k) = set (key_indices k')"
  using assms sort_eq_iff_set [of "key_indices k" "key_indices k'"] distinct_card [of "key_indices k"]
    distinct_card [of "key_indices k'"]
  by (auto simp: are_key_placeholders_identical_def is_musig_def key_indices_def split: key_kind.splits)

lemma clash_iff:
  assumes "distinct (key_indices k)" "distinct (key_indices k')"
  shows "are_key_placeholders_identical k k' \<and> derivations_overlap k k' \<longleftrightarrow> keyexprs_clash k k'"
  using are_key_placeholders_identical_iff [OF assms]
  by (auto simp: derivations_overlap_def keyexprs_clash_def)

lemma musig_loop_iff:
  "i + n = length (node_keyexprs x) \<Longrightarrow>
   musig_loop x n i \<longleftrightarrow> (\<forall>k \<in> set (drop i (node_keyexprs x)). distinct (key_indices k))"
  by (induction n arbitrary: i)
    (auto simp: get_keyexpr_found nth_opt_def drop_nth_Cons musig_keys_distinct_iff)

lemma overlap_inner_loop_iff:
  "j + n = length (node_keyexprs x) \<Longrightarrow>
   overlap_inner_loop x k n j \<longleftrightarrow>
     (\<forall>k' \<in> set (drop j (node_keyexprs x)). \<not> (are_key_placeholders_identical k k' \<and> derivations_overlap k k'))"
  by (induction n arbitrary: j) (auto simp: get_keyexpr_found nth_opt_def drop_nth_Cons)

lemma overlap_loop_iff:
  "i + n = length (node_keyexprs x) \<Longrightarrow>
   overlap_loop x n i \<longleftrightarrow>
     sorted_wrt (\<lambda>k k'. \<not> (are_key_placeholders_identical k k' \<and> derivations_overlap k k'))
       (drop i (node_keyexprs x))"
proof (induction x n i rule: overlap_loop.induct)
  case (1 x n i)
  then show ?case
    by (simp add: get_keyexpr_found nth_opt_def drop_nth_Cons [of i] overlap_inner_loop_iff
        del: overlap_inner_loop.simps)
qed (simp_all add: drop_nth_Cons)

section \<open>Properties\<close>

text \<open>C28: \<open>get_keyexpr_by_index\<close> enumerates the key expressions of a policy in the order in which they are
  written: it returns their number and, for every index below it, the key expression with that
  index and the leaf of the taptree that contains it, if any; for other indices it finds nothing.\<close>

theorem get_keyexpr_by_index_enumerates:
  "get_keyexpr_by_index x i =
     (length (node_keyexprs x),
      if i < length (node_keyexprs x) then Some (node_keyexprs x ! i) else None,
      if i < length (node_keyexprs x) then node_leaves x ! i else None)"
  by (simp add: get_keyexpr_found nth_opt_def length_leaves)

text \<open>C29: \<open>count_distinct_keys_info\<close> always succeeds on a policy with keys, and returns one more than the
  largest key index in it, including the indices inside of \<open>musig\<close> expressions.\<close>

theorem count_distinct_keys_info_max:
  "count_distinct_keys_info x =
     (let is = concat (map key_indices (node_keyexprs x))
      in Some (if is = [] then - 1 else int (Max (set is)) + 1))"
  using count_keys_loop_eq [of 0 "length (node_keyexprs x)" x "-1"]
  by (auto simp: count_distinct_keys_info_def get_keyexpr_found foldl_keyexpr_max foldl_max_Max Let_def
      simp del: keyexpr_max.simps)

text \<open>C27: The checks on key expressions accept a policy exactly if no \<open>musig\<close> expression repeats a key and
  any two key expressions over the same set of keys have disjoint derivations, so that no two
  expressions of a wallet derive the same public key.\<close>

theorem policy_keyexprs_sane_iff:
  "policy_keyexprs_sane x \<longleftrightarrow>
     (\<forall>k \<in> set (node_keyexprs x). distinct (key_indices k))
     \<and> sorted_wrt (\<lambda>k k'. \<not> keyexprs_clash k k') (node_keyexprs x)"
proof (cases "\<forall>k \<in> set (node_keyexprs x). distinct (key_indices k)")
  case True
  then have "sorted_wrt (\<lambda>k k'. \<not> (are_key_placeholders_identical k k' \<and> derivations_overlap k k'))
      (node_keyexprs x) \<longleftrightarrow> sorted_wrt (\<lambda>k k'. \<not> keyexprs_clash k k') (node_keyexprs x)"
    by (intro iffI; elim sorted_wrt_mono_rel [rotated]) (simp_all add: clash_iff)
  with True show ?thesis
    by (simp add: policy_keyexprs_sane_def get_keyexpr_found Let_def musig_loop_iff overlap_loop_iff)
qed (auto simp: policy_keyexprs_sane_def get_keyexpr_found Let_def musig_loop_iff)

definition clashing_policy :: policy_node where
  "clashing_policy = With_script2 Tok_AND_V None
     (With_key Tok_PK None \<lparr>num_first = 0, num_second = 1, key_kind = KEY_EXPRESSION_MUSIG [2, 1], keyexpr_index = 0\<rparr>)
     (With_key Tok_PK None \<lparr>num_first = 3, num_second = 0, key_kind = KEY_EXPRESSION_MUSIG [1, 2], keyexpr_index = 1\<rparr>)"

theorem policy_keyexprs_sane_iff_witness:
  "\<not> policy_keyexprs_sane clashing_policy
     \<and> list_all (\<lambda>k. distinct (key_indices k)) (node_keyexprs clashing_policy)"
proof -
  have "list_all (\<lambda>k. distinct (key_indices k)) (node_keyexprs clashing_policy)"
    and "\<not> sorted_wrt (\<lambda>k k'. \<not> keyexprs_clash k k') (node_keyexprs clashing_policy)"
    by code_simp+
  then show ?thesis
    using policy_keyexprs_sane_iff [of clashing_policy] by blast
qed

end
