(* ===== verification/Buffer.thy ===== *)
theory Buffer
  imports Bytes
begin

text \<open>
  The bounds-checked cursor over a byte array of \<^verbatim>\<open>src/src/common/buffer.h\<close> and
  \<^verbatim>\<open>src/src/common/buffer.c\<close>.  \<open>buf_ptr\<close> is the address of the array (only its alignment
  matters, for \<open>buffer_alloc\<close>), \<open>buf_mem\<close> the bytes found there, \<open>buf_size\<close> and \<open>buf_offset\<close> the
  two \<open>size_t\<close> fields.  An operation that answers \<open>false\<close> is \<open>None\<close>; the value it zeroes in that
  case is not observable by any caller.  The invariant \<open>buffer_ok\<close> says that the cursor is inside
  of the array, and \<open>buf_rest\<close> is the list of bytes still to be read.
\<close>

section \<open>buffer.h\<close>

datatype endianness_t = BE | LE

record buffer_t =
  buf_ptr :: u32
  buf_mem :: bytes
  buf_size :: size_t
  buf_offset :: size_t

definition buffer_create :: "u32 \<Rightarrow> bytes \<Rightarrow> size_t \<Rightarrow> buffer_t" where
  "buffer_create p m n = \<lparr>buf_ptr = p, buf_mem = m, buf_size = n, buf_offset = 0\<rparr>"

text \<open>The bytes at \<open>buffer->ptr + buffer->offset\<close>.\<close>

definition buffer_get_cur :: "buffer_t \<Rightarrow> bytes" where
  "buffer_get_cur b = drop (unat (buf_offset b)) (buf_mem b)"

definition buffer_is_cur_aligned :: "buffer_t \<Rightarrow> bool" where
  "buffer_is_cur_aligned b = ((buf_ptr b + buf_offset b) mod 4 = 0)"

definition buffer_snapshot :: "buffer_t \<Rightarrow> size_t" where
  "buffer_snapshot b = buf_offset b"

definition buffer_restore :: "buffer_t \<Rightarrow> size_t \<Rightarrow> buffer_t" where
  "buffer_restore b snapshot = b\<lparr>buf_offset := snapshot\<rparr>"

section \<open>buffer.c\<close>

definition buffer_can_read :: "buffer_t \<Rightarrow> size_t \<Rightarrow> bool" where
  "buffer_can_read b n = (buf_size b - buf_offset b \<ge> n)"

definition buffer_seek_set :: "buffer_t \<Rightarrow> size_t \<Rightarrow> buffer_t option" where
  "buffer_seek_set b offset =
     (if offset > buf_size b then None else Some (b\<lparr>buf_offset := offset\<rparr>))"

definition buffer_seek_cur :: "buffer_t \<Rightarrow> size_t \<Rightarrow> buffer_t option" where
  "buffer_seek_cur b offset =
     (if buf_offset b + offset < buf_offset b \<or> buf_offset b + offset > buf_size b then None
      else Some (b\<lparr>buf_offset := buf_offset b + offset\<rparr>))"

definition buffer_seek_end :: "buffer_t \<Rightarrow> size_t \<Rightarrow> buffer_t option" where
  "buffer_seek_end b offset =
     (if offset > buf_size b then None else Some (b\<lparr>buf_offset := buf_size b - offset\<rparr>))"

text \<open>The readers ignore the result of \<open>buffer_seek_cur\<close>: the cursor stays where it is when the
  seek is refused.\<close>

definition advance :: "buffer_t \<Rightarrow> size_t \<Rightarrow> buffer_t" where
  "advance b n = (case buffer_seek_cur b n of None \<Rightarrow> b | Some b' \<Rightarrow> b')"

definition buffer_read_u8 :: "buffer_t \<Rightarrow> (u8 \<times> buffer_t) option" where
  "buffer_read_u8 b =
     (if \<not> buffer_can_read b 1 then None
      else do { v \<leftarrow> rd (buf_mem b) (buf_offset b); Some (v, advance b 1) })"

definition buffer_peek_n :: "buffer_t \<Rightarrow> size_t \<Rightarrow> u8 option" where
  "buffer_peek_n b n =
     (if \<not> buffer_can_read b (n + 1) then None else rd (buf_mem b) (buf_offset b + n))"

definition buffer_peek :: "buffer_t \<Rightarrow> u8 option" where
  "buffer_peek b = buffer_peek_n b 0"

definition buffer_read_u16 :: "buffer_t \<Rightarrow> endianness_t \<Rightarrow> (u16 \<times> buffer_t) option" where
  "buffer_read_u16 b e =
     (if \<not> buffer_can_read b 2 then None
      else do {
        v \<leftarrow> (if e = BE then read_u16_be (buf_mem b) (buf_offset b)
              else read_u16_le (buf_mem b) (buf_offset b));
        Some (v, advance b 2) })"

definition buffer_read_u32 :: "buffer_t \<Rightarrow> endianness_t \<Rightarrow> (u32 \<times> buffer_t) option" where
  "buffer_read_u32 b e =
     (if \<not> buffer_can_read b 4 then None
      else do {
        v \<leftarrow> (if e = BE then read_u32_be (buf_mem b) (buf_offset b)
              else read_u32_le (buf_mem b) (buf_offset b));
        Some (v, advance b 4) })"

definition buffer_read_u64 :: "buffer_t \<Rightarrow> endianness_t \<Rightarrow> (u64 \<times> buffer_t) option" where
  "buffer_read_u64 b e =
     (if \<not> buffer_can_read b 8 then None
      else do {
        v \<leftarrow> (if e = BE then read_u64_be (buf_mem b) (buf_offset b)
              else read_u64_le (buf_mem b) (buf_offset b));
        Some (v, advance b 8) })"

definition buffer_read_varint :: "buffer_t \<Rightarrow> (u64 \<times> buffer_t) option" where
  "buffer_read_varint b =
     do { (len, v) \<leftarrow> varint_read (buffer_get_cur b) (buf_size b - buf_offset b);
          Some (v, advance b (word_of_nat len)) }"

text \<open>\<open>memmove(out, p, n)\<close> and \<open>memmove(p, data, n)\<close>: \<open>n\<close> bytes are copied, or the access is
  outside of the object.\<close>

definition mem_read :: "bytes \<Rightarrow> size_t \<Rightarrow> size_t \<Rightarrow> bytes option" where
  "mem_read m offset n =
     (if unat offset + unat n \<le> length m then Some (take (unat n) (drop (unat offset) m)) else None)"

definition mem_write :: "bytes \<Rightarrow> size_t \<Rightarrow> bytes \<Rightarrow> bytes option" where
  "mem_write m offset data =
     (if unat offset + length data \<le> length m
      then Some (take (unat offset) m @ data @ drop (unat offset + length data) m) else None)"

definition buffer_read_bytes :: "buffer_t \<Rightarrow> size_t \<Rightarrow> (bytes \<times> buffer_t) option" where
  "buffer_read_bytes b n =
     (if buf_size b - buf_offset b < n then None
      else do { out \<leftarrow> mem_read (buf_mem b) (buf_offset b) n; Some (out, advance b n) })"

definition buffer_write_u8 :: "buffer_t \<Rightarrow> u8 \<Rightarrow> buffer_t option" where
  "buffer_write_u8 b v =
     (if \<not> buffer_can_read b 1 then None
      else do { m \<leftarrow> wr (buf_mem b) (buf_offset b) v; Some (advance (b\<lparr>buf_mem := m\<rparr>) 1) })"

definition buffer_write_u16 :: "buffer_t \<Rightarrow> u16 \<Rightarrow> endianness_t \<Rightarrow> buffer_t option" where
  "buffer_write_u16 b v e =
     (if \<not> buffer_can_read b 2 then None
      else do {
        m \<leftarrow> (if e = BE then write_u16_be (buf_mem b) (buf_offset b) v
              else write_u16_le (buf_mem b) (buf_offset b) v);
        Some (advance (b\<lparr>buf_mem := m\<rparr>) 2) })"

definition buffer_write_u32 :: "buffer_t \<Rightarrow> u32 \<Rightarrow> endianness_t \<Rightarrow> buffer_t option" where
  "buffer_write_u32 b v e =
     (if \<not> buffer_can_read b 4 then None
      else do {
        m \<leftarrow> (if e = BE then write_u32_be (buf_mem b) (buf_offset b) v
              else write_u32_le (buf_mem b) (buf_offset b) v);
        Some (advance (b\<lparr>buf_mem := m\<rparr>) 4) })"

definition buffer_write_u64 :: "buffer_t \<Rightarrow> u64 \<Rightarrow> endianness_t \<Rightarrow> buffer_t option" where
  "buffer_write_u64 b v e =
     (if \<not> buffer_can_read b 8 then None
      else do {
        m \<leftarrow> (if e = BE then write_u64_be (buf_mem b) (buf_offset b) v
              else write_u64_le (buf_mem b) (buf_offset b) v);
        Some (advance (b\<lparr>buf_mem := m\<rparr>) 8) })"

definition buffer_write_bytes :: "buffer_t \<Rightarrow> bytes \<Rightarrow> buffer_t option" where
  "buffer_write_bytes b data =
     (if \<not> buffer_can_read b (word_of_nat (length data)) then None
      else do {
        m \<leftarrow> mem_write (buf_mem b) (buf_offset b) data;
        Some (advance (b\<lparr>buf_mem := m\<rparr>) (word_of_nat (length data))) })"

text \<open>\<open>buffer_alloc\<close> answers the offset of the allocated block (the C code answers its address)
  with the advanced buffer.\<close>

definition alloc_padding :: "buffer_t \<Rightarrow> bool \<Rightarrow> size_t" where
  "alloc_padding b aligned =
     (if aligned then
        (let d = (buf_ptr b + buf_offset b) mod 4 in if d \<noteq> 0 then 4 - d else 0)
      else 0)"

definition buffer_alloc :: "buffer_t \<Rightarrow> size_t \<Rightarrow> bool \<Rightarrow> (size_t \<times> buffer_t) option" where
  "buffer_alloc b n aligned =
     (let padding = alloc_padding b aligned in
      if \<not> buffer_can_read b (padding + n) then None
      else Some (buf_offset b + padding, advance b (padding + n)))"

section \<open>The cursor stays inside of the array\<close>

definition buffer_ok :: "buffer_t \<Rightarrow> bool" where
  "buffer_ok b \<longleftrightarrow> unat (buf_offset b) \<le> unat (buf_size b) \<and> unat (buf_size b) \<le> length (buf_mem b)"

definition buf_rest :: "buffer_t \<Rightarrow> bytes" where
  "buf_rest b = take (unat (buf_size b) - unat (buf_offset b)) (drop (unat (buf_offset b)) (buf_mem b))"

text \<open>Buffers that differ in the cursor only.\<close>

definition same_array :: "buffer_t \<Rightarrow> buffer_t \<Rightarrow> bool" where
  "same_array b b' \<longleftrightarrow> buf_ptr b' = buf_ptr b \<and> buf_mem b' = buf_mem b \<and> buf_size b' = buf_size b"

lemma same_array_refl [simp]: "same_array b b"
  by (simp add: same_array_def)

lemma same_array_trans: "same_array a b \<Longrightarrow> same_array b c \<Longrightarrow> same_array a c"
  by (simp add: same_array_def)

lemma unat_remaining:
  "buffer_ok b \<Longrightarrow> unat (buf_size b - buf_offset b) = unat (buf_size b) - unat (buf_offset b)"
  by (simp add: buffer_ok_def unat_sub word_le_nat_alt)

lemma length_buf_rest:
  "buffer_ok b \<Longrightarrow> length (buf_rest b) = unat (buf_size b) - unat (buf_offset b)"
  by (auto simp: buffer_ok_def buf_rest_def)

lemma buffer_can_read_iff:
  "buffer_ok b \<Longrightarrow> buffer_can_read b n \<longleftrightarrow> unat n \<le> length (buf_rest b)"
  by (simp add: buffer_can_read_def word_le_nat_alt unat_remaining length_buf_rest)

lemma advance_ok:
  assumes "buffer_ok b" and "unat n \<le> length (buf_rest b)"
  shows "advance b n = b\<lparr>buf_offset := buf_offset b + n\<rparr>"
    and "unat (buf_offset b + n) = unat (buf_offset b) + unat n"
    and "buffer_ok (advance b n)"
    and "buf_rest (advance b n) = drop (unat n) (buf_rest b)"
    and "same_array b (advance b n)"
proof -
  have le: "unat (buf_offset b) + unat n \<le> unat (buf_size b)"
    using assms by (auto simp: length_buf_rest buffer_ok_def)
  show off: "unat (buf_offset b + n) = unat (buf_offset b) + unat n"
    by (rule unat_add_lem_le) (use le unat_u32_bound [of "buf_size b"] in simp)
  show adv: "advance b n = b\<lparr>buf_offset := buf_offset b + n\<rparr>"
    using le off
    by (simp add: advance_def buffer_seek_cur_def word_less_nat_alt)
  show "buffer_ok (advance b n)"
    using assms(1) le off by (simp add: adv buffer_ok_def)
  show "buf_rest (advance b n) = drop (unat n) (buf_rest b)"
    by (simp add: adv off buf_rest_def drop_take_drop diff_diff_left)
  show "same_array b (advance b n)"
    by (simp add: adv same_array_def)
qed

lemma rd_buf_rest:
  assumes "buffer_ok b" and "unat i < length (buf_rest b)"
  shows "rd (buf_mem b) (buf_offset b + i) = Some (buf_rest b ! unat i)"
proof -
  have "unat (buf_offset b) + unat i < unat (buf_size b)"
    using assms by (simp add: length_buf_rest)
  moreover from this have "unat (buf_offset b + i) = unat (buf_offset b) + unat i"
    by (intro unat_add_lem_le) (use unat_u32_bound [of "buf_size b"] in simp)
  ultimately show ?thesis
    using assms by (simp add: rd_def buffer_ok_def buf_rest_def)
qed

lemma rd_buf_rest_0:
  "buffer_ok b \<Longrightarrow> buf_rest b \<noteq> [] \<Longrightarrow> rd (buf_mem b) (buf_offset b) = Some (hd (buf_rest b))"
  using rd_buf_rest [of b 0] by (simp add: hd_conv_nth)

section \<open>What the operations do to the bytes still to be read\<close>

lemma buffer_read_u8_rest:
  assumes "buffer_ok b"
  shows "buffer_read_u8 b = (case buf_rest b of [] \<Rightarrow> None | c # _ \<Rightarrow> Some (c, advance b 1))"
  using assms rd_buf_rest_0 [OF assms]
  by (cases "buf_rest b") (simp_all add: buffer_read_u8_def buffer_can_read_iff)

lemma buffer_peek_n_rest:
  assumes "buffer_ok b" and "unat n < 4294967295"
  shows "buffer_peek_n b n = (if unat n < length (buf_rest b) then Some (buf_rest b ! unat n) else None)"
proof -
  have "unat (n + 1) = unat n + 1"
    by (subst unat_add_lem_le) (use assms in simp_all)
  then show ?thesis
    using assms rd_buf_rest [of b n] by (auto simp: buffer_peek_n_def buffer_can_read_iff)
qed

lemma buffer_peek_rest:
  "buffer_ok b \<Longrightarrow> buffer_peek b = (case buf_rest b of [] \<Rightarrow> None | c # _ \<Rightarrow> Some c)"
  by (cases "buf_rest b") (simp_all add: buffer_peek_def buffer_peek_n_rest)

lemma mem_read_rest:
  assumes "buffer_ok b" and "unat n \<le> length (buf_rest b)"
  shows "mem_read (buf_mem b) (buf_offset b) n = Some (take (unat n) (buf_rest b))"
proof -
  have "unat (buf_offset b) + unat n \<le> unat (buf_size b)"
    using assms by (auto simp: length_buf_rest buffer_ok_def)
  then show ?thesis
    using assms(1) by (auto simp: mem_read_def buf_rest_def buffer_ok_def min_def)
qed

lemma buffer_read_bytes_rest:
  assumes "buffer_ok b"
  shows "buffer_read_bytes b n =
    (if unat n \<le> length (buf_rest b) then Some (take (unat n) (buf_rest b), advance b n) else None)"
  using assms
  by (simp add: buffer_read_bytes_def word_less_nat_alt unat_remaining length_buf_rest [symmetric]
      mem_read_rest)

lemma varint_read_take:
  assumes "unat l \<le> length p"
  shows "varint_read (take (unat l) p) l = varint_read p l"
proof -
  have rd: "rd (take (unat l) p) i = rd p i" if "unat i < unat l" for i
    using assms that by (simp add: rd_def)
  show ?thesis
    by (cases "unat l < 1"; cases "unat l < 3"; cases "unat l < 5"; cases "unat l < 9")
      (simp_all add: varint_read_def bytes_defs rd word_less_nat_alt cong: Option.bind_cong if_cong)
qed

lemma buffer_read_varint_rest:
  assumes "buffer_ok b"
  shows "buffer_read_varint b = 
    (case varint_read (buf_rest b) (word_of_nat (length (buf_rest b))) of None \<Rightarrow> None
     | Some (len, v) \<Rightarrow> Some (v, advance b (word_of_nat len)))"
proof -
  let ?l = "buf_size b - buf_offset b"
  have l: "unat ?l = length (buf_rest b)"
    using assms by (simp add: unat_remaining length_buf_rest)
  then have wl: "word_of_nat (length (buf_rest b)) = ?l"
    by (simp flip: l)
  have "buf_rest b = take (unat ?l) (buffer_get_cur b)"
    using assms by (simp add: buf_rest_def buffer_get_cur_def unat_remaining)
  moreover have "unat ?l \<le> length (buffer_get_cur b)"
    using assms by (auto simp: unat_remaining buffer_get_cur_def buffer_ok_def)
  ultimately have "varint_read (buf_rest b) ?l = varint_read (buffer_get_cur b) ?l"
    by (simp add: varint_read_take)
  then show ?thesis
    by (auto simp: buffer_read_varint_def wl split: option.splits)
qed

lemma mem_read_length: "mem_read m off n = Some x \<Longrightarrow> length x = unat n"
  by (auto simp: mem_read_def split: if_splits)

lemma buffer_read_bytes_length: "buffer_read_bytes b n = Some (x, b') \<Longrightarrow> length x = unat n"
  by (auto simp: buffer_read_bytes_def dest: mem_read_length split: if_splits elim!: bind_SomeE)

lemma mem_read_cur:
  assumes "buffer_ok b" and "unat n \<le> length (buf_rest b)"
  shows "mem_read (buffer_get_cur b) 0 n = Some (take (unat n) (buf_rest b))"
proof -
  have "unat n + unat (buf_offset b) \<le> unat (buf_size b)" "unat (buf_size b) \<le> length (buf_mem b)"
    using assms by (auto simp: length_buf_rest buffer_ok_def)
  then show ?thesis
    by (auto simp: mem_read_def buffer_get_cur_def buf_rest_def min_def)
qed


lemma buf_rest_create:
  "unat n \<le> length m \<Longrightarrow> buffer_ok (buffer_create p m n) \<and> buf_rest (buffer_create p m n) = take (unat n) m"
  by (simp add: buffer_create_def buffer_ok_def buf_rest_def)

lemma take_cur:
  fixes n :: size_t
  shows "buffer_ok b \<Longrightarrow> unat n \<le> length (buf_rest b) \<Longrightarrow>
     unat n \<le> length (buffer_get_cur b) \<and> take (unat n) (buffer_get_cur b) = take (unat n) (buf_rest b)"
  using mem_read_cur [of b n] by (auto simp: mem_read_def split: if_splits)

lemma buffer_read_varint_ok:
  assumes "buffer_read_varint b = Some (v, b')" and "buffer_ok b"
  shows "buffer_ok b' \<and> same_array b b'"
proof -
  have l: "unat (word_of_nat (length (buf_rest b)) :: u32) = length (buf_rest b)"
    using length_buf_rest [OF assms(2)] unat_u32_bound [of "buf_size b"] by (intro unat_of_nat_u32) simp
  from assms obtain k where k: "varint_read (buf_rest b) (word_of_nat (length (buf_rest b))) = Some (k, v)"
    "b' = advance b (word_of_nat k)"
    by (auto simp: buffer_read_varint_rest split: option.splits)
  then have "k \<le> length (buf_rest b)" "unat (word_of_nat k :: u32) = k"
    using varint_read_length [OF k(1)] l by (auto intro: unat_of_nat_u32)
  then show ?thesis
    using advance_ok [OF assms(2), of "word_of_nat k"] k(2) by simp
qed

lemma buffer_read_u8_ok:
  assumes "buffer_read_u8 b = Some (v, b')" and "buffer_ok b"
  shows "buffer_ok b' \<and> same_array b b'"
  using assms advance_ok(3,5) [of b 1] by (auto simp: buffer_read_u8_rest split: list.splits)

section \<open>Allocation\<close>

lemma unat_alloc_padding:
  "unat (alloc_padding b aligned) < 4"
proof -
  have "unat (4 - d) < 4" if "d \<noteq> 0" "unat d < 4" for d :: u32
    using that by (simp add: unat_sub word_le_nat_alt unat_gt_0 flip: word_neq_0_conv)
  then show ?thesis
    by (simp add: alloc_padding_def Let_def unat_mod)
qed

lemma alloc_padding_aligned:
  "(buf_ptr b + buf_offset b + alloc_padding b True) mod 4 = 0"
proof -
  let ?x = "buf_ptr b + buf_offset b"
  have m: "unat (?x mod 4) = unat ?x mod 4"
    by (simp add: unat_mod)
  have "unat ((?x + (4 - ?x mod 4)) mod 4) = (unat ?x + (4 - unat ?x mod 4)) mod 4294967296 mod 4"
    using m by (simp add: unat_mod unat_word_ariths unat_sub word_le_nat_alt)
  also have "\<dots> = (unat ?x + (4 - unat ?x mod 4)) mod 4"
    by (rule mod_mod_cancel) simp
  also have "\<dots> = 0"
    by presburger
  finally have "(?x + (4 - ?x mod 4)) mod 4 = 0"
    by (simp add: unat_eq_zero)
  then show ?thesis
    by (auto simp: alloc_padding_def Let_def)
qed

lemma buffer_alloc_ok:
  assumes ok: "buffer_ok b" and al: "buffer_alloc b n aligned = Some (off, b')"
    and n: "unat n \<le> 4294967292"
  shows "buffer_ok b'" and "same_array b b'"
    and "unat (buf_offset b) \<le> unat off" and "unat off + unat n = unat (buf_offset b')"
    and "aligned \<Longrightarrow> (buf_ptr b + off) mod 4 = 0"
proof -
  let ?p = "alloc_padding b aligned"
  have pn: "unat (?p + n) = unat ?p + unat n"
    by (rule unat_add_lem_le) (use n unat_alloc_padding [of b aligned] in simp)
  from al have cr: "unat (?p + n) \<le> length (buf_rest b)" and off: "off = buf_offset b + ?p"
    and b': "b' = advance b (?p + n)"
    using ok by (auto simp: buffer_alloc_def Let_def buffer_can_read_iff split: if_splits)
  note adv = advance_ok [OF ok cr] advance_ok [OF ok, of ?p]
  show "buffer_ok b'" and "same_array b b'"
    using adv by (simp_all add: b')
  have o: "unat off = unat (buf_offset b) + unat ?p"
    using adv(7) cr pn by (simp add: off)
  then show "unat (buf_offset b) \<le> unat off"
    by simp
  show "unat off + unat n = unat (buf_offset b')"
    using adv(1,2) o pn by (simp add: b')
  show "aligned \<Longrightarrow> (buf_ptr b + off) mod 4 = 0"
    using alloc_padding_aligned [of b] by (simp add: off add.assoc)
qed

section \<open>Sources of bytes\<close>

text \<open>
  The contract shared by every reader of the application, a single buffer and the pair of
  buffers of the streaming parsers (theory \<open>Dbuffer\<close>): a read of \<open>n\<close> bytes either takes the first
  \<open>n\<close> of the remaining bytes or is refused.
\<close>

primrec read_all :: "('b \<Rightarrow> size_t \<Rightarrow> (bytes \<times> 'b) option) \<Rightarrow> size_t list \<Rightarrow> 'b \<Rightarrow> (bytes \<times> 'b) option"
  where
    "read_all rb [] b = Some ([], b)"
  | "read_all rb (n # ns) b =
       do { (x, b) \<leftarrow> rb b n; (xs, b) \<leftarrow> read_all rb ns b; Some (x @ xs, b) }"

locale byte_source =
  fixes src_ok :: "'b \<Rightarrow> bool"
    and src_rest :: "'b \<Rightarrow> bytes"
    and src_read :: "'b \<Rightarrow> size_t \<Rightarrow> (bytes \<times> 'b) option"
  assumes read_enough: "src_ok b \<Longrightarrow> unat n \<le> length (src_rest b) \<Longrightarrow>
      \<exists>b'. src_read b n = Some (take (unat n) (src_rest b), b') \<and> src_ok b'
            \<and> src_rest b' = drop (unat n) (src_rest b)"
    and read_short: "src_ok b \<Longrightarrow> length (src_rest b) < unat n \<Longrightarrow> src_read b n = None"
begin

lemma read_SomeD:
  assumes "src_ok b" and "src_read b n = Some (x, b')"
  shows "src_ok b'" and "src_rest b = x @ src_rest b'" and "length x = unat n"
proof -
  have "unat n \<le> length (src_rest b)"
    using assms read_short [of b n] by (cases "unat n \<le> length (src_rest b)") auto
  with read_enough [OF assms(1) this] assms(2)
  have "src_ok b'" "x = take (unat n) (src_rest b)" "src_rest b' = drop (unat n) (src_rest b)"
    "unat n \<le> length (src_rest b)"
    by auto
  then show "src_ok b'" and "src_rest b = x @ src_rest b'" and "length x = unat n"
    by simp_all
qed

lemma read_None_iff:
  "src_ok b \<Longrightarrow> src_read b n = None \<longleftrightarrow> length (src_rest b) < unat n"
  using read_enough [of b n] read_short [of b n] by (cases "unat n \<le> length (src_rest b)") auto

lemma read_all_prefix:
  "src_ok b \<Longrightarrow> read_all src_read ns b = Some (x, b') \<Longrightarrow>
     src_ok b' \<and> src_rest b = x @ src_rest b' \<and> length x = sum_list (map unat ns)"
proof (induction ns arbitrary: b x)
  case (Cons n ns)
  from Cons.prems(2) obtain y b1 z where y: "src_read b n = Some (y, b1)"
    and z: "read_all src_read ns b1 = Some (z, b')" and x: "x = y @ z"
    by (auto elim!: bind_SomeE)
  note yD = read_SomeD [OF Cons.prems(1) y]
  from Cons.IH [OF yD(1) z] yD(2,3) x show ?case
    by simp
qed simp

lemma read_all_enough:
  "src_ok b \<Longrightarrow> sum_list (map unat ns) \<le> length (src_rest b) \<Longrightarrow>
     \<exists>b'. read_all src_read ns b = Some (take (sum_list (map unat ns)) (src_rest b), b')"
proof (induction ns arbitrary: b)
  case (Cons n ns)
  then obtain b1 where b1: "src_read b n = Some (take (unat n) (src_rest b), b1)" "src_ok b1"
    "src_rest b1 = drop (unat n) (src_rest b)"
    using read_enough [of b n] by auto
  with Cons.prems have "sum_list (map unat ns) \<le> length (src_rest b1)"
    by simp
  from Cons.IH [OF b1(2) this] b1 show ?case
    by (auto simp: take_add)
qed simp

text \<open>Reading in pieces is reading at once.\<close>

lemma read_in_pieces:
  assumes "src_ok b" and "unat n = sum_list (map unat ns)"
  shows "map_option fst (read_all src_read ns b) = map_option fst (src_read b n)"
proof (cases "unat n \<le> length (src_rest b)")
  case True
  then show ?thesis
    using read_enough [OF assms(1) True] read_all_enough [of b ns] assms by auto
next
  case False
  then have "src_read b n = None"
    using assms by (simp add: read_None_iff)
  moreover have "read_all src_read ns b = None"
    using read_all_prefix [OF assms(1), of ns] False assms(2)
    by (cases "read_all src_read ns b") fastforce+
  ultimately show ?thesis
    by simp
qed

end

interpretation buffer_src: byte_source buffer_ok buf_rest buffer_read_bytes
  by unfold_locales (auto simp: buffer_read_bytes_rest intro: advance_ok)

end
