(* ===== verification/Policy_Lexer.thy ===== *)
theory Policy_Lexer
  imports Buffer Policy_Ast
begin

text \<open>
  The lexical layer of the descriptor template parser (\<^verbatim>\<open>src/src/common/wallet.c\<close>): the serialized
  wallet policy header, character classes, tokens, decimal numbers, hexadecimal hashes, derivation
  steps and key expressions.

  A loop that reads characters while the buffer has some is a function on the number of characters
  that may still be read, called with the number of bytes left in the buffer (and one more, for the
  test that ends the loop); \<open>decimal_loop_fuel\<close> and \<open>musig_keys_fuel\<close> show that more makes no
  difference.
\<close>

section \<open>The wallet policy header\<close>

abbreviation (input) WALLET_POLICY_VERSION_V1 :: int where "WALLET_POLICY_VERSION_V1 \<equiv> 1"
abbreviation (input) WALLET_POLICY_VERSION_V2 :: int where "WALLET_POLICY_VERSION_V2 \<equiv> 2"
abbreviation (input) MAX_WALLET_NAME_LENGTH :: u8 where "MAX_WALLET_NAME_LENGTH \<equiv> 64"
abbreviation (input) MAX_DESCRIPTOR_TEMPLATE_LENGTH_V1 :: u64 where "MAX_DESCRIPTOR_TEMPLATE_LENGTH_V1 \<equiv> 40"
abbreviation (input) MAX_DESCRIPTOR_TEMPLATE_LENGTH_V2 :: u64 where "MAX_DESCRIPTOR_TEMPLATE_LENGTH_V2 \<equiv> 512"
abbreviation (input) MAX_PUBKEYS_PER_MULTISIG :: nat where "MAX_PUBKEYS_PER_MULTISIG \<equiv> 16"
abbreviation (input) MAX_PUBKEYS_PER_MUSIG :: nat where "MAX_PUBKEYS_PER_MUSIG \<equiv> 5"
abbreviation (input) INT16_MAX :: nat where "INT16_MAX \<equiv> 32767"

text \<open>The union of the template (V1) and its hash (V2) is a sum.\<close>

record policy_map_wallet_header_t =
  hdr_version :: u8
  hdr_name :: bytes
  hdr_descriptor_template_len :: u16
  hdr_descriptor_template :: "bytes + bytes"
  hdr_n_keys :: size_t
  hdr_keys_info_merkle_root :: bytes

definition read_header_template ::
    "u8 \<Rightarrow> u64 \<Rightarrow> buffer_t \<Rightarrow> ((bytes + bytes) \<times> buffer_t) option" where
  "read_header_template version descriptor_template_len b =
     (if version = 1 then
        if descriptor_template_len > MAX_DESCRIPTOR_TEMPLATE_LENGTH_V1 then None
        else do {
          (t, b) \<leftarrow> buffer_read_bytes b (ucast (ucast descriptor_template_len :: u16));
          Some (Inl t, b) }
      else
        if descriptor_template_len > MAX_DESCRIPTOR_TEMPLATE_LENGTH_V2 then None
        else do { (h, b) \<leftarrow> buffer_read_bytes b 32; Some (Inr h, b) })"

definition read_wallet_policy_header ::
    "buffer_t \<Rightarrow> (policy_map_wallet_header_t \<times> buffer_t) option" where
  "read_wallet_policy_header b =
     do {
       (version, b) \<leftarrow> buffer_read_u8 b;
       if version \<noteq> 1 \<and> version \<noteq> 2 then None else do {
       (name_len, b) \<leftarrow> buffer_read_u8 b;
       if name_len > MAX_WALLET_NAME_LENGTH then None else do {
       (name, b) \<leftarrow> buffer_read_bytes b (ucast name_len);
       (descriptor_template_len, b) \<leftarrow> buffer_read_varint b;
       (template, b) \<leftarrow> read_header_template version descriptor_template_len b;
       (n_keys, b) \<leftarrow> buffer_read_varint b;
       if n_keys > 252 then None else do {
       (root, b) \<leftarrow> buffer_read_bytes b 32;
       Some (\<lparr>hdr_version = version, hdr_name = name,
              hdr_descriptor_template_len = ucast descriptor_template_len,
              hdr_descriptor_template = template,
              hdr_n_keys = ucast (ucast n_keys :: u16),
              hdr_keys_info_merkle_root = root\<rparr>, b) }}}}"

section \<open>Characters\<close>

definition is_digit :: "u8 \<Rightarrow> bool" where
  "is_digit c \<longleftrightarrow> ascii CHR ''0'' \<le> c \<and> c \<le> ascii CHR ''9''"

definition is_alpha :: "u8 \<Rightarrow> bool" where
  "is_alpha c \<longleftrightarrow> ascii CHR ''a'' \<le> c \<and> c \<le> ascii CHR ''z'' \<or> ascii CHR ''A'' \<le> c \<and> c \<le> ascii CHR ''Z''"

definition is_alphanumeric :: "u8 \<Rightarrow> bool" where
  "is_alphanumeric c \<longleftrightarrow> is_alpha c \<or> is_digit c"

definition is_lowercase_hex :: "u8 \<Rightarrow> bool" where
  "is_lowercase_hex c \<longleftrightarrow> is_digit c \<or> ascii CHR ''a'' \<le> c \<and> c \<le> ascii CHR ''f''"

definition lowercase_hex_to_int :: "u8 \<Rightarrow> u8" where
  "lowercase_hex_to_int c =
     (if is_digit c then c - ascii CHR ''0'' else c - ascii CHR ''a'' + 10)"

definition consume_character :: "buffer_t \<Rightarrow> char \<Rightarrow> buffer_t option" where
  "consume_character b expected =
     (if buffer_peek b = Some (ascii expected) then Some (advance b 1) else None)"

primrec peeks_match :: "buffer_t \<Rightarrow> size_t \<Rightarrow> string \<Rightarrow> bool" where
  "peeks_match b i [] \<longleftrightarrow> True"
| "peeks_match b i (c # cs) \<longleftrightarrow> buffer_peek_n b i = Some (ascii c) \<and> peeks_match b (i + 1) cs"

definition consume_characters :: "buffer_t \<Rightarrow> string \<Rightarrow> buffer_t option" where
  "consume_characters b expected =
     (if peeks_match b 0 expected then Some (advance b (word_of_nat (length expected))) else None)"

section \<open>Tokens\<close>

definition KNOWN_TOKENS :: "(PolicyNodeType \<times> string) list" where
  "KNOWN_TOKENS =
    [(TOKEN_SH, ''sh''), (TOKEN_WSH, ''wsh''), (TOKEN_PKH, ''pkh''), (TOKEN_WPKH, ''wpkh''),
     (TOKEN_MULTI, ''multi''), (TOKEN_MULTI_A, ''multi_a''), (TOKEN_SORTEDMULTI, ''sortedmulti''),
     (TOKEN_SORTEDMULTI_A, ''sortedmulti_a''), (TOKEN_TR, ''tr''),
     (TOKEN_0, ''0''), (TOKEN_1, ''1''), (TOKEN_PK, ''pk''), (TOKEN_PK_K, ''pk_k''),
     (TOKEN_PK_H, ''pk_h''), (TOKEN_OLDER, ''older''), (TOKEN_AFTER, ''after''),
     (TOKEN_SHA256, ''sha256''), (TOKEN_HASH256, ''hash256''), (TOKEN_RIPEMD160, ''ripemd160''),
     (TOKEN_HASH160, ''hash160''), (TOKEN_ANDOR, ''andor''), (TOKEN_AND_V, ''and_v''),
     (TOKEN_AND_B, ''and_b''), (TOKEN_AND_N, ''and_n''), (TOKEN_OR_B, ''or_b''),
     (TOKEN_OR_C, ''or_c''), (TOKEN_OR_D, ''or_d''), (TOKEN_OR_I, ''or_i''),
     (TOKEN_THRESH, ''thresh'')]"

abbreviation (input) MAX_TOKEN_LENGTH :: nat where "MAX_TOKEN_LENGTH \<equiv> 13"

primrec read_token :: "nat \<Rightarrow> buffer_t \<Rightarrow> bytes \<times> buffer_t" where
  "read_token 0 b = ([], b)"
| "read_token (Suc n) b =
     (case buffer_peek b of
        None \<Rightarrow> ([], b)
      | Some c \<Rightarrow>
          if is_alphanumeric c \<or> c = ascii CHR ''_'' then
            let (word, b') = read_token n (advance b 1) in (c # word, b')
          else ([], b))"

text \<open>\<open>strncmp(name, word, MAX_TOKEN_LENGTH) == 0\<close> on strings without zero bytes.\<close>

definition parse_token :: "buffer_t \<Rightarrow> (PolicyNodeType \<times> buffer_t) option" where
  "parse_token b =
     (let (word, b') = read_token MAX_TOKEN_LENGTH b in
      case find (\<lambda>(_, name). take MAX_TOKEN_LENGTH (ascii_string name) = take MAX_TOKEN_LENGTH word)
             KNOWN_TOKENS of
        None \<Rightarrow> None
      | Some (type, _) \<Rightarrow> Some (type, b'))"

section \<open>Decimal numbers\<close>

abbreviation bytes_left :: "buffer_t \<Rightarrow> nat" where
  "bytes_left b \<equiv> unat (buf_size b - buf_offset b)"

primrec decimal_loop :: "nat \<Rightarrow> nat \<Rightarrow> size_t \<Rightarrow> buffer_t \<Rightarrow> (nat \<times> size_t \<times> buffer_t) option" where
  "decimal_loop 0 digits_read result b = None"
| "decimal_loop (Suc fuel) digits_read result b =
     (case buffer_peek b of
        None \<Rightarrow> Some (digits_read, result, b)
      | Some c \<Rightarrow>
          if \<not> is_digit c then Some (digits_read, result, b)
          else
            let digits_read = digits_read + 1; next_digit = c - ascii CHR ''0'' in
            if digits_read = 2 \<and> result = 0 then None
            else if 10 * result + ucast next_digit < result then None
            else decimal_loop fuel digits_read (10 * result + ucast next_digit) (advance b 1))"

definition parse_unsigned_decimal :: "buffer_t \<Rightarrow> (u32 \<times> buffer_t) option" where
  "parse_unsigned_decimal b =
     do {
       (digits_read, result, b) \<leftarrow> decimal_loop (Suc (bytes_left b)) 0 0 b;
       if digits_read = 0 then None else Some (result, b) }"

section \<open>Hexadecimal hashes and derivation steps\<close>

primrec hex_loop :: "nat \<Rightarrow> buffer_t \<Rightarrow> (bytes \<times> buffer_t) option" where
  "hex_loop 0 b = Some ([], b)"
| "hex_loop (Suc n) b =
     do {
       (c1, b) \<leftarrow> buffer_read_u8 b;
       (c2, b) \<leftarrow> buffer_read_u8 b;
       if \<not> is_lowercase_hex c1 \<or> \<not> is_lowercase_hex c2 then None
       else do {
         (out, b) \<leftarrow> hex_loop n b;
         Some ((16 * lowercase_hex_to_int c1 + lowercase_hex_to_int c2) # out, b) }}"

definition buffer_read_hex_hash :: "buffer_t \<Rightarrow> size_t \<Rightarrow> (bytes \<times> buffer_t) option" where
  "buffer_read_hex_hash b n =
     (if \<not> buffer_can_read b (2 * n) then None else hex_loop (unat n) b)"

abbreviation (input) BIP32_FIRST_HARDENED_CHILD :: u32 where
  "BIP32_FIRST_HARDENED_CHILD \<equiv> 0x80000000"

definition buffer_read_derivation_step :: "buffer_t \<Rightarrow> (u32 \<times> buffer_t) option" where
  "buffer_read_derivation_step b =
     do {
       (der_step, b) \<leftarrow> parse_unsigned_decimal b;
       if der_step \<ge> BIP32_FIRST_HARDENED_CHILD then None
       else case consume_character b CHR 0x27 of
              None \<Rightarrow> Some (der_step, b)
            | Some b' \<Rightarrow> Some (der_step OR BIP32_FIRST_HARDENED_CHILD, b') }"

section \<open>Key expressions\<close>

text \<open>What the compiler decides: the sizes of the structures allocated by the parser.\<close>

record struct_sizes =
  sz_constant :: size_t
  sz_with_script :: size_t
  sz_with_script2 :: size_t
  sz_with_script3 :: size_t
  sz_with_key :: size_t
  sz_keyexpr :: size_t
  sz_with_uint32 :: size_t
  sz_multisig :: size_t
  sz_scriptlist :: size_t
  sz_thresh :: size_t
  sz_hash160 :: size_t
  sz_hash256 :: size_t
  sz_tree :: size_t
  sz_tr :: size_t
  sz_pointer :: size_t

text \<open>The sizes on the device, from the comments of \<^verbatim>\<open>src/src/common/wallet.h\<close>; used in examples only.\<close>

definition device_sizes :: struct_sizes where
  "device_sizes =
     \<lparr>sz_constant = 4, sz_with_script = 4, sz_with_script2 = 6, sz_with_script3 = 8, sz_with_key = 4,
      sz_keyexpr = 16, sz_with_uint32 = 8, sz_multisig = 12, sz_scriptlist = 8, sz_thresh = 12,
      sz_hash160 = 22, sz_hash256 = 34, sz_tree = 6, sz_tr = 6, sz_pointer = 4\<rparr>"

text \<open>The state of a parse: the two buffers and the static counter of \<open>parse_script\<close>.  The bytes
  of the output buffer are not tracked, only the space taken: its contents are the syntax tree.\<close>

record parse_state =
  in_buf :: buffer_t
  out_buf :: buffer_t
  key_expression_count :: u16

definition alloc :: "size_t \<Rightarrow> parse_state \<Rightarrow> parse_state option" where
  "alloc n s = do { (_, b) \<leftarrow> buffer_alloc (out_buf s) n True; Some (s\<lparr>out_buf := b\<rparr>) }"

text \<open>\<open>buffer_alloc(out_buf, 0, true)\<close>, whose result is not looked at.\<close>

definition align_out :: "parse_state \<Rightarrow> parse_state" where
  "align_out s = (case alloc 0 s of None \<Rightarrow> s | Some s' \<Rightarrow> s')"

text \<open>A reader of the input buffer, on the state.\<close>

definition on_in :: "(buffer_t \<Rightarrow> ('a \<times> buffer_t) option) \<Rightarrow> parse_state \<Rightarrow> ('a \<times> parse_state) option" where
  "on_in f s = do { (v, b) \<leftarrow> f (in_buf s); Some (v, s\<lparr>in_buf := b\<rparr>) }"

definition consume :: "char \<Rightarrow> parse_state \<Rightarrow> parse_state option" where
  "consume c s = do { b \<leftarrow> consume_character (in_buf s) c; Some (s\<lparr>in_buf := b\<rparr>) }"

definition consume_if :: "bool \<Rightarrow> char \<Rightarrow> parse_state \<Rightarrow> parse_state option" where
  "consume_if required c s = (if required then consume c s else Some s)"

definition consumes :: "string \<Rightarrow> parse_state \<Rightarrow> parse_state option" where
  "consumes cs s = do { b \<leftarrow> consume_characters (in_buf s) cs; Some (s\<lparr>in_buf := b\<rparr>) }"

text \<open>A number that must fit an \<open>int16_t\<close>.\<close>

definition parse_int16 :: "parse_state \<Rightarrow> (nat \<times> parse_state) option" where
  "parse_int16 s =
     do { (k, s) \<leftarrow> on_in parse_unsigned_decimal s;
          if k > 32767 then None else Some (unat k, s) }"

text \<open>The loop over the keys of \<open>musig(\<dots>)\<close>, with \<open>n\<close> keys read so far.\<close>

primrec musig_keys :: "nat \<Rightarrow> nat \<Rightarrow> parse_state \<Rightarrow> (nat list \<times> parse_state) option" where
  "musig_keys 0 n s = None"
| "musig_keys (Suc fuel) n s =
     do {
       (c, s) \<leftarrow> on_in buffer_read_u8 s;
       if c \<noteq> ascii CHR ''@'' then None else do {
       (k, s) \<leftarrow> parse_int16 s;
       if n \<ge> MAX_PUBKEYS_PER_MUSIG then None else do {
       (c, s) \<leftarrow> on_in buffer_read_u8 s;
       if c = ascii CHR '')'' then Some ([k], s)
       else if c \<noteq> ascii CHR '','' then None
       else do { (ks, s) \<leftarrow> musig_keys fuel (n + 1) s; Some (k # ks, s) }}}}"

text \<open>The first half of \<open>parse_keyexpr\<close>: which keys the expression refers to.  \<open>sizeof(musig_info)\<close>
  in the source is the size of a pointer, not of the structure pointed to.\<close>

definition parse_key_kind ::
    "struct_sizes \<Rightarrow> int \<Rightarrow> bool \<Rightarrow> parse_state \<Rightarrow> (key_kind \<times> parse_state) option" where
  "parse_key_kind sz version is_taproot s =
     do {
       (c, s) \<leftarrow> on_in buffer_read_u8 s;
       if c = ascii CHR ''@'' then do {
         (k, s) \<leftarrow> parse_int16 s;
         Some (KEY_EXPRESSION_NORMAL k, s) }
       else if c = ascii CHR ''m'' then do {
         s \<leftarrow> consumes ''usig('' s;
         if \<not> is_taproot then None
         else if version \<noteq> WALLET_POLICY_VERSION_V2 then None
         else do {
           (keys, s) \<leftarrow> musig_keys (MAX_PUBKEYS_PER_MUSIG + 1) 0 s;
           if length keys < 2 then None
           else do {
             s \<leftarrow> alloc (sz_pointer sz) s;
             s \<leftarrow> alloc (2 * word_of_nat (length keys)) s;
             Some (KEY_EXPRESSION_MUSIG keys, s) }}}
       else None }"

text \<open>The second half: the derivation steps \<open>/**\<close> or \<open>/<M;N>/*\<close>.\<close>

definition parse_key_derivation :: "int \<Rightarrow> parse_state \<Rightarrow> ((u32 \<times> u32) \<times> parse_state) option" where
  "parse_key_derivation version s =
     (if version = WALLET_POLICY_VERSION_V1 then Some ((0, 1), s)
      else if version = WALLET_POLICY_VERSION_V2 then do {
        s \<leftarrow> consume CHR ''/'' s;
        next_character \<leftarrow> buffer_peek (in_buf s);
        if next_character = ascii CHR ''*'' then do {
          s \<leftarrow> consumes ''**'' s;
          Some ((0, 1), s) }
        else if next_character = ascii CHR ''<'' then do {
          let s = s\<lparr>in_buf := advance (in_buf s) 1\<rparr>;
          (num_first, s) \<leftarrow> on_in parse_unsigned_decimal s;
          if num_first > 0x80000000 then None else do {
          s \<leftarrow> consume CHR '';'' s;
          (num_second, s) \<leftarrow> on_in parse_unsigned_decimal s;
          if num_second > 0x80000000 then None
          else if num_first = num_second then None
          else do {
            s \<leftarrow> consumes ''>/*'' s;
            Some ((num_first, num_second), s) }}}
        else None }
      else None)"

definition parse_keyexpr ::
    "struct_sizes \<Rightarrow> int \<Rightarrow> bool \<Rightarrow> parse_state \<Rightarrow> (policy_node_keyexpr \<times> parse_state) option" where
  "parse_keyexpr sz version is_taproot s =
     do {
       (kind, s) \<leftarrow> parse_key_kind sz version is_taproot s;
       ((num_first, num_second), s) \<leftarrow> parse_key_derivation version s;
       Some (\<lparr>num_first = num_first, num_second = num_second, key_kind = kind,
              keyexpr_index = key_expression_count s\<rparr>,
             s\<lparr>key_expression_count := key_expression_count s + 1\<rparr>) }"

end
