(* ===== verification/Policy_Parser.thy ===== *)
theory Policy_Parser
  imports Policy_Lexer Policy_Typing
begin

text \<open>
  The recursive descent parser of descriptor templates: \<open>parse_script\<close>, \<open>parse_tree\<close> and
  \<open>parse_descriptor_template\<close> of \<^verbatim>\<open>src/src/common/wallet.c\<close>.

  Each case of the big \<open>switch\<close> of \<open>parse_script\<close> is a definition of its own, with the recursive
  calls as arguments (\<open>rec depth context_flags s\<close> for \<open>parse_script\<close>, \<open>rec_tree depth s\<close> for
  \<open>parse_tree\<close>); the functions \<open>parse_script\<close> and \<open>parse_tree\<close> tie the knot by recursion on the
  number of nested calls, and \<open>parse_descriptor_template\<close> allows two for each byte of the input and one more.
  Theory \<open>Parser_Fuel\<close> shows that this is enough for every input.
\<close>

section \<open>Contexts\<close>

abbreviation (input) CONTEXT_WITHIN_SH :: u32 where "CONTEXT_WITHIN_SH \<equiv> 1"
abbreviation (input) CONTEXT_WITHIN_WSH :: u32 where "CONTEXT_WITHIN_WSH \<equiv> 2"
abbreviation (input) CONTEXT_WITHIN_TR :: u32 where "CONTEXT_WITHIN_TR \<equiv> 4"
abbreviation (input) MAX_TAPTREE_POLICY_DEPTH :: nat where "MAX_TAPTREE_POLICY_DEPTH \<equiv> 9"

abbreviation within :: "u32 \<Rightarrow> u32 \<Rightarrow> bool" where
  "within context_flags f \<equiv> context_flags AND f \<noteq> 0"

type_synonym script_parser = "parse_state \<Rightarrow> (policy_node \<times> parse_state) option"
type_synonym tree_parser = "parse_state \<Rightarrow> (policy_node_tree \<times> parse_state) option"

section \<open>Wrappers\<close>

definition is_valid_miniscript_wrapper :: "bool list" where
  "is_valid_miniscript_wrapper =
    [True, False, True, True, False, False, False, False, False, True, False, True, False,
     True, False, False, False, False, True, True, True, True, False, False, False, False]"

definition is_wrapper_char :: "u8 \<Rightarrow> bool" where
  "is_wrapper_char c \<longleftrightarrow>
     ascii CHR ''a'' \<le> c \<and> c \<le> ascii CHR ''z'' \<and>
     is_valid_miniscript_wrapper ! unat (c - ascii CHR ''a'')"

text \<open>The look-ahead: the number of wrapper characters, and the first other character if any.\<close>

primrec scan_wrappers :: "nat \<Rightarrow> buffer_t \<Rightarrow> nat \<Rightarrow> (nat \<times> u8 option) option" where
  "scan_wrappers 0 b n_wrappers = None"
| "scan_wrappers (Suc fuel) b n_wrappers =
     (case buffer_peek_n b (word_of_nat n_wrappers) of
        None \<Rightarrow> Some (n_wrappers, None)
      | Some c \<Rightarrow>
          if is_wrapper_char c then scan_wrappers fuel b (n_wrappers + 1)
          else Some (n_wrappers, Some c))"

definition wrapper_token :: "u8 \<Rightarrow> wrap_tok option" where
  "wrapper_token c =
     (if c = ascii CHR ''a'' then Some Tok_A
      else if c = ascii CHR ''s'' then Some Tok_S
      else if c = ascii CHR ''c'' then Some Tok_C
      else if c = ascii CHR ''t'' then Some Tok_T
      else if c = ascii CHR ''d'' then Some Tok_D
      else if c = ascii CHR ''v'' then Some Tok_V
      else if c = ascii CHR ''j'' then Some Tok_J
      else if c = ascii CHR ''n'' then Some Tok_N
      else if c = ascii CHR ''l'' then Some Tok_L
      else if c = ascii CHR ''u'' then Some Tok_U
      else None)"

primrec read_wrappers ::
    "struct_sizes \<Rightarrow> nat \<Rightarrow> parse_state \<Rightarrow> (wrap_tok list \<times> parse_state) option" where
  "read_wrappers sz 0 s = Some ([], s)"
| "read_wrappers sz (Suc n) s =
     do {
       s \<leftarrow> alloc (sz_with_script sz) s;
       (c, s) \<leftarrow> on_in buffer_read_u8 s;
       w \<leftarrow> wrapper_token c;
       (ws, s) \<leftarrow> read_wrappers sz n s;
       Some (w # ws, s) }"

definition parse_wrappers ::
    "struct_sizes \<Rightarrow> u32 \<Rightarrow> parse_state \<Rightarrow> (wrap_tok list \<times> parse_state) option" where
  "parse_wrappers sz context_flags s =
     (let parse_as_miniscript =
        (within context_flags CONTEXT_WITHIN_WSH \<and> \<not> within context_flags CONTEXT_WITHIN_SH)
        \<or> within context_flags CONTEXT_WITHIN_TR in
      if \<not> parse_as_miniscript then Some ([], s)
      else do {
        (n_wrappers, c) \<leftarrow> scan_wrappers (Suc (bytes_left (in_buf s))) (in_buf s) 0;
        if c = Some (ascii CHR '':'') then do {
          (ws, s) \<leftarrow> read_wrappers sz n_wrappers s;
          Some (ws, s\<lparr>in_buf := advance (in_buf s) 1\<rparr>) }
        else Some ([], s) })"

text \<open>The flags of the wrappers, from the innermost one.\<close>

primrec apply_wrappers :: "u32 \<Rightarrow> wrap_tok list \<Rightarrow> policy_node \<Rightarrow> policy_node option" where
  "apply_wrappers context_flags [] node = Some node"
| "apply_wrappers context_flags (w # ws) node =
     do {
       inner \<leftarrow> apply_wrappers context_flags ws node;
       X \<leftarrow> node_flags inner;
       f \<leftarrow> wrapper_flags (within context_flags CONTEXT_WITHIN_TR) w X;
       Some (With_wrapper w (Some f) inner) }"

section \<open>Tokens allowed in a context\<close>

definition sh_token_ok :: "u32 \<Rightarrow> PolicyNodeType \<Rightarrow> bool" where
  "sh_token_ok context_flags token \<longleftrightarrow>
     (within context_flags CONTEXT_WITHIN_SH \<longrightarrow>
        token \<in> {TOKEN_PK, TOKEN_PKH, TOKEN_MULTI, TOKEN_SORTEDMULTI, TOKEN_WPKH, TOKEN_WSH})"

definition sh_wsh_token_ok :: "nat \<Rightarrow> u32 \<Rightarrow> PolicyNodeType \<Rightarrow> bool" where
  "sh_wsh_token_ok depth context_flags token \<longleftrightarrow>
     (within context_flags CONTEXT_WITHIN_SH \<and> within context_flags CONTEXT_WITHIN_WSH \<and> depth = 2
      \<longrightarrow> token \<in> {TOKEN_PK, TOKEN_PKH, TOKEN_MULTI, TOKEN_SORTEDMULTI})"

section \<open>The cases of parse_script\<close>

definition parse_constant :: "struct_sizes \<Rightarrow> const_tok \<Rightarrow> script_parser" where
  "parse_constant sz t s =
     do { s \<leftarrow> alloc (sz_constant sz) s; Some (Constant t (Some (constant_flags t)), s) }"

definition parse_sh_wsh ::
    "(nat \<Rightarrow> u32 \<Rightarrow> script_parser) \<Rightarrow> struct_sizes \<Rightarrow> nat \<Rightarrow> u32 \<Rightarrow> sh_tok \<Rightarrow> script_parser" where
  "parse_sh_wsh rec sz depth context_flags t s =
     (if t = Tok_SH \<and> depth \<noteq> 0 then None
      else if t = Tok_WSH \<and> depth \<noteq> 0 \<and> \<not> within context_flags CONTEXT_WITHIN_SH then None
      else do {
        s \<leftarrow> alloc (sz_with_script sz) s;
        let inner_context_flags =
          context_flags OR (if t = Tok_SH then CONTEXT_WITHIN_SH else CONTEXT_WITHIN_WSH);
        (x, s) \<leftarrow> rec (depth + 1) inner_context_flags (align_out s);
        Some (With_sh t x, s) })"

definition parse_hash256 :: "struct_sizes \<Rightarrow> hash256_tok \<Rightarrow> script_parser" where
  "parse_hash256 sz t s =
     do {
       s \<leftarrow> alloc (sz_hash256 sz) s;
       (h, s) \<leftarrow> on_in (\<lambda>b. buffer_read_hex_hash b 32) s;
       Some (With_hash256 t (Some hash_flags) h, s) }"

definition parse_hash160 :: "struct_sizes \<Rightarrow> hash160_tok \<Rightarrow> script_parser" where
  "parse_hash160 sz t s =
     do {
       s \<leftarrow> alloc (sz_hash160 sz) s;
       (h, s) \<leftarrow> on_in (\<lambda>b. buffer_read_hex_hash b 20) s;
       Some (With_hash160 t (Some hash_flags) h, s) }"

primrec parse_child_scripts ::
    "script_parser \<Rightarrow> nat \<Rightarrow> parse_state \<Rightarrow> (policy_node list \<times> parse_state) option" where
  "parse_child_scripts rec 0 s = Some ([], s)"
| "parse_child_scripts rec (Suc n) s =
     do {
       (x, s) \<leftarrow> rec (align_out s);
       s \<leftarrow> consume_if (n \<noteq> 0) CHR '','' s;
       (xs, s) \<leftarrow> parse_child_scripts rec n s;
       Some (x # xs, s) }"

definition parse_andor :: "script_parser \<Rightarrow> struct_sizes \<Rightarrow> script_parser" where
  "parse_andor rec sz s =
     do {
       s \<leftarrow> alloc (sz_with_script3 sz) s;
       (xs, s) \<leftarrow> parse_child_scripts rec 3 s;
       X \<leftarrow> node_flags (xs ! 0);
       Y \<leftarrow> node_flags (xs ! 1);
       Z \<leftarrow> node_flags (xs ! 2);
       f \<leftarrow> andor_flags X Y Z;
       Some (With_script3 (Some f) (xs ! 0) (xs ! 1) (xs ! 2), s) }"

text \<open>The seven binary fragments allocate and parse alike; they differ in the typing rule.\<close>

definition parse_script2 :: "script_parser \<Rightarrow> struct_sizes \<Rightarrow> script2_tok \<Rightarrow> script_parser" where
  "parse_script2 rec sz t s =
     do {
       s \<leftarrow> alloc (sz_with_script2 sz) s;
       (xs, s) \<leftarrow> parse_child_scripts rec 2 s;
       X \<leftarrow> node_flags (xs ! 0);
       Y \<leftarrow> node_flags (xs ! 1);
       f \<leftarrow> script2_flags t X Y;
       Some (With_script2 t (Some f) (xs ! 0) (xs ! 1), s) }"

text \<open>The loop over the children of \<open>thresh\<close>: \<open>n\<close> children read so far, of which \<open>count_z\<close> and
  \<open>count_o\<close> have the modifiers \<open>z\<close> and \<open>o\<close>.\<close>

primrec thresh_loop ::
    "script_parser \<Rightarrow> struct_sizes \<Rightarrow> nat \<Rightarrow> nat \<Rightarrow> nat \<Rightarrow> nat \<Rightarrow> parse_state \<Rightarrow>
     ((policy_node list \<times> nat \<times> nat \<times> nat) \<times> parse_state) option" where
  "thresh_loop rec sz 0 n count_z count_o s = None"
| "thresh_loop rec sz (Suc fuel) n count_z count_o s =
     do {
       let n = n + 1;
       (x, s) \<leftarrow> rec (align_out s);
       X \<leftarrow> node_flags x;
       if \<not> thresh_child_ok n X then None
       else do {
         let count_z = (if mod_z X then count_z + 1 else count_z);
         let count_o = (if mod_o X then count_o + 1 else count_o);
         case consume CHR '','' s of
           None \<Rightarrow> Some (([x], n, count_z, count_o), s)
         | Some s \<Rightarrow> do {
             s \<leftarrow> alloc (sz_scriptlist sz) s;
             ((xs, r), s) \<leftarrow> thresh_loop rec sz fuel n count_z count_o s;
             Some ((x # xs, r), s) }}}"

definition parse_thresh :: "script_parser \<Rightarrow> struct_sizes \<Rightarrow> script_parser" where
  "parse_thresh rec sz s =
     do {
       s \<leftarrow> alloc (sz_thresh sz) s;
       (k, s) \<leftarrow> parse_int16 s;
       s \<leftarrow> consume CHR '','' s;
       if k < 1 then None
       else do {
         s \<leftarrow> alloc (sz_scriptlist sz) s;
         ((xs, n, count_z, count_o), s) \<leftarrow> thresh_loop rec sz (Suc (bytes_left (in_buf s))) 0 0 0 s;
         Some (Thresh (Some (thresh_flags n count_z count_o)) k xs, s) }}"

definition parse_key_node ::
    "struct_sizes \<Rightarrow> int \<Rightarrow> nat \<Rightarrow> u32 \<Rightarrow> key_tok \<Rightarrow> script_parser" where
  "parse_key_node sz version depth context_flags t s =
     do {
       s \<leftarrow> alloc (sz_with_key sz) s;
       s \<leftarrow> alloc (sz_keyexpr sz) s;
       if t = Tok_WPKH \<and> depth > 0 \<and> \<not> within context_flags CONTEXT_WITHIN_SH then None
       else do {
         (k, s) \<leftarrow> parse_keyexpr sz version (within context_flags CONTEXT_WITHIN_TR) s;
         Some (With_key t (key_flags t) k, s) }}"

definition parse_tr ::
    "(nat \<Rightarrow> tree_parser) \<Rightarrow> struct_sizes \<Rightarrow> int \<Rightarrow> nat \<Rightarrow> script_parser" where
  "parse_tr rec_tree sz version depth s =
     (if depth > 1 then None
      else do {
        s \<leftarrow> alloc (sz_tr sz) s;
        s \<leftarrow> alloc (sz_keyexpr sz) s;
        (k, s) \<leftarrow> parse_keyexpr sz version True s;
        c \<leftarrow> buffer_peek (in_buf s);
        if c = ascii CHR '','' then do {
          let s = s\<lparr>in_buf := advance (in_buf s) 1\<rparr>;
          (t, s) \<leftarrow> rec_tree (depth + 1) (align_out s);
          Some (Tr k (Some t), s) }
        else if c \<noteq> ascii CHR '')'' then None
        else Some (Tr k None, s) })"

definition parse_uint32_node :: "struct_sizes \<Rightarrow> uint_tok \<Rightarrow> script_parser" where
  "parse_uint32_node sz t s =
     do {
       s \<leftarrow> alloc (sz_with_uint32 sz) s;
       (n, s) \<leftarrow> on_in parse_unsigned_decimal s;
       if n < 1 \<or> n \<ge> push_bit 31 1 then None
       else Some (With_uint32 t (Some uint32_flags) n, s) }"

text \<open>The loop over the keys of \<open>multi\<close>, which also answers the offset in the output buffer where
  each key expression was allocated.\<close>

primrec multi_keys ::
    "struct_sizes \<Rightarrow> int \<Rightarrow> bool \<Rightarrow> nat \<Rightarrow> parse_state \<Rightarrow>
     ((size_t \<times> policy_node_keyexpr) list \<times> parse_state) option" where
  "multi_keys sz version is_taproot 0 s = None"
| "multi_keys sz version is_taproot (Suc fuel) s =
     (if buffer_peek (in_buf s) = Some (ascii CHR '')'') then Some ([], s)
      else do {
        s \<leftarrow> consume CHR '','' s;
        (addr, b) \<leftarrow> buffer_alloc (out_buf s) (sz_keyexpr sz) True;
        (k, s) \<leftarrow> parse_keyexpr sz version is_taproot (s\<lparr>out_buf := b\<rparr>);
        (ks, s) \<leftarrow> multi_keys sz version is_taproot fuel s;
        Some ((addr, k) # ks, s) })"

definition multi_token_ok :: "nat \<Rightarrow> u32 \<Rightarrow> multi_tok \<Rightarrow> bool" where
  "multi_token_ok depth context_flags t \<longleftrightarrow>
     (if within context_flags CONTEXT_WITHIN_TR then t = Tok_MULTI_A \<or> t = Tok_SORTEDMULTI_A
      else t = Tok_MULTI \<or> t = Tok_SORTEDMULTI)
     \<and> (t = Tok_SORTEDMULTI \<longrightarrow>
          depth = (if within context_flags CONTEXT_WITHIN_SH then 1 else 0)
                + (if within context_flags CONTEXT_WITHIN_WSH then 1 else 0))"

definition parse_multisig ::
    "struct_sizes \<Rightarrow> int \<Rightarrow> nat \<Rightarrow> u32 \<Rightarrow> multi_tok \<Rightarrow> script_parser" where
  "parse_multisig sz version depth context_flags t s =
     do {
       s \<leftarrow> alloc (sz_multisig sz) s;
       if \<not> multi_token_ok depth context_flags t then None
       else do {
         (k, s) \<leftarrow> parse_int16 s;
         let s = align_out s;
         (ks, s) \<leftarrow> multi_keys sz version (within context_flags CONTEXT_WITHIN_TR)
                      (Suc (bytes_left (in_buf s))) s;
         if \<not> (1 \<le> k \<and> k \<le> length ks \<and> length ks \<le> MAX_PUBKEYS_PER_MULTISIG) then None
         else Some (Multisig t (multi_flags t) k (map snd ks), s) }}"

section \<open>parse_script and parse_tree\<close>

text \<open>The \<open>switch\<close> on the token.\<close>

definition parse_node ::
    "(nat \<Rightarrow> u32 \<Rightarrow> script_parser) \<Rightarrow> (nat \<Rightarrow> tree_parser) \<Rightarrow> struct_sizes \<Rightarrow> int \<Rightarrow> nat \<Rightarrow> u32 \<Rightarrow>
     PolicyNodeType \<Rightarrow> script_parser" where
  "parse_node rec rec_tree sz version depth context_flags token =
     (let child = rec (depth + 1) context_flags in
      case token of
        TOKEN_0 \<Rightarrow> parse_constant sz Tok_0
      | TOKEN_1 \<Rightarrow> parse_constant sz Tok_1
      | TOKEN_SH \<Rightarrow> parse_sh_wsh rec sz depth context_flags Tok_SH
      | TOKEN_WSH \<Rightarrow> parse_sh_wsh rec sz depth context_flags Tok_WSH
      | TOKEN_SHA256 \<Rightarrow> parse_hash256 sz Tok_SHA256
      | TOKEN_HASH256 \<Rightarrow> parse_hash256 sz Tok_HASH256
      | TOKEN_RIPEMD160 \<Rightarrow> parse_hash160 sz Tok_RIPEMD160
      | TOKEN_HASH160 \<Rightarrow> parse_hash160 sz Tok_HASH160
      | TOKEN_ANDOR \<Rightarrow> parse_andor child sz
      | TOKEN_AND_V \<Rightarrow> parse_script2 child sz Tok_AND_V
      | TOKEN_AND_B \<Rightarrow> parse_script2 child sz Tok_AND_B
      | TOKEN_AND_N \<Rightarrow> parse_script2 child sz Tok_AND_N
      | TOKEN_OR_B \<Rightarrow> parse_script2 child sz Tok_OR_B
      | TOKEN_OR_C \<Rightarrow> parse_script2 child sz Tok_OR_C
      | TOKEN_OR_D \<Rightarrow> parse_script2 child sz Tok_OR_D
      | TOKEN_OR_I \<Rightarrow> parse_script2 child sz Tok_OR_I
      | TOKEN_THRESH \<Rightarrow> parse_thresh child sz
      | TOKEN_PK \<Rightarrow> parse_key_node sz version depth context_flags Tok_PK
      | TOKEN_PKH \<Rightarrow> parse_key_node sz version depth context_flags Tok_PKH
      | TOKEN_PK_K \<Rightarrow> parse_key_node sz version depth context_flags Tok_PK_K
      | TOKEN_PK_H \<Rightarrow> parse_key_node sz version depth context_flags Tok_PK_H
      | TOKEN_WPKH \<Rightarrow> parse_key_node sz version depth context_flags Tok_WPKH
      | TOKEN_TR \<Rightarrow> parse_tr rec_tree sz version depth
      | TOKEN_OLDER \<Rightarrow> parse_uint32_node sz Tok_OLDER
      | TOKEN_AFTER \<Rightarrow> parse_uint32_node sz Tok_AFTER
      | TOKEN_MULTI \<Rightarrow> parse_multisig sz version depth context_flags Tok_MULTI
      | TOKEN_MULTI_A \<Rightarrow> parse_multisig sz version depth context_flags Tok_MULTI_A
      | TOKEN_SORTEDMULTI \<Rightarrow> parse_multisig sz version depth context_flags Tok_SORTEDMULTI
      | TOKEN_SORTEDMULTI_A \<Rightarrow> parse_multisig sz version depth context_flags Tok_SORTEDMULTI_A
      | _ \<Rightarrow> (\<lambda>_. None))"

definition parse_script_body ::
    "(nat \<Rightarrow> u32 \<Rightarrow> script_parser) \<Rightarrow> (nat \<Rightarrow> tree_parser) \<Rightarrow> struct_sizes \<Rightarrow> int \<Rightarrow> nat \<Rightarrow> u32 \<Rightarrow>
     script_parser" where
  "parse_script_body rec rec_tree sz version depth context_flags s =
     do {
       let s = (if depth = 0 then s\<lparr>key_expression_count := 0\<rparr> else s);
       (ws, s) \<leftarrow> parse_wrappers sz context_flags s;
       (token, s) \<leftarrow> on_in parse_token s;
       if \<not> sh_token_ok context_flags token then None
       else if \<not> sh_wsh_token_ok depth context_flags token then None
       else do {
         let has_parentheses = (token \<noteq> TOKEN_0 \<and> token \<noteq> TOKEN_1);
         s \<leftarrow> consume_if has_parentheses CHR ''('' s;
         (node, s) \<leftarrow> parse_node rec rec_tree sz version depth context_flags token s;
         s \<leftarrow> consume_if has_parentheses CHR '')'' s;
         if depth = 0 \<and> buffer_can_read (in_buf s) 1 then None
         else do {
           node \<leftarrow> apply_wrappers context_flags ws node;
           Some (node, s) }}}"

definition parse_tree_body ::
    "(nat \<Rightarrow> u32 \<Rightarrow> script_parser) \<Rightarrow> (nat \<Rightarrow> tree_parser) \<Rightarrow> struct_sizes \<Rightarrow> nat \<Rightarrow> tree_parser" where
  "parse_tree_body rec rec_tree sz depth s =
     (if depth > MAX_TAPTREE_POLICY_DEPTH then None
      else if \<not> buffer_is_cur_aligned (out_buf s) then None
      else do {
        s \<leftarrow> alloc (sz_tree sz) s;
        c \<leftarrow> buffer_peek (in_buf s);
        if c \<noteq> ascii CHR ''{'' then do {
          (x, s) \<leftarrow> rec (depth + 1) CONTEXT_WITHIN_TR (align_out s);
          Some (Tree_leaf x, s) }
        else do {
          let s = s\<lparr>in_buf := advance (in_buf s) 1\<rparr>;
          (l, s) \<leftarrow> rec_tree (depth + 1) (align_out s);
          s \<leftarrow> consume CHR '','' s;
          (r, s) \<leftarrow> rec_tree (depth + 1) (align_out s);
          s \<leftarrow> consume CHR ''}'' s;
          Some (Tree_node l r, s) }})"

fun parse_script :: "nat \<Rightarrow> struct_sizes \<Rightarrow> int \<Rightarrow> nat \<Rightarrow> u32 \<Rightarrow> script_parser"
  and parse_tree :: "nat \<Rightarrow> struct_sizes \<Rightarrow> int \<Rightarrow> nat \<Rightarrow> tree_parser" where
  "parse_script 0 sz version depth context_flags s = None"
| "parse_script (Suc fuel) sz version depth context_flags s =
     parse_script_body (parse_script fuel sz version) (parse_tree fuel sz version)
       sz version depth context_flags s"
| "parse_tree 0 sz version depth s = None"
| "parse_tree (Suc fuel) sz version depth s =
     parse_tree_body (parse_script fuel sz version) (parse_tree fuel sz version) sz depth s"

text \<open>\<open>out\<close> is the address of the output area and \<open>mem\<close> the bytes found there.  The result is the
  number of bytes used with the tree, and the input buffer as the parser leaves it.\<close>

definition parse_descriptor_template ::
    "struct_sizes \<Rightarrow> buffer_t \<Rightarrow> u32 \<Rightarrow> bytes \<Rightarrow> size_t \<Rightarrow> int \<Rightarrow>
     ((size_t \<times> policy_node) \<times> buffer_t) option" where
  "parse_descriptor_template sz b out mem out_len version =
     (if out mod 4 \<noteq> 0 then None
      else if version \<noteq> WALLET_POLICY_VERSION_V1 \<and> version \<noteq> WALLET_POLICY_VERSION_V2 then None
      else do {
        let s = \<lparr>in_buf = b, out_buf = buffer_create out mem out_len, key_expression_count = 0\<rparr>;
        (node, s) \<leftarrow> parse_script (Suc (2 * bytes_left b)) sz version 0 0 s;
        Some ((buf_offset (out_buf s), node), in_buf s) })"

end
