(* ===== verification/Dispatcher.thy ===== *)
theory Dispatcher
  imports Buffer
begin

text \<open>
  The exchange of messages with the host: the response buffer of \<^verbatim>\<open>src/src/boilerplate/io.c\<close>, the
  APDU parser of \<^verbatim>\<open>src/src/boilerplate/apdu_parser.c\<close> and the dispatcher of
  \<^verbatim>\<open>src/src/boilerplate/dispatcher.c\<close>.

  The record \<open>dispatcher_context_t\<close> holds what these files keep in global variables.  The host is
  the list \<open>incoming\<close> of the APDUs it is going to send, about which nothing is assumed; an exchange
  fails when the list is empty.  \<open>sent\<close> are the messages sent to the host so far.  \<open>apdu_buffer\<close> is
  \<open>G_io_apdu_buffer\<close>: responses are written and APDUs are received there, so the bytes behind a
  received APDU are left over from before.  \<open>hashed\<close> is a ghost variable, which no computation reads: the byte strings that
  have been hashed, last first.  The user interface and the timeouts are left out.

  A command that runs on this state is an \<open>'a client\<close>.  It answers a value, or a negative error
  code as in C; \<open>Fault\<close> is an access outside of an object and \<open>Hang\<close> a loop that never ends.
\<close>

section \<open>Commands\<close>

record command_t =
  cmd_cla :: u8
  cmd_ins :: u8
  cmd_p1 :: u8
  cmd_p2 :: u8
  cmd_lc :: u8
  cmd_data :: bytes

record dispatcher_context_t =
  apdu_buffer :: bytes
  output_len :: u16
  status_word :: u16
  read_buffer :: buffer_t
  incoming :: "bytes list"
  sent :: "bytes list"
  hashed :: "bytes list"

datatype 'a reply = Ok 'a | Err int | Fault | Hang

type_synonym 'a client = "dispatcher_context_t \<Rightarrow> 'a reply \<times> dispatcher_context_t"

definition and_then :: "'a client \<Rightarrow> ('a \<Rightarrow> 'b client) \<Rightarrow> 'b client" where
  "and_then m f dc = (case m dc of
      (Ok x, dc) \<Rightarrow> f x dc | (Err e, dc) \<Rightarrow> (Err e, dc) | (Fault, dc) \<Rightarrow> (Fault, dc) | (Hang, dc) \<Rightarrow> (Hang, dc))"

text \<open>\<open>if (m < 0) return e\<close>\<close>

definition or_return :: "'a client \<Rightarrow> int \<Rightarrow> 'a client" where
  "or_return m e dc = (case m dc of (Err _, dc) \<Rightarrow> (Err e, dc) | r \<Rightarrow> r)"

text \<open>\<open>if (!b) return e\<close>\<close>

definition require :: "bool \<Rightarrow> int \<Rightarrow> unit client" where
  "require b e dc = (if b then Ok () else Err e, dc)"

definition value_of :: "'a \<Rightarrow> 'a client" where
  "value_of x dc = (Ok x, dc)"

text \<open>Reading from \<open>dc->read_buffer\<close>.\<close>

definition with_read_buffer :: "(buffer_t \<Rightarrow> ('a \<times> buffer_t) option) \<Rightarrow> 'a client" where
  "with_read_buffer f dc = (case f (read_buffer dc) of
      None \<Rightarrow> (Err (- 1), dc) | Some (x, b) \<Rightarrow> (Ok x, dc\<lparr>read_buffer := b\<rparr>))"

definition effect :: "(dispatcher_context_t \<Rightarrow> dispatcher_context_t option) \<Rightarrow> unit client" where
  "effect f dc = (case f dc of None \<Rightarrow> (Fault, dc) | Some dc \<Rightarrow> (Ok (), dc))"

definition note_hashed :: "bytes \<Rightarrow> dispatcher_context_t \<Rightarrow> dispatcher_context_t" where
  "note_hashed x dc = dc\<lparr>hashed := x # hashed dc\<rparr>"

section \<open>io.c\<close>

abbreviation (input) IO_APDU_BUFFER_SIZE :: nat where "IO_APDU_BUFFER_SIZE \<equiv> 260"
abbreviation (input) SW_INCORRECT_DATA :: u16 where "SW_INCORRECT_DATA \<equiv> 0x6A80"
abbreviation (input) SW_WRONG_P1P2 :: u16 where "SW_WRONG_P1P2 \<equiv> 0x6A86"
abbreviation (input) SW_WRONG_DATA_LENGTH :: u16 where "SW_WRONG_DATA_LENGTH \<equiv> 0x6A87"
abbreviation (input) SW_INS_NOT_SUPPORTED :: u16 where "SW_INS_NOT_SUPPORTED \<equiv> 0x6D00"
abbreviation (input) SW_CLA_NOT_SUPPORTED :: u16 where "SW_CLA_NOT_SUPPORTED \<equiv> 0x6E00"
abbreviation (input) SW_WRONG_RESPONSE_LENGTH :: u16 where "SW_WRONG_RESPONSE_LENGTH \<equiv> 0xB000"
abbreviation (input) SW_BAD_STATE :: u16 where "SW_BAD_STATE \<equiv> 0xB007"
abbreviation (input) SW_INTERRUPTED_EXECUTION :: u16 where "SW_INTERRUPTED_EXECUTION \<equiv> 0xE000"
abbreviation (input) CLA_FRAMEWORK :: u8 where "CLA_FRAMEWORK \<equiv> 0xF8"
abbreviation (input) INS_CONTINUE :: u8 where "INS_CONTINUE \<equiv> 0x01"
abbreviation (input) CURRENT_PROTOCOL_VERSION :: u8 where "CURRENT_PROTOCOL_VERSION \<equiv> 1"

definition io_finalize_response :: "u16 \<Rightarrow> dispatcher_context_t \<Rightarrow> dispatcher_context_t option" where
  "io_finalize_response sw dc =
     (if output_len dc \<ge> 258 then do {
        m \<leftarrow> write_u16_be (apdu_buffer dc) 258 SW_WRONG_RESPONSE_LENGTH;
        Some (dc\<lparr>output_len := 260, apdu_buffer := m\<rparr>) }
      else do {
        m \<leftarrow> write_u16_be (apdu_buffer dc) (ucast (output_len dc)) sw;
        Some (dc\<lparr>apdu_buffer := m, output_len := output_len dc + 2\<rparr>) })"

text \<open>\<open>rdata\<close> are the bytes at the address given, which may be less than \<open>rdata_len\<close>.  The recursive
  call can repeat forever.\<close>

partial_function (option) io_add_to_response ::
    "bytes \<Rightarrow> size_t \<Rightarrow> dispatcher_context_t \<Rightarrow> dispatcher_context_t option" where
  "io_add_to_response rdata rdata_len dc =
     (if output_len dc \<ge> 258 then do {
        m \<leftarrow> write_u16_be (apdu_buffer dc) 258 SW_WRONG_RESPONSE_LENGTH;
        Some (dc\<lparr>output_len := 260, apdu_buffer := m\<rparr>) }
      else if ucast (output_len dc) + rdata_len > 258 then do {
        dc \<leftarrow> io_add_to_response rdata (258 - rdata_len) dc;
        io_finalize_response SW_WRONG_RESPONSE_LENGTH dc }
      else do {
        data \<leftarrow> mem_read rdata 0 rdata_len;
        m \<leftarrow> mem_write (apdu_buffer dc) (ucast (output_len dc)) data;
        Some (dc\<lparr>apdu_buffer := m, output_len := output_len dc + ucast rdata_len\<rparr>) })"

text \<open>Sending the first \<open>output_len\<close> bytes of the buffer.\<close>

definition io_confirm_response :: "dispatcher_context_t \<Rightarrow> dispatcher_context_t" where
  "io_confirm_response dc =
     dc\<lparr>sent := sent dc @ [take (unat (output_len dc)) (apdu_buffer dc)], output_len := 0\<rparr>"

definition io_send_sw :: "u16 \<Rightarrow> dispatcher_context_t \<Rightarrow> dispatcher_context_t option" where
  "io_send_sw sw dc = map_option io_confirm_response (io_finalize_response sw (dc\<lparr>output_len := 0\<rparr>))"

section \<open>apdu\_parser.c\<close>

definition apdu_parser :: "bytes \<Rightarrow> size_t \<Rightarrow> command_t option" where
  "apdu_parser buf buf_len =
     (if buf_len < 5 then None
      else do {
        lc \<leftarrow> rd buf 4;
        if buf_len - 5 \<noteq> ucast lc then None
        else do {
          cla \<leftarrow> rd buf 0; ins \<leftarrow> rd buf 1; p1 \<leftarrow> rd buf 2; p2 \<leftarrow> rd buf 3;
          Some \<lparr>cmd_cla = cla, cmd_ins = ins, cmd_p1 = p1, cmd_p2 = p2, cmd_lc = lc,
                cmd_data = (if lc > 0 then drop 5 buf else [])\<rparr> } })"

section \<open>dispatcher.c\<close>

definition add_to_response :: "bytes \<Rightarrow> unit client" where
  "add_to_response rdata = effect (io_add_to_response rdata (word_of_nat (length rdata)))"

definition finalize_response :: "u16 \<Rightarrow> unit client" where
  "finalize_response sw = effect (\<lambda>dc. io_finalize_response sw (dc\<lparr>status_word := sw\<rparr>))"

definition send_response :: "unit client" where
  "send_response = effect (Some \<circ> io_confirm_response)"

definition SEND_SW :: "u16 \<Rightarrow> unit client" where
  "SEND_SW sw = and_then (finalize_response sw) (\<lambda>_. send_response)"

definition SET_RESPONSE :: "bytes \<Rightarrow> u16 \<Rightarrow> unit client" where
  "SET_RESPONSE rdata sw = and_then (add_to_response rdata) (\<lambda>_. finalize_response sw)"

definition SEND_RESPONSE :: "bytes \<Rightarrow> u16 \<Rightarrow> unit client" where
  "SEND_RESPONSE rdata sw = and_then (SET_RESPONSE rdata sw) (\<lambda>_. send_response)"

text \<open>The host receives the pending response and answers with its next APDU; \<open>io_exchange\<close> receives
  at most as many bytes as the buffer has.\<close>

definition io_exchange :: "size_t client" where
  "io_exchange dc = (case incoming dc of
      [] \<Rightarrow> (Err (- 1), dc)
    | apdu # rest \<Rightarrow>
        let received = take IO_APDU_BUFFER_SIZE apdu in
        (Ok (word_of_nat (length received)),
         dc\<lparr>sent := sent dc @ [take (unat (output_len dc)) (apdu_buffer dc)],
            apdu_buffer := received @ drop (length received) (apdu_buffer dc), incoming := rest\<rparr>))"

definition process_interruption :: "unit client" where
  "process_interruption =
     and_then io_exchange (\<lambda>input_len dc.
       let dc = dc\<lparr>output_len := 0, status_word := 0\<rparr> in
       case apdu_parser (apdu_buffer dc) input_len of
         None \<Rightarrow> and_then (SEND_SW SW_WRONG_DATA_LENGTH) (\<lambda>_ dc. (Err (- 1), dc)) dc
       | Some cmd \<Rightarrow>
           if cmd_cla cmd \<noteq> CLA_FRAMEWORK \<or> cmd_ins cmd \<noteq> INS_CONTINUE
           then and_then (SEND_SW SW_INCORRECT_DATA) (\<lambda>_ dc. (Err (- 1), dc)) dc
           else (Ok (), dc\<lparr>read_buffer := buffer_create 0 (cmd_data cmd) (ucast (cmd_lc cmd))\<rparr>))"

record command_descriptor_t =
  desc_handler :: "u8 \<Rightarrow> dispatcher_context_t \<Rightarrow> dispatcher_context_t"
  desc_cla :: u8
  desc_ins :: u8

text \<open>The loop over the table: whether the class was found, and the handler.\<close>

fun find_handler :: "command_descriptor_t list \<Rightarrow> u8 \<Rightarrow> u8 \<Rightarrow> bool \<times> (u8 \<Rightarrow> dispatcher_context_t \<Rightarrow> dispatcher_context_t) option"
  where
  "find_handler [] cla ins = (False, None)"
| "find_handler (d # ds) cla ins =
     (if desc_cla d \<noteq> cla then find_handler ds cla ins
      else if desc_ins d \<noteq> ins then (True, snd (find_handler ds cla ins))
      else (True, Some (desc_handler d)))"

definition apdu_dispatcher ::
    "command_descriptor_t list \<Rightarrow> command_t \<Rightarrow> dispatcher_context_t \<Rightarrow> dispatcher_context_t option" where
  "apdu_dispatcher cmd_descriptors cmd dc =
     (let dc = dc\<lparr>status_word := 0,
                 read_buffer := buffer_create 0 (cmd_data cmd) (ucast (cmd_lc cmd))\<rparr> in
      if cmd_p2 cmd > CURRENT_PROTOCOL_VERSION then io_send_sw SW_WRONG_P1P2 dc
      else if cmd_cla cmd = CLA_FRAMEWORK \<and> cmd_ins cmd = INS_CONTINUE then io_send_sw SW_BAD_STATE dc
      else case find_handler cmd_descriptors (cmd_cla cmd) (cmd_ins cmd) of
          (False, _) \<Rightarrow> io_send_sw SW_CLA_NOT_SUPPORTED dc
        | (True, None) \<Rightarrow> io_send_sw SW_INS_NOT_SUPPORTED dc
        | (True, Some handler) \<Rightarrow>
            let dc = handler (cmd_p2 cmd) dc in
            if status_word dc = 0 then io_send_sw SW_BAD_STATE dc else Some dc)"

section \<open>Successful runs\<close>

lemma and_thenE:
  assumes "and_then m f dc = (Ok y, dc')"
  obtains x dc1 where "m dc = (Ok x, dc1)" and "f x dc1 = (Ok y, dc')"
  using assms by (auto simp: and_then_def split: prod.splits reply.splits)

lemma and_then_Ok: "m dc = (Ok x, dc1) \<Longrightarrow> and_then m f dc = f x dc1"
  by (simp add: and_then_def)

lemma or_return_Ok_iff [simp]: "or_return m e dc = (Ok x, dc') \<longleftrightarrow> m dc = (Ok x, dc')"
  by (auto simp: or_return_def split: prod.splits reply.splits)

lemma require_Ok_iff [simp]: "require b e dc = (Ok u, dc') \<longleftrightarrow> b \<and> dc' = dc"
  by (auto simp: require_def)

lemma value_of_Ok_iff [simp]: "value_of x dc = (Ok y, dc') \<longleftrightarrow> y = x \<and> dc' = dc"
  by (auto simp: value_of_def)

lemma with_read_buffer_Ok_iff [simp]:
  "with_read_buffer f dc = (Ok x, dc') \<longleftrightarrow>
     (\<exists>b. f (read_buffer dc) = Some (x, b) \<and> dc' = dc\<lparr>read_buffer := b\<rparr>)"
  by (auto simp: with_read_buffer_def split: option.splits)

lemma effect_Ok_iff [simp]: "effect f dc = (Ok u, dc') \<longleftrightarrow> f dc = Some dc'"
  by (auto simp: effect_def split: option.splits)

section \<open>What the exchanges keep\<close>

lemma io_finalize_response_keeps:
  "io_finalize_response sw dc = Some dc' \<Longrightarrow> hashed dc' = hashed dc \<and> incoming dc' = incoming dc
     \<and> length (apdu_buffer dc') = length (apdu_buffer dc)"
  by (auto simp: io_finalize_response_def bytes_defs split: if_splits elim!: bind_SomeE dest!: length_wr)

lemma io_add_to_response_keeps:
  "io_add_to_response rdata n dc = Some dc' \<Longrightarrow> hashed dc' = hashed dc \<and> incoming dc' = incoming dc
     \<and> length (apdu_buffer dc') = length (apdu_buffer dc)"
proof (rule io_add_to_response.raw_induct
    [of "\<lambda>rdata n dc dc'. hashed dc' = hashed dc \<and> incoming dc' = incoming dc
      \<and> length (apdu_buffer dc') = length (apdu_buffer dc)"])
  fix f :: "bytes \<Rightarrow> size_t \<Rightarrow> dispatcher_context_t \<Rightarrow> dispatcher_context_t option"
    and rdata n dc dc'
  assume IH: "\<And>rdata n dc dc'. f rdata n dc = Some dc' \<Longrightarrow> hashed dc' = hashed dc \<and> incoming dc' = incoming dc
      \<and> length (apdu_buffer dc') = length (apdu_buffer dc)"
    and "(if 258 \<le> output_len dc then do {
            m \<leftarrow> write_u16_be (apdu_buffer dc) 258 SW_WRONG_RESPONSE_LENGTH;
            Some (dc\<lparr>output_len := 260, apdu_buffer := m\<rparr>) }
          else if 258 < ucast (output_len dc) + n then do {
            dc \<leftarrow> f rdata (258 - n) dc;
            io_finalize_response SW_WRONG_RESPONSE_LENGTH dc }
          else do {
            data \<leftarrow> mem_read rdata 0 n;
            m \<leftarrow> mem_write (apdu_buffer dc) (ucast (output_len dc)) data;
            Some (dc\<lparr>apdu_buffer := m, output_len := output_len dc + ucast n\<rparr>) }) = Some dc'"
  then show "hashed dc' = hashed dc \<and> incoming dc' = incoming dc
     \<and> length (apdu_buffer dc') = length (apdu_buffer dc)"
    by (auto simp: bytes_defs mem_write_def split: if_splits elim!: bind_SomeE
        dest!: IH io_finalize_response_keeps length_wr)
qed

lemma add_to_response_keeps:
  "add_to_response rdata dc = (Ok u, dc') \<Longrightarrow> hashed dc' = hashed dc \<and> incoming dc' = incoming dc
     \<and> length (apdu_buffer dc') = length (apdu_buffer dc)"
  by (simp add: add_to_response_def io_add_to_response_keeps)

lemma finalize_response_keeps:
  "finalize_response sw dc = (Ok u, dc') \<Longrightarrow> hashed dc' = hashed dc \<and> incoming dc' = incoming dc
     \<and> length (apdu_buffer dc') = length (apdu_buffer dc)"
  by (auto simp: finalize_response_def dest: io_finalize_response_keeps)

lemma SET_RESPONSE_keeps:
  "SET_RESPONSE rdata sw dc = (Ok u, dc') \<Longrightarrow> hashed dc' = hashed dc \<and> incoming dc' = incoming dc
     \<and> length (apdu_buffer dc') = length (apdu_buffer dc)"
  by (auto simp: SET_RESPONSE_def elim!: and_thenE dest!: add_to_response_keeps finalize_response_keeps)

lemma apdu_parser_Some:
  assumes "apdu_parser buf n = Some cmd" and "unat n \<le> length buf"
  shows "unat (cmd_lc cmd) = unat n - 5" and "unat (cmd_lc cmd) \<le> length (cmd_data cmd)"
    and "take (unat (cmd_lc cmd)) (cmd_data cmd) = take (unat n - 5) (drop 5 buf)"
proof -
  from assms(1) have n: "5 \<le> n" "n - 5 = ucast (cmd_lc cmd)"
    "cmd_data cmd = (if cmd_lc cmd > 0 then drop 5 buf else [])"
    by (auto simp: apdu_parser_def not_less split: if_splits elim!: bind_SomeE)
  have "unat (ucast (cmd_lc cmd) :: size_t) = unat n - 5"
    using n by (simp add: unat_sub flip: n(2))
  then show l: "unat (cmd_lc cmd) = unat n - 5"
    by (simp add: unsigned_ucast_eq take_bit_nat_eq_self unat_u8_bound
        less_trans [OF unat_u8_bound])
  show "unat (cmd_lc cmd) \<le> length (cmd_data cmd)"
    "take (unat (cmd_lc cmd)) (cmd_data cmd) = take (unat n - 5) (drop 5 buf)"
    using l n(3) assms(2) by (auto simp: word_greater_zero_iff)
qed

text \<open>After an interruption the read buffer holds the data of the next APDU of the host.\<close>

lemma process_interruption_Ok:
  assumes "process_interruption dc = (Ok u, dc')"
  obtains apdu rest where "incoming dc = apdu # rest" and "incoming dc' = rest"
    and "hashed dc' = hashed dc" and "output_len dc' = 0"
    and "buffer_ok (read_buffer dc')" and "buf_offset (read_buffer dc') = 0"
    and "unat (buf_size (read_buffer dc')) \<le> 255"
    and "buf_mem (read_buffer dc') = [] \<or> buf_mem (read_buffer dc') = drop 5 (apdu_buffer dc')"
    and "buf_rest (read_buffer dc') = drop 5 (take 260 apdu)"
    and "apdu_buffer dc' = take 260 apdu @ drop (length (take 260 apdu)) (apdu_buffer dc)"
proof -
  from assms obtain n dc1 where io: "io_exchange dc = (Ok n, dc1)"
    and k: "apdu_parser (apdu_buffer dc1) n \<noteq> None"
    and dc': "dc' = dc1\<lparr>output_len := 0, status_word := 0,
      read_buffer := buffer_create 0 (cmd_data (the (apdu_parser (apdu_buffer dc1) n)))
        (ucast (cmd_lc (the (apdu_parser (apdu_buffer dc1) n))))\<rparr>"
    by (auto simp: process_interruption_def Let_def split: option.splits if_splits elim!: and_thenE)
  from k obtain cmd where cmd: "apdu_parser (apdu_buffer dc1) n = Some cmd"
    by auto
  from io obtain apdu rest where inc: "incoming dc = apdu # rest"
    and n: "n = word_of_nat (length (take 260 apdu))"
    and dc1: "dc1 = dc\<lparr>sent := sent dc @ [take (unat (output_len dc)) (apdu_buffer dc)],
            apdu_buffer := take 260 apdu @ drop (length (take 260 apdu)) (apdu_buffer dc), incoming := rest\<rparr>"
    by (auto simp: io_exchange_def Let_def split: list.splits)
  have un: "unat n = length (take 260 apdu)"
    unfolding n by (rule unat_of_nat_u32) simp
  note p = apdu_parser_Some [OF cmd]
  have le: "unat n \<le> length (apdu_buffer dc1)"
    by (simp add: un dc1)
  have lc: "unat (ucast (cmd_lc cmd) :: size_t) = unat (cmd_lc cmd)"
    by (simp add: unsigned_ucast_eq take_bit_nat_eq_self less_trans [OF unat_u8_bound])
  have rb: "read_buffer dc' = buffer_create 0 (cmd_data cmd) (ucast (cmd_lc cmd))"
    by (simp add: dc' cmd)
  have "take (unat n) (apdu_buffer dc1) = take 260 apdu"
    unfolding un by (simp add: dc1 min_def)
  moreover have "take (unat n - 5) (drop 5 (apdu_buffer dc1)) = drop 5 (take (unat n) (apdu_buffer dc1))"
    by (simp add: drop_take)
  ultimately have "buf_rest (read_buffer dc') = drop 5 (take 260 apdu)"
    using p(3) [OF le] by (simp add: rb buf_rest_def buffer_create_def lc)
  note rest = this
  show thesis
  proof (rule that [OF inc])
    show "buffer_ok (read_buffer dc')"
      using p(2) [OF le] by (simp add: rb buffer_create_def buffer_ok_def lc)
    show "unat (buf_size (read_buffer dc')) \<le> 255"
      using unat_u8_bound [of "cmd_lc cmd"] by (simp add: rb buffer_create_def lc)
    show "buf_mem (read_buffer dc') = [] \<or> buf_mem (read_buffer dc') = drop 5 (apdu_buffer dc')"
      using cmd by (auto simp: rb buffer_create_def apdu_parser_def dc' split: if_splits elim!: bind_SomeE)
    show "buf_offset (read_buffer dc') = 0"
      by (simp add: rb buffer_create_def)
  qed (use rest in \<open>simp_all add: dc' dc1\<close>)
qed

lemma process_interruption_keeps:
  assumes "process_interruption dc = (Ok u, dc')"
  shows "hashed dc' = hashed dc \<and> length (incoming dc) = Suc (length (incoming dc')) \<and> buffer_ok (read_buffer dc')
    \<and> (length (apdu_buffer dc) = 260 \<longrightarrow>
         length (apdu_buffer dc') = 260 \<and> length (buf_mem (read_buffer dc')) \<le> 255)"
  using assms by (rule process_interruption_Ok) auto

end
