(* ===== verification/Merkle.thy ===== *)
theory Merkle
  imports Buffer
begin

text \<open>
  Merkle trees: \<^verbatim>\<open>src/src/common/merkle.h\<close> and \<^verbatim>\<open>src/src/common/merkle.c\<close>.  SHA-256 is the
  parameter \<open>sha256\<close>.  The two loops can run forever, so they are partial functions and \<open>None\<close>
  means that they do not return.  The second half relates the directions that the code computes to
  the paths of the tree over a list of hashes (\<open>tree_root\<close>, the shape of RFC 6962) and shows that
  proofs along a path are binding.
\<close>

section \<open>merkle.h and merkle.c\<close>

definition merkle_compute_element_hash :: "(bytes \<Rightarrow> bytes) \<Rightarrow> bytes \<Rightarrow> bytes" where
  "merkle_compute_element_hash sha256 x = sha256 (0x00 # x)"

definition merkle_combine_hashes :: "(bytes \<Rightarrow> bytes) \<Rightarrow> bytes \<Rightarrow> bytes \<Rightarrow> bytes" where
  "merkle_combine_hashes sha256 left right = sha256 (0x01 # left @ right)"

partial_function (option) ceil_lg_loop :: "u32 \<Rightarrow> u8 \<Rightarrow> u32 \<Rightarrow> u8 option" where
  "ceil_lg_loop n r t = (if t < n then ceil_lg_loop n (r + 1) (2 * t) else Some r)"

definition ceil_lg :: "u32 \<Rightarrow> u8 option" where
  "ceil_lg n = ceil_lg_loop n 0 1"

partial_function (option) direction_loop :: "size_t \<Rightarrow> size_t \<Rightarrow> size_t \<Rightarrow> u8 \<Rightarrow> int option" where
  "direction_loop sz index i n_directions =
     (if sz > 1 then do {
        depth \<leftarrow> ceil_lg sz;
        let mask = push_bit (unat (depth - 1)) 1;
        let is_right_child = index AND mask \<noteq> 0;
        if ucast n_directions = i then Some (if is_right_child then 1 else 0)
        else if is_right_child then direction_loop (sz - mask) (index - mask) i (n_directions + 1)
        else direction_loop mask index i (n_directions + 1) }
      else Some (- 1))"

definition merkle_get_ith_direction :: "size_t \<Rightarrow> size_t \<Rightarrow> size_t \<Rightarrow> int option" where
  "merkle_get_ith_direction sz index i =
     (if sz \<le> 1 \<or> index \<ge> sz then Some (- 1) else direction_loop sz index i 0)"

section \<open>The tree\<close>

text \<open>\<open>half n\<close>, the number of leaves of the left subtree of a tree with \<open>n\<close> leaves, is the largest power
  of two less than \<open>n\<close>; \<open>path n i\<close> are the turns from the root to leaf \<open>i\<close>, \<open>True\<close> for right.\<close>

fun half :: "nat \<Rightarrow> nat" where
  "half n = (if n \<le> 2 then 1 else 2 * half ((n + 1) div 2))"

declare half.simps [simp del]

lemma half_power: "\<exists>k. half n = 2 ^ k"
proof (induction n rule: half.induct)
  case (1 n)
  show ?case
  proof (cases "n \<le> 2")
    case True
    then show ?thesis
      by (auto simp: half.simps [of n] intro: exI [of _ 0])
  next
    case False
    with 1 obtain k where "half ((n + 1) div 2) = 2 ^ k"
      by auto
    with False show ?thesis
      by (auto simp: half.simps [of n] intro: exI [of _ "Suc k"])
  qed
qed

lemma half_bounds: "2 \<le> n \<Longrightarrow> half n < n \<and> n \<le> 2 * half n"
proof (induction n rule: half.induct)
  case (1 n)
  show ?case
  proof (cases "n \<le> 2")
    case True
    with "1.prems" have "n = 2"
      by simp
    then show ?thesis
      by (simp add: half.simps [of 2])
  next
    case False
    define m where "m = (n + 1) div 2"
    have m: "2 * m \<le> n + 1" "n \<le> 2 * m" "2 \<le> m"
      using False by (auto simp: m_def)
    with 1 False have "half m < m" "m \<le> 2 * half m"
      by (simp_all add: m_def)
    moreover have "half n = 2 * half m"
      using False by (simp add: half.simps [of n] m_def)
    ultimately show ?thesis
      using m by linarith
  qed
qed

lemma half_pos: "0 < half n"
  using half_power [of n] by auto

lemma half_less [simp]: "Suc 0 < n \<Longrightarrow> half n < n" "Suc 0 < n \<Longrightarrow> n - half n < n"
  using half_bounds [of n] half_pos [of n] by simp_all

lemma half_Suc_less [simp]: "half (Suc (Suc n)) < Suc (Suc n)"
  by (rule half_less) simp

function path :: "nat \<Rightarrow> nat \<Rightarrow> bool list" where
  "path n i =
     (if n \<le> 1 then [] else if i < half n then False # path (half n) i
      else True # path (n - half n) (i - half n))"
  by pat_completeness auto
termination
  by (relation "measure fst") auto

declare path.simps [simp del]


lemma path_length: "n \<le> 2 ^ k \<Longrightarrow> length (path n i) \<le> k"
proof (induction n i arbitrary: k rule: path.induct)
  case (1 n i)
  show ?case
  proof (cases "n \<le> 1")
    case True
    then show ?thesis
      by (simp add: path.simps [of n])
  next
    case False
    then have b: "half n < n" "n \<le> 2 * half n"
      using half_bounds [of n] by auto
    obtain j where j: "half n = 2 ^ j"
      using half_power by blast
    have "(2::nat) ^ j < 2 ^ k"
      using b "1.prems" by (simp flip: j)
    then have "j < k"
      by simp
    then obtain k' where k: "k = Suc k'" "j \<le> k'"
      by (cases k) auto
    have "half n \<le> 2 ^ k'"
      using power_increasing [of j k' "2::nat"] k b by (simp add: j)
    moreover from this have "n - half n \<le> 2 ^ k'"
      using b by simp
    ultimately have "half n \<le> 2 ^ k'" "n - half n \<le> 2 ^ k'"
      by simp_all
    with 1 False k(1) show ?thesis
      by (simp add: path.simps [of n])
  qed
qed

section \<open>The directions\<close>

lemma unat_power2: "r < 32 \<Longrightarrow> unat (2 ^ r :: u32) = 2 ^ r"
proof -
  assume "r < 32"
  then have "(2::nat) ^ r < 2 ^ 32"
    by (intro power_strict_increasing) simp_all
  then have "unat (word_of_nat (2 ^ r) :: u32) = 2 ^ r"
    by (simp only: unat_of_nat) simp
  then show ?thesis
    by simp
qed

lemma ceil_lg_loop:
  assumes "r \<le> k" and "k \<le> 31" and "unat n \<le> 2 ^ k" and "\<And>j. j < k \<Longrightarrow> 2 ^ j < unat n"
  shows "ceil_lg_loop n (word_of_nat r) (2 ^ r) = Some (word_of_nat k)"
  using assms
proof (induction "k - r" arbitrary: r)
  case 0
  then show ?case
    by (subst ceil_lg_loop.simps) (simp add: word_less_nat_alt unat_power2)
next
  case (Suc d)
  then have r: "r < k"
    by simp
  have "ceil_lg_loop n (word_of_nat (Suc r)) (2 ^ Suc r) = Some (word_of_nat k)"
    using Suc r by (intro Suc.hyps) simp_all
  with Suc.prems(2) Suc.prems(4) [OF r] r show ?case
    by (subst ceil_lg_loop.simps) (simp add: word_less_nat_alt unat_power2 add.commute)
qed

lemma ceil_lg_half:
  assumes "1 < unat n" and "unat n \<le> 2 ^ 31"
  obtains k where "ceil_lg n = Some (word_of_nat (Suc k))" "half (unat n) = 2 ^ k" "k < 31"
proof -
  obtain k where k: "half (unat n) = 2 ^ k"
    using half_power by blast
  have b: "2 ^ k < unat n" "unat n \<le> 2 * 2 ^ k"
    using half_bounds [of "unat n"] assms by (simp_all flip: k)
  then have "(2::nat) ^ k < 2 ^ 31"
    using assms(2) by linarith
  then have k31: "k < 31"
    using power_strict_increasing_iff [of "2::nat" k 31] by simp
  have "ceil_lg n = Some (word_of_nat (Suc k))"
    unfolding ceil_lg_def
    using ceil_lg_loop [of 0 "Suc k" n] k31 b le_less_trans [OF power_increasing [of _ k "2::nat"] b(1)]
    by (simp add: less_Suc_eq_le)
  with k k31 that show thesis
    by blast
qed

definition direction_of :: "bool list \<Rightarrow> nat \<Rightarrow> int" where
  "direction_of p j = (if j < length p then if p ! j then 1 else 0 else - 1)"

lemma direction_of_Cons: "direction_of (b # p) (Suc j) = direction_of p j"
  by (simp add: direction_of_def)

lemma and_half:
  fixes index sz :: u32
  assumes "half (unat sz) = 2 ^ k" and "k < 31" and "1 < unat sz" and "unat index < unat sz"
  shows "index AND 2 ^ k \<noteq> 0 \<longleftrightarrow> \<not> unat index < half (unat sz)"
proof -
  have i: "unat index < 2 * 2 ^ k"
    using half_bounds [of "unat sz"] assms by simp
  have "index AND 2 ^ k \<noteq> 0 \<longleftrightarrow> bit index k"
    using assms(2) by (simp add: and_exp_eq_0_iff_not_bit)
  also have "\<dots> \<longleftrightarrow> bit (unat index) k"
    by (simp add: bit_unsigned_iff)
  also have "\<dots> \<longleftrightarrow> odd (unat index div 2 ^ k)"
    by (simp add: bit_iff_odd)
  also have "\<dots> \<longleftrightarrow> \<not> unat index < 2 ^ k"
  proof (cases "unat index < 2 ^ k")
    case False
    then have "unat index div 2 ^ k = 1"
      using i by (intro div_nat_eqI) simp_all
    with False show ?thesis
      by simp
  qed simp
  finally show ?thesis
    by (simp add: assms(1))
qed

lemma direction_loop_unfold:
  assumes "1 < unat sz" and "unat sz \<le> 2 ^ 31" and "unat index < unat sz"
  defines "m \<equiv> word_of_nat (half (unat sz)) :: u32"
  shows "direction_loop sz index i n =
      (if ucast n = i then Some (if unat index < half (unat sz) then 0 else 1)
       else if unat index < half (unat sz) then direction_loop m index i (n + 1)
       else direction_loop (sz - m) (index - m) i (n + 1))"
    and "unat m = half (unat sz)"
proof -
  obtain k where k: "ceil_lg sz = Some (word_of_nat (Suc k))" "half (unat sz) = 2 ^ k" "k < 31"
    using assms(1,2) by (rule ceil_lg_half)
  have d1: "unat (word_of_nat (Suc k) - 1 :: u8) = k"
    using k(3) by (simp add: unat_of_nat)
  have m: "m = 2 ^ k"
    by (simp add: m_def k(2))
  show "unat m = half (unat sz)"
    using k unat_power2 [of k] by (simp add: m)
  show "direction_loop sz index i n =
      (if ucast n = i then Some (if unat index < half (unat sz) then 0 else 1)
       else if unat index < half (unat sz) then direction_loop m index i (n + 1)
       else direction_loop (sz - m) (index - m) i (n + 1))"
    using k(1) d1 and_half [OF k(2,3) assms(1,3)] assms(1)
    by (subst direction_loop.simps) (simp add: word_less_nat_alt Let_def flip: m)
qed

lemma ucast_u8_eq: "n < 256 \<Longrightarrow> ucast (word_of_nat n :: u8) = (i :: u32) \<longleftrightarrow> n = unat i"
  by (simp add: word_unat_eq_iff unsigned_ucast_eq unat_of_nat take_bit_nat_eq_self)

lemma direction_loop:
  assumes "unat sz \<le> 2 ^ 31" and "unat index < unat sz" and "d \<le> unat i"
    and "d + length (path (unat sz) (unat index)) \<le> 255"
  shows "direction_loop sz index i (word_of_nat d) =
         Some (direction_of (path (unat sz) (unat index)) (unat i - d))"
  using assms
proof (induction "unat sz" "unat index" arbitrary: sz index d rule: path.induct)
  case 1
  show ?case
  proof (cases "1 < unat sz")
    case False
    then show ?thesis
      by (subst direction_loop.simps)
        (simp add: word_less_nat_alt path.simps [of "unat sz"] direction_of_def)
  next
    case True
    let ?h = "half (unat sz)"
    let ?mask = "word_of_nat ?h :: u32"
    note u = direction_loop_unfold [OF True "1.prems"(1,2)]
    have h: "?h < unat sz"
      using half_bounds [of "unat sz"] True by simp
    have p: "path (unat sz) (unat index) = (if unat index < ?h then False # path ?h (unat index)
         else True # path (unat sz - ?h) (unat index - ?h))"
      using True by (simp add: path.simps [of "unat sz"])
    have dl: "Suc d \<le> 255"
      using "1.prems"(4) p by (simp split: if_splits)
    then have ce: "ucast (word_of_nat d :: u8) = i \<longleftrightarrow> d = unat i"
      by (intro ucast_u8_eq) simp
    have diff: "unat (sz - ?mask) = unat sz - ?h"
        "\<not> unat index < ?h \<Longrightarrow> unat (index - ?mask) = unat index - ?h"
      using u(2) h by (simp_all add: unat_sub word_le_nat_alt)
    consider "d = unat i" | j where "unat i - d = Suc j" "unat i - Suc d = j" "Suc d \<le> unat i"
      using "1.prems"(3) by (metis Suc_diff_Suc le_neq_implies_less Suc_leI)
    then show ?thesis
    proof cases
      case 1
      then show ?thesis
        unfolding u(1) p ce by (simp add: direction_of_def)
    next
      case (2 j)
      have "direction_loop ?mask index i (word_of_nat (Suc d)) = Some (direction_of (path ?h (unat index)) j)"
        if "unat index < ?h"
        using "1.hyps"(1) [of ?mask index "Suc d"] "1.prems" True that 2 h p u(2) by simp
      moreover have "direction_loop (sz - ?mask) (index - ?mask) i (word_of_nat (Suc d)) =
          Some (direction_of (path (unat sz - ?h) (unat index - ?h)) j)" if "\<not> unat index < ?h"
        using "1.hyps"(2) [of "sz - ?mask" "index - ?mask" "Suc d"] "1.prems" True that 2 h p diff by simp
      ultimately show ?thesis
        unfolding u(1) p ce using 2 by (simp add: direction_of_Cons add.commute)
    qed
  qed
qed

lemma merkle_get_ith_direction:
  assumes "unat sz \<le> 2 ^ 31" and "unat index < unat sz"
  shows "merkle_get_ith_direction sz index i = Some (direction_of (path (unat sz) (unat index)) (unat i))"
proof (cases "unat sz \<le> 1")
  case True
  then show ?thesis
    by (simp add: merkle_get_ith_direction_def word_le_nat_alt path.simps [of "unat sz"] direction_of_def)
next
  case False
  have "length (path (unat sz) (unat index)) \<le> 31"
    using assms(1) by (rule path_length)
  then show ?thesis
    using direction_loop [OF assms, of 0 i] False assms(2)
    by (simp add: merkle_get_ith_direction_def word_le_nat_alt)
qed

text \<open>For more than \<open>2\<^sup>31\<close> leaves the loop of \<open>ceil_lg\<close> never ends: \<open>t\<close> wraps around to 0.\<close>

definition wraps_to_0 :: "u32 \<Rightarrow> bool" where
  "wraps_to_0 t \<longleftrightarrow> t = 0 \<or> (\<exists>j<32. t = 2 ^ j)"

lemma wraps_to_0_double:
  assumes "wraps_to_0 t"
  shows "wraps_to_0 (2 * t)" and "2 ^ 31 < unat n \<Longrightarrow> t < n"
proof -
  consider "t = 0" | "t = 2 ^ 31" | j where "j < 31" "t = 2 ^ j"
  proof -
    have "j < 31 \<or> j = 31" if "j < 32" for j :: nat
      using that by linarith
    then show ?thesis
      using assms that unfolding wraps_to_0_def by blast
  qed
  note cs = this
  then show "wraps_to_0 (2 * t)"
  proof cases
    case (3 j)
    then have "Suc j < 32" "2 * t = 2 ^ Suc j"
      by simp_all
    then show ?thesis
      unfolding wraps_to_0_def by blast
  qed (simp_all add: wraps_to_0_def)
  show "t < n" if "2 ^ 31 < unat n"
    using cs
  proof cases
    case (3 j)
    then show ?thesis
      using that power_strict_increasing [of j 31 "2::nat"] by (simp add: word_less_nat_alt unat_power2)
  qed (use that in \<open>auto simp: word_less_nat_alt\<close>)
qed

lemma ceil_lg_loop_diverges:
  assumes "ceil_lg_loop n r t = Some k"
  shows "wraps_to_0 t \<longrightarrow> unat n \<le> 2 ^ 31"
proof (rule ceil_lg_loop.raw_induct [of "\<lambda>n r t k. wraps_to_0 t \<longrightarrow> unat n \<le> 2 ^ 31", OF _ assms])
  fix f :: "u32 \<Rightarrow> u8 \<Rightarrow> u32 \<Rightarrow> u8 option" and n r t k
  assume IH: "\<And>n r t k. f n r t = Some k \<Longrightarrow> wraps_to_0 t \<longrightarrow> unat n \<le> 2 ^ 31"
    and f: "(if t < n then f n (r + 1) (2 * t) else Some r) = Some k"
  show "wraps_to_0 t \<longrightarrow> unat n \<le> 2 ^ 31"
  proof (rule impI, rule ccontr)
    assume w: "wraps_to_0 t" and "\<not> unat n \<le> 2 ^ 31"
    with IH [of n "r + 1" "2 * t" k] f wraps_to_0_double(1) [OF w] wraps_to_0_double(2) [OF w, of n] show False
      by simp
  qed
qed

lemma ceil_lg_diverges: "2 ^ 31 < unat n \<Longrightarrow> ceil_lg n = None"
  using ceil_lg_loop_diverges [of n 0 1] power_0 [of "2::u32"]
  by (cases "ceil_lg n") (force simp: ceil_lg_def wraps_to_0_def simp del: power_0)+

text \<open>C23: \<open>merkle_get_ith_direction\<close> answers the \<open>i\<close>-th turn on the path from the root to the leaf in a
  tree of the shape of RFC 6962, and -1 behind the end of the path or when there is no such leaf.
  It never returns for a tree of more than \<open>2\<^sup>31\<close> leaves.\<close>

theorem merkle_directions:
  "merkle_get_ith_direction sz index i =
     (if sz \<le> index then Some (- 1) else if 2 ^ 31 < unat sz then None
      else Some (direction_of (path (unat sz) (unat index)) (unat i)))"
proof -
  consider "sz \<le> index" | "unat index < unat sz" "2 ^ 31 < unat sz" | "unat index < unat sz" "unat sz \<le> 2 ^ 31"
    by (cases "sz \<le> index"; cases "unat sz \<le> 2 ^ 31") (auto simp: word_le_nat_alt)
  then show ?thesis
  proof cases
    case 2
    then have "1 < sz"
      by (simp add: word_less_nat_alt)
    with 2 show ?thesis
      by (subst merkle_get_ith_direction_def, subst direction_loop.simps)
        (simp add: ceil_lg_diverges word_le_nat_alt)
  next
    case 3
    then show ?thesis
      by (simp add: merkle_get_ith_direction word_le_nat_alt)
  qed (simp add: merkle_get_ith_direction_def)
qed

section \<open>Proofs\<close>

text \<open>Two different byte strings, one of each set, with the same hash.\<close>

definition collision :: "(bytes \<Rightarrow> bytes) \<Rightarrow> bytes set \<Rightarrow> bytes set \<Rightarrow> bool" where
  "collision sha256 A B \<longleftrightarrow> (\<exists>u\<in>A. \<exists>v\<in>B. u \<noteq> v \<and> sha256 u = sha256 v)"

lemma collision_mono: "collision sha256 A B \<Longrightarrow> A \<subseteq> A' \<Longrightarrow> B \<subseteq> B' \<Longrightarrow> collision sha256 A' B'"
  unfolding collision_def by blast

lemma collision_sym: "collision sha256 A B \<Longrightarrow> collision sha256 B A"
  unfolding collision_def by metis

lemma collisionI: "u \<in> A \<Longrightarrow> v \<in> B \<Longrightarrow> u \<noteq> v \<Longrightarrow> sha256 u = sha256 v \<Longrightarrow> collision sha256 A B"
  unfolding collision_def by blast

definition node_input :: "bool \<Rightarrow> bytes \<Rightarrow> bytes \<Rightarrow> bytes" where
  "node_input right s c = 0x01 # (if right then s @ c else c @ s)"

lemma node_input_eq_iff:
  "length s = length s' \<Longrightarrow> length c = length c' \<Longrightarrow>
     node_input d s c = node_input d s' c' \<longleftrightarrow> s = s' \<and> c = c'"
  by (auto simp: node_input_def)

text \<open>\<open>climb\<close> computes the hash of the root from the hash \<open>h\<close> of the node at the end of the path \<open>ds\<close>
  and the hashes of the siblings along it, from the root down; \<open>climb_inputs\<close> are the byte strings
  hashed on the way.\<close>

fun climb :: "(bytes \<Rightarrow> bytes) \<Rightarrow> bool list \<Rightarrow> bytes list \<Rightarrow> bytes \<Rightarrow> bytes" where
  "climb sha256 (d # ds) (s # ss) h = sha256 (node_input d s (climb sha256 ds ss h))"
| "climb sha256 _ _ h = h"

fun climb_inputs :: "(bytes \<Rightarrow> bytes) \<Rightarrow> bool list \<Rightarrow> bytes list \<Rightarrow> bytes \<Rightarrow> bytes list" where
  "climb_inputs sha256 (d # ds) (s # ss) h =
     node_input d s (climb sha256 ds ss h) # climb_inputs sha256 ds ss h"
| "climb_inputs sha256 _ _ h = []"

definition digests :: "bytes list \<Rightarrow> bool" where
  "digests hs \<longleftrightarrow> list_all (\<lambda>h. length h = 32) hs"

definition digest_size :: "(bytes \<Rightarrow> bytes) \<Rightarrow> bool" where
  "digest_size sha256 \<longleftrightarrow> (\<forall>x. length (sha256 x) = 32)"

lemma digests_simps [simp]:
  "digests []" "digests (h # hs) \<longleftrightarrow> length h = 32 \<and> digests hs"
  "digests (hs @ hs') \<longleftrightarrow> digests hs \<and> digests hs'" "digests (rev hs) \<longleftrightarrow> digests hs"
  by (auto simp: digests_def list_all_iff)

lemma digest_sizeD [simp]: "digest_size sha256 \<Longrightarrow> length (sha256 x) = 32"
  by (simp add: digest_size_def)

lemma length_climb [simp]: "digest_size sha256 \<Longrightarrow> length h = 32 \<Longrightarrow> length (climb sha256 ds ss h) = 32"
  by (induction sha256 ds ss h rule: climb.induct) simp_all

text \<open>A proof can be cut short, but not changed: two proofs of the same root along the same path
  agree, as long as the hash function does not collide on what they hash.\<close>

lemma climb_binding:
  assumes "digest_size sha256" and "length h = 32" and "length h' = 32"
    and "digests ss" and "digests ss'" and "length ss = length ds" and "length ss' = length (ds @ ds')"
    and "climb sha256 ds ss h = climb sha256 (ds @ ds') ss' h'"
    and "\<not> collision sha256 (set (climb_inputs sha256 ds ss h)) (set (climb_inputs sha256 (ds @ ds') ss' h'))"
  shows "h = climb sha256 ds' (drop (length ds) ss') h'"
  using assms
proof (induction ds arbitrary: ss ss')
  case Nil
  then show ?case
    by simp
next
  case (Cons d ds)
  from Cons.prems(6,7) obtain s ts s' ts' where ss: "ss = s # ts" "ss' = s' # ts'"
    by (auto simp: length_Suc_conv)
  let ?u = "node_input d s (climb sha256 ds ts h)"
  let ?v = "node_input d s' (climb sha256 (ds @ ds') ts' h')"
  have "sha256 ?u = sha256 ?v"
    using Cons.prems(8) ss by simp
  with Cons.prems(9) ss have "?u = ?v"
    by (auto simp: collision_def)
  moreover have "length s = length s'"
    "length (climb sha256 ds ts h) = length (climb sha256 (ds @ ds') ts' h')"
    using Cons.prems(1-5) ss by simp_all
  ultimately have "climb sha256 ds ts h = climb sha256 (ds @ ds') ts' h'"
    by (simp add: node_input_eq_iff)
  moreover have "\<not> collision sha256 (set (climb_inputs sha256 ds ts h))
      (set (climb_inputs sha256 (ds @ ds') ts' h'))"
    using Cons.prems(9) ss collision_mono [OF _ set_subset_Cons set_subset_Cons] by fastforce
  ultimately show ?case
    using Cons.IH [of ts ts'] Cons.prems(1-7) ss by simp
qed

section \<open>The tree of a list\<close>

function tree_root :: "(bytes \<Rightarrow> bytes) \<Rightarrow> bytes list \<Rightarrow> bytes" where
  "tree_root sha256 hs =
     (case hs of [] \<Rightarrow> replicate 32 0 | [h] \<Rightarrow> h
      | _ \<Rightarrow> merkle_combine_hashes sha256 (tree_root sha256 (take (half (length hs)) hs))
               (tree_root sha256 (drop (half (length hs)) hs)))"
  by pat_completeness auto
termination
  by (relation "measure (length \<circ> snd)") (auto simp: min_less_iff_disj half_pos)

declare tree_root.simps [simp del]

lemma tree_root_singleton [simp]: "tree_root sha256 [h] = h"
  by (simp add: tree_root.simps [of sha256 "[h]"])

lemma tree_root_split:
  assumes "1 < length hs"
  shows "tree_root sha256 hs =
     merkle_combine_hashes sha256 (tree_root sha256 (take (half (length hs)) hs))
       (tree_root sha256 (drop (half (length hs)) hs))"
proof -
  obtain a b xs where "hs = a # b # xs"
    using assms by (cases hs rule: remdups_adj.cases) auto
  then show ?thesis
    by (subst tree_root.simps) (simp only: list.case)
qed

function siblings :: "(bytes \<Rightarrow> bytes) \<Rightarrow> bytes list \<Rightarrow> nat \<Rightarrow> bytes list" where
  "siblings sha256 hs i =
     (if length hs \<le> 1 then []
      else if i < half (length hs)
      then tree_root sha256 (drop (half (length hs)) hs) # siblings sha256 (take (half (length hs)) hs) i
      else tree_root sha256 (take (half (length hs)) hs)
           # siblings sha256 (drop (half (length hs)) hs) (i - half (length hs)))"
  by pat_completeness auto
termination
  by (relation "measure (\<lambda>(_, hs, _). length hs)")
    (auto simp: min_less_iff_disj)

declare siblings.simps [simp del]

text \<open>The siblings along the path to leaf \<open>i\<close> are a proof for it.\<close>

lemma climb_siblings:
  "i < length hs \<Longrightarrow> climb sha256 (path (length hs) i) (siblings sha256 hs i) (hs ! i) = tree_root sha256 hs"
proof (induction sha256 hs i rule: siblings.induct)
  case (1 sha256 hs i)
  show ?case
  proof (cases "length hs \<le> 1")
    case True
    with "1.prems" obtain h where "hs = [h]"
      by (auto simp: le_Suc_eq length_Suc_conv)
    with "1.prems" show ?thesis
      by (simp add: path.simps [of 1] siblings.simps)
  next
    case False
    let ?k = "half (length hs)"
    have k: "?k < length hs" "1 < length hs"
      using False by simp_all
    show ?thesis
    proof (cases "i < ?k")
      case True
      then have "climb sha256 (path ?k i) (siblings sha256 (take ?k hs) i) (hs ! i) =
          tree_root sha256 (take ?k hs)"
        using 1(1) [OF False True] k by simp
      with True k show ?thesis
        by (simp add: path.simps [of "length hs"] siblings.simps [of sha256 hs] tree_root_split
            merkle_combine_hashes_def node_input_def)
    next
      case ge: False
      then have "climb sha256 (path (length hs - ?k) (i - ?k)) (siblings sha256 (drop ?k hs) (i - ?k)) (hs ! i) =
          tree_root sha256 (drop ?k hs)"
        using 1(2) [OF False ge] k "1.prems" by simp
      with ge k show ?thesis
        by (simp add: path.simps [of "length hs"] siblings.simps [of sha256 hs] tree_root_split
            merkle_combine_hashes_def node_input_def)
    qed
  qed
qed

lemma length_siblings: "i < length hs \<Longrightarrow> length (siblings sha256 hs i) = length (path (length hs) i)"
proof (induction sha256 hs i rule: siblings.induct)
  case (1 sha256 hs i)
  show ?case
  proof (cases "length hs \<le> 1")
    case True
    then show ?thesis
      by (simp add: path.simps [of "length hs"] siblings.simps [of sha256 hs])
  next
    case False
    let ?k = "half (length hs)"
    have "?k < length hs"
      using False by simp
    then have "length (siblings sha256 (take ?k hs) i) = length (path ?k i)" if "i < ?k"
      using 1(1) [OF False that] that by simp
    moreover have "length (siblings sha256 (drop ?k hs) (i - ?k)) = length (path (length hs - ?k) (i - ?k))"
      if "\<not> i < ?k"
      using 1(2) [OF False that] that "1.prems" by simp
    ultimately show ?thesis
      using False by (simp add: path.simps [of "length hs"] siblings.simps [of sha256 hs])
  qed
qed

lemma length_tree_root [simp]: "digest_size sha256 \<Longrightarrow> digests hs \<Longrightarrow> length (tree_root sha256 hs) = 32"
  by (subst tree_root.simps) (auto simp: merkle_combine_hashes_def split: list.splits)

lemma digests_siblings: "digest_size sha256 \<Longrightarrow> digests hs \<Longrightarrow> digests (siblings sha256 hs i)"
proof (induction sha256 hs i rule: siblings.induct)
  case (1 sha256 hs i)
  have "digests (take k hs)" "digests (drop k hs)" for k
    using "1.prems"(2) by (auto simp: digests_def list_all_iff dest: in_set_takeD in_set_dropD)
  with 1 show ?case
    by (simp add: siblings.simps [of sha256 hs])
qed

end
