(* ===== verification/Client.thy ===== *)
theory Client
  imports Dispatcher Merkle
begin

text \<open>
  The commands by which the device asks the untrusted host for data that it only knows a hash of,
  \<^verbatim>\<open>src/src/handler/lib/\<close>: preimages of hashes, leaves of Merkle trees with their proofs, and
  the key-value maps built from them.  Error codes are those of the C functions.  A C pointer into
  the response buffer is an offset into \<open>apdu_buffer\<close>.
\<close>

abbreviation (input) CCMD_GET_PREIMAGE :: u8 where "CCMD_GET_PREIMAGE \<equiv> 0x40"
abbreviation (input) CCMD_GET_MERKLE_LEAF_PROOF :: u8 where "CCMD_GET_MERKLE_LEAF_PROOF \<equiv> 0x41"
abbreviation (input) CCMD_GET_MERKLE_LEAF_INDEX :: u8 where "CCMD_GET_MERKLE_LEAF_INDEX \<equiv> 0x42"
abbreviation (input) CCMD_GET_MORE_ELEMENTS :: u8 where "CCMD_GET_MORE_ELEMENTS \<equiv> 0xA0"

definition varint_bytes :: "u64 \<Rightarrow> bytes" where
  "varint_bytes v = (case varint_write (replicate 9 0) 0 v of
      None \<Rightarrow> [] | Some (n, out) \<Rightarrow> take (unat n) out)"

text \<open>The conversion of a result to \<open>int\<close>, which callers take for an error when negative.\<close>

definition as_int :: "u64 \<Rightarrow> nat client" where
  "as_int v = (let i = sint (ucast v :: u32) in if i < 0 then (\<lambda>dc. (Err i, dc)) else value_of (nat i))"

definition can_read :: "size_t \<Rightarrow> int \<Rightarrow> unit client" where
  "can_read n e dc = require (buffer_can_read (read_buffer dc) n) e dc"

text \<open>The bytes at the cursor of the read buffer.\<close>

definition cur_bytes :: "size_t \<Rightarrow> bytes client" where
  "cur_bytes n dc = (case mem_read (buffer_get_cur (read_buffer dc)) 0 n of
      None \<Rightarrow> (Fault, dc) | Some x \<Rightarrow> (Ok x, dc))"

section \<open>get\_merkle\_leaf\_hash.c\<close>

definition combine_hashes :: "(bytes \<Rightarrow> bytes) \<Rightarrow> bytes \<Rightarrow> bytes \<Rightarrow> bytes client" where
  "combine_hashes sha256 left right dc =
     (Ok (merkle_combine_hashes sha256 left right), note_hashed (0x01 # left @ right) dc)"

text \<open>The \<open>for\<close> loop over the \<open>n\<close> hashes of one response.\<close>

primrec proof_steps ::
    "(bytes \<Rightarrow> bytes) \<Rightarrow> u32 \<Rightarrow> u32 \<Rightarrow> u8 \<Rightarrow> nat \<Rightarrow> nat \<Rightarrow> bytes \<Rightarrow> bytes client" where
  "proof_steps sha256 tree_size leaf_index proof_size 0 cur_step cur_hash = value_of cur_hash"
| "proof_steps sha256 tree_size leaf_index proof_size (Suc n) cur_step cur_hash =
     (case merkle_get_ith_direction tree_size leaf_index (ucast proof_size - word_of_nat cur_step - 1) of
        None \<Rightarrow> (\<lambda>dc. (Hang, dc))
      | Some direction \<Rightarrow>
          and_then (require (direction = 0 \<or> direction = 1) (- 1)) (\<lambda>_.
          and_then (cur_bytes 32) (\<lambda>sibling_hash.
          and_then (if direction = 0 then combine_hashes sha256 cur_hash sibling_hash
                    else combine_hashes sha256 sibling_hash cur_hash) (\<lambda>cur_hash.
          and_then (\<lambda>dc. (Ok (), dc\<lparr>read_buffer := advance (read_buffer dc) 32\<rparr>)) (\<lambda>_.
            proof_steps sha256 tree_size leaf_index proof_size n (Suc cur_step) cur_hash)))))"

definition more_proof_elements :: "u8 \<Rightarrow> nat \<Rightarrow> u8 client" where
  "more_proof_elements proof_size cur_step =
     and_then (SET_RESPONSE [CCMD_GET_MORE_ELEMENTS] SW_INTERRUPTED_EXECUTION) (\<lambda>_.
     and_then (or_return process_interruption (- 1)) (\<lambda>_.
     and_then (with_read_buffer buffer_read_u8) (\<lambda>n_proof_elements.
     and_then (with_read_buffer buffer_read_u8) (\<lambda>elements_len.
     and_then (can_read (ucast n_proof_elements * ucast elements_len) (- 1)) (\<lambda>_.
     and_then (require (elements_len = 32) (- 1)) (\<lambda>_.
     and_then (require (cur_step + unat n_proof_elements \<le> unat proof_size) (- 1)) (\<lambda>_.
       value_of n_proof_elements)))))))"

lemma proof_steps_keeps_incoming:
  "proof_steps sha256 sz i p n c h dc = (Ok x, dc') \<Longrightarrow> incoming dc' = incoming dc"
  by (induction n arbitrary: c h dc)
    (auto simp: cur_bytes_def combine_hashes_def note_hashed_def elim!: and_thenE split: option.splits if_splits)

lemma more_proof_elements_incoming:
  "more_proof_elements p c dc = (Ok x, dc') \<Longrightarrow> length (incoming dc') < length (incoming dc)"
  by (auto simp: more_proof_elements_def can_read_def elim!: and_thenE
      dest!: SET_RESPONSE_keeps process_interruption_keeps)

text \<open>The \<open>while (true)\<close> loop: every further round receives an APDU.\<close>

function proof_loop ::
    "(bytes \<Rightarrow> bytes) \<Rightarrow> u32 \<Rightarrow> u32 \<Rightarrow> u8 \<Rightarrow> u8 \<Rightarrow> nat \<Rightarrow> bytes \<Rightarrow> bytes client" where
  "proof_loop sha256 tree_size leaf_index proof_size n_proof_elements cur_step cur_hash dc =
     (case proof_steps sha256 tree_size leaf_index proof_size (unat n_proof_elements) cur_step cur_hash dc of
        (Ok cur_hash, dc) \<Rightarrow>
          (if cur_step + unat n_proof_elements = unat proof_size then (Ok cur_hash, dc)
           else case more_proof_elements proof_size (cur_step + unat n_proof_elements) dc of
              (Ok n, dc) \<Rightarrow> proof_loop sha256 tree_size leaf_index proof_size n
                              (cur_step + unat n_proof_elements) cur_hash dc
            | (Err e, dc) \<Rightarrow> (Err e, dc) | (Fault, dc) \<Rightarrow> (Fault, dc) | (Hang, dc) \<Rightarrow> (Hang, dc))
      | (Err e, dc) \<Rightarrow> (Err e, dc) | (Fault, dc) \<Rightarrow> (Fault, dc) | (Hang, dc) \<Rightarrow> (Hang, dc))"
  by pat_completeness auto
termination
  by (relation "measure (\<lambda>(_, _, _, _, _, _, _, dc). length (incoming dc))")
    (auto dest!: proof_steps_keeps_incoming [OF sym] more_proof_elements_incoming [OF sym])

declare proof_loop.simps [simp del]

definition call_get_merkle_leaf_hash :: "(bytes \<Rightarrow> bytes) \<Rightarrow> bytes \<Rightarrow> u32 \<Rightarrow> u32 \<Rightarrow> bytes client" where
  "call_get_merkle_leaf_hash sha256 merkle_root tree_size leaf_index =
     and_then (add_to_response [CCMD_GET_MERKLE_LEAF_PROOF]) (\<lambda>_.
     and_then (add_to_response merkle_root) (\<lambda>_.
     and_then (add_to_response (varint_bytes (ucast tree_size))) (\<lambda>_.
     and_then (add_to_response (varint_bytes (ucast leaf_index))) (\<lambda>_.
     and_then (finalize_response SW_INTERRUPTED_EXECUTION) (\<lambda>_.
     and_then (or_return process_interruption (- 1)) (\<lambda>_.
     and_then (with_read_buffer (\<lambda>b. buffer_read_bytes b 32)) (\<lambda>cur_hash.
     and_then (with_read_buffer buffer_read_u8) (\<lambda>proof_size.
     and_then (with_read_buffer buffer_read_u8) (\<lambda>n_proof_elements.
     and_then (require (n_proof_elements \<le> proof_size) (- 1)) (\<lambda>_.
     and_then (can_read (32 * ucast n_proof_elements) (- 1)) (\<lambda>_.
     and_then (proof_loop sha256 tree_size leaf_index proof_size n_proof_elements 0 cur_hash) (\<lambda>computed.
     and_then (require (merkle_root = computed) (- 1)) (\<lambda>_.
       value_of cur_hash)))))))))))))"

section \<open>get\_merkle\_leaf\_index.c\<close>

definition call_get_merkle_leaf_index :: "(bytes \<Rightarrow> bytes) \<Rightarrow> size_t \<Rightarrow> bytes \<Rightarrow> bytes \<Rightarrow> nat client" where
  "call_get_merkle_leaf_index sha256 tree_size root leaf_hash =
     and_then (SET_RESPONSE (CCMD_GET_MERKLE_LEAF_INDEX # root @ leaf_hash) SW_INTERRUPTED_EXECUTION) (\<lambda>_.
     and_then (or_return process_interruption (- 3)) (\<lambda>_.
     and_then (with_read_buffer buffer_read_u8) (\<lambda>found.
     and_then (with_read_buffer buffer_read_varint) (\<lambda>index.
     and_then (require (found = 0 \<or> found = 1) (- 2)) (\<lambda>_.
     and_then (require (found \<noteq> 0) (- 3)) (\<lambda>_.
     and_then (or_return (call_get_merkle_leaf_hash sha256 root tree_size (ucast index)) (- 4)) (\<lambda>returned.
     and_then (require (leaf_hash = returned) (- 5)) (\<lambda>_.
       as_int index))))))))"

section \<open>Preimages\<close>

text \<open>The request for a preimage; \<open>hash_type\<close> is 0.\<close>

definition request_preimage :: "bytes \<Rightarrow> unit client" where
  "request_preimage h =
     and_then (add_to_response [CCMD_GET_PREIMAGE]) (\<lambda>_.
     and_then (add_to_response [0]) (\<lambda>_.
     and_then (add_to_response h) (\<lambda>_.
     and_then (finalize_response SW_INTERRUPTED_EXECUTION) (\<lambda>_.
       or_return process_interruption (- 1)))))"

text \<open>The length of the preimage, and how many bytes of it the response has.\<close>

definition preimage_header :: "(u64 \<times> u8) client" where
  "preimage_header =
     and_then (or_return (with_read_buffer buffer_read_varint) (- 2)) (\<lambda>preimage_len.
     and_then (or_return (with_read_buffer buffer_read_u8) (- 2)) (\<lambda>partial_data_len.
     and_then (can_read (ucast partial_data_len) (- 2)) (\<lambda>_.
       value_of (preimage_len, partial_data_len))))"

text \<open>One more response with bytes of the preimage; \<open>e\<close> is the error code of a failed interruption
  and the three following ones are the other errors.\<close>

definition next_chunk :: "int \<Rightarrow> size_t \<Rightarrow> u8 client" where
  "next_chunk e bytes_remaining =
     and_then (SET_RESPONSE [CCMD_GET_MORE_ELEMENTS] SW_INTERRUPTED_EXECUTION) (\<lambda>_.
     and_then (or_return process_interruption e) (\<lambda>_.
     and_then (or_return (with_read_buffer buffer_read_u8) (e - 1)) (\<lambda>n_bytes.
     and_then (or_return (with_read_buffer buffer_read_u8) (e - 1)) (\<lambda>elements_len.
     and_then (can_read (ucast n_bytes * ucast elements_len) (e - 1)) (\<lambda>_.
     and_then (require (elements_len = 1) (e - 2)) (\<lambda>_.
     and_then (require (ucast n_bytes \<le> bytes_remaining) (e - 3)) (\<lambda>_.
       value_of n_bytes)))))))"

lemma next_chunk_incoming:
  "next_chunk e r dc = (Ok x, dc') \<Longrightarrow> length (incoming dc') < length (incoming dc)"
  by (auto simp: next_chunk_def can_read_def elim!: and_thenE
      dest!: SET_RESPONSE_keeps process_interruption_keeps)

text \<open>The loop \<open>while (bytes_remaining > 0)\<close> of the three commands.  \<open>context\<close> are the bytes given to
  the hash function so far.  \<open>view\<close> is the memory whose contents are passed on, \<open>consume\<close>
  what is done with them.\<close>

function chunk_loop ::
    "int \<Rightarrow> (u8 \<Rightarrow> dispatcher_context_t \<Rightarrow> 'c option) \<Rightarrow> ('c \<Rightarrow> 's \<Rightarrow> 's option) \<Rightarrow>
     size_t \<Rightarrow> bytes \<Rightarrow> 's \<Rightarrow> (bytes \<times> 's) client" where
  "chunk_loop e view consume bytes_remaining context s dc =
     (if bytes_remaining > 0 then
        (case next_chunk e bytes_remaining dc of
           (Ok n_bytes, dc) \<Rightarrow>
             (case (mem_read (buffer_get_cur (read_buffer dc)) 0 (ucast n_bytes),
                    Option.bind (view n_bytes dc) (\<lambda>v. consume v s)) of
                (Some x, Some s) \<Rightarrow>
                  chunk_loop e view consume (bytes_remaining - ucast n_bytes) (context @ x) s dc
              | _ \<Rightarrow> (Fault, dc))
         | (Err e, dc) \<Rightarrow> (Err e, dc) | (Fault, dc) \<Rightarrow> (Fault, dc) | (Hang, dc) \<Rightarrow> (Hang, dc))
      else (Ok (context, s), dc))"
  by pat_completeness auto
termination
  by (relation "measure (\<lambda>(_, _, _, _, _, _, dc). length (incoming dc))")
    (auto dest!: next_chunk_incoming [OF sym])

declare chunk_loop.simps [simp del]

definition check_digest :: "(bytes \<Rightarrow> bytes) \<Rightarrow> bytes \<Rightarrow> bytes \<Rightarrow> int \<Rightarrow> unit client" where
  "check_digest sha256 context h e =
     and_then (\<lambda>dc. (Ok (), note_hashed context dc)) (\<lambda>_. require (sha256 context = h) e)"

text \<open>\<open>buffer_write_bytes\<close> with its result ignored.\<close>

definition write_out :: "bytes \<Rightarrow> buffer_t \<Rightarrow> buffer_t" where
  "write_out data b = (case buffer_write_bytes b data of None \<Rightarrow> b | Some b' \<Rightarrow> b')"

definition view_cur :: "u8 \<Rightarrow> dispatcher_context_t \<Rightarrow> bytes option" where
  "view_cur n dc = mem_read (buffer_get_cur (read_buffer dc)) 0 (ucast n)"

subsection \<open>get\_merkle\_preimage.c\<close>

text \<open>\<open>out\<close> is the memory at \<open>out_ptr\<close>.  The bytes of the first response are hashed and written,
  without the prefix; those of the following ones are hashed at the cursor of the read buffer, but
  written from \<open>data_ptr\<close>, where the data of the first response was.\<close>

definition call_get_merkle_preimage :: "(bytes \<Rightarrow> bytes) \<Rightarrow> bytes \<Rightarrow> bytes \<Rightarrow> (nat \<times> bytes) client" where
  "call_get_merkle_preimage sha256 h out =
     and_then (request_preimage h) (\<lambda>_.
     and_then preimage_header (\<lambda>(preimage_len, partial_data_len).
     and_then (require (preimage_len \<noteq> 0 \<and> partial_data_len \<noteq> 0) (- 3)) (\<lambda>_.
     and_then (require (preimage_len - 1 \<le> word_of_nat (length out)) (- 4)) (\<lambda>_.
     and_then (require (ucast partial_data_len \<le> preimage_len) (- 5)) (\<lambda>_.
     and_then (\<lambda>dc. (Ok (5 + buf_offset (read_buffer dc)), dc)) (\<lambda>data_ptr.
     and_then (cur_bytes (ucast partial_data_len)) (\<lambda>data.
     and_then (chunk_loop (- 6) (\<lambda>n dc. mem_read (apdu_buffer dc) data_ptr (ucast n)) (\<lambda>x b. Some (write_out x b))
                (ucast preimage_len - ucast partial_data_len) data
                (write_out (tl data) (buffer_create 0 out (word_of_nat (length out)))))
       (\<lambda>(context, out_buffer).
     and_then (check_digest sha256 context h (- 10)) (\<lambda>_.
     and_then (as_int (preimage_len - 1)) (\<lambda>n. value_of (n, buf_mem out_buffer)))))))))))"

subsection \<open>get\_preimage.c\<close>

definition call_get_preimage :: "(bytes \<Rightarrow> bytes) \<Rightarrow> bytes \<Rightarrow> bytes \<Rightarrow> (nat \<times> bytes) client" where
  "call_get_preimage sha256 h out =
     and_then (request_preimage h) (\<lambda>_.
     and_then preimage_header (\<lambda>(preimage_len_u64, partial_data_len).
     let preimage_len = ucast preimage_len_u64 :: u32 in
     and_then (require (preimage_len \<ge> 1) (- 3)) (\<lambda>_.
     and_then (require (ucast partial_data_len \<le> preimage_len) (- 4)) (\<lambda>_.
     and_then (cur_bytes (ucast partial_data_len)) (\<lambda>data.
     and_then (chunk_loop (- 5) view_cur (\<lambda>x b. Some (write_out x b))
                (preimage_len - ucast partial_data_len) data
                (write_out data (buffer_create 0 out (word_of_nat (length out)))))
       (\<lambda>(context, buffer_out).
     and_then (check_digest sha256 context h (- 9)) (\<lambda>_.
     and_then (as_int (ucast preimage_len)) (\<lambda>n. value_of (n, buf_mem buffer_out)))))))))"

subsection \<open>stream\_preimage.c\<close>

text \<open>The callbacks transform a state \<open>s\<close> of the caller; \<open>callback\<close> gets a buffer, and fails when it
  accesses it outside of its memory.  The prefix is skipped in the first buffer only.\<close>

definition call_stream_preimage ::
    "(bytes \<Rightarrow> bytes) \<Rightarrow> bytes \<Rightarrow> (size_t \<Rightarrow> 's \<Rightarrow> 's) option \<Rightarrow> (buffer_t \<Rightarrow> 's \<Rightarrow> 's option) \<Rightarrow>
     's \<Rightarrow> (nat \<times> 's) client" where
  "call_stream_preimage sha256 h len_callback callback s =
     and_then (request_preimage h) (\<lambda>_.
     and_then preimage_header (\<lambda>(preimage_len_u64, partial_data_len).
     let preimage_len = ucast preimage_len_u64 :: u32 in
     and_then (require (preimage_len \<ge> 1) (- 3)) (\<lambda>_.
     and_then (require (ucast partial_data_len \<le> preimage_len) (- 4)) (\<lambda>_.
     let s = (case len_callback of None \<Rightarrow> s | Some f \<Rightarrow> f (preimage_len - 1) s) in
     and_then (cur_bytes (ucast partial_data_len)) (\<lambda>data.
     and_then (\<lambda>dc. (case callback (buffer_create 0 (drop 1 (buffer_get_cur (read_buffer dc)))
                                      (ucast partial_data_len - 1)) s of
                       None \<Rightarrow> (Fault, dc) | Some s \<Rightarrow> (Ok s, dc))) (\<lambda>s.
     and_then (chunk_loop (- 5)
                (\<lambda>n dc. Some (buffer_create 0 (buffer_get_cur (read_buffer dc)) (ucast n)))
                callback (preimage_len - ucast partial_data_len) data s) (\<lambda>(context, s).
     and_then (check_digest sha256 context h (- 9)) (\<lambda>_.
     and_then (as_int (ucast (preimage_len - 1))) (\<lambda>n. value_of (n, s))))))))))"

section \<open>get\_merkle\_leaf\_element.c, stream\_merkle\_leaf\_element.c\<close>

definition call_get_merkle_leaf_element ::
    "(bytes \<Rightarrow> bytes) \<Rightarrow> bytes \<Rightarrow> u32 \<Rightarrow> u32 \<Rightarrow> bytes \<Rightarrow> (nat \<times> bytes) client" where
  "call_get_merkle_leaf_element sha256 merkle_root tree_size leaf_index out =
     and_then (call_get_merkle_leaf_hash sha256 merkle_root tree_size leaf_index) (\<lambda>leaf_hash.
       call_get_merkle_preimage sha256 leaf_hash out)"

definition call_stream_merkle_leaf_element ::
    "(bytes \<Rightarrow> bytes) \<Rightarrow> bytes \<Rightarrow> u32 \<Rightarrow> u32 \<Rightarrow> (size_t \<Rightarrow> 's \<Rightarrow> 's) option \<Rightarrow>
     (buffer_t \<Rightarrow> 's \<Rightarrow> 's option) \<Rightarrow> 's \<Rightarrow> (nat \<times> 's) client" where
  "call_stream_merkle_leaf_element sha256 merkle_root tree_size leaf_index len_callback callback s =
     and_then (or_return (call_get_merkle_leaf_hash sha256 merkle_root tree_size leaf_index) (- 1)) (\<lambda>leaf_hash.
       call_stream_preimage sha256 leaf_hash len_callback callback s)"

section \<open>check\_merkle\_tree\_sorted.c\<close>

abbreviation (input) MAX_CHECK_MERKLE_TREE_SORTED_PREIMAGE_SIZE :: nat where
  "MAX_CHECK_MERKLE_TREE_SORTED_PREIMAGE_SIZE \<equiv> 290"

definition compare_byte_arrays :: "bytes \<Rightarrow> bytes \<Rightarrow> int" where
  "compare_byte_arrays array1 array2 =
     (let min_len = min (length array1) (length array2);
          memcmp_result = memcmp (take min_len array1) (take min_len array2)
      in if min_len = 0 \<or> memcmp_result = 0 then
           if length array1 < length array2 then - 1
           else if length array1 > length array2 then 1 else 0
         else memcmp_result)"

text \<open>The loop, with the number of elements left.  \<open>callback\<close> gets the index and the element; it
  can run commands itself.\<close>

primrec check_sorted_loop ::
    "(bytes \<Rightarrow> bytes) \<Rightarrow> bytes \<Rightarrow> size_t \<Rightarrow> ('s \<Rightarrow> nat \<Rightarrow> bytes \<Rightarrow> 's client) option \<Rightarrow>
     nat \<Rightarrow> nat \<Rightarrow> bytes \<Rightarrow> 's \<Rightarrow> 's client" where
  "check_sorted_loop sha256 root sz callback 0 cur_el_idx prev_el s = value_of s"
| "check_sorted_loop sha256 root sz callback (Suc n) cur_el_idx prev_el s =
     and_then (or_return (call_get_merkle_leaf_element sha256 root sz (word_of_nat cur_el_idx)
       (replicate MAX_CHECK_MERKLE_TREE_SORTED_PREIMAGE_SIZE 0)) (- 1)) (\<lambda>(cur_el_len, out).
     let cur_el = take cur_el_len out in
     and_then (require (cur_el_idx = 0 \<or> compare_byte_arrays prev_el cur_el < 0) (- 1)) (\<lambda>_.
     and_then (case callback of None \<Rightarrow> value_of s | Some f \<Rightarrow> f s cur_el_idx cur_el) (\<lambda>s.
       check_sorted_loop sha256 root sz callback n (Suc cur_el_idx) cur_el s)))"

definition call_check_merkle_tree_sorted_with_callback ::
    "(bytes \<Rightarrow> bytes) \<Rightarrow> bytes \<Rightarrow> size_t \<Rightarrow> ('s \<Rightarrow> nat \<Rightarrow> bytes \<Rightarrow> 's client) option \<Rightarrow> 's \<Rightarrow> 's client" where
  "call_check_merkle_tree_sorted_with_callback sha256 root sz callback s =
     check_sorted_loop sha256 root sz callback (unat sz) 0 [] s"

section \<open>Merkleized maps\<close>

record merkleized_map_commitment_t =
  map_size :: u64
  keys_root :: bytes
  values_root :: bytes

definition call_get_merkleized_map_with_callback ::
    "(bytes \<Rightarrow> bytes) \<Rightarrow> bytes \<Rightarrow> u32 \<Rightarrow> u32 \<Rightarrow>
     (merkleized_map_commitment_t \<Rightarrow> 's \<Rightarrow> nat \<Rightarrow> bytes \<Rightarrow> 's client) option \<Rightarrow> 's \<Rightarrow>
     (merkleized_map_commitment_t \<times> 's) client" where
  "call_get_merkleized_map_with_callback sha256 root sz index callback s =
     and_then (or_return (call_get_merkle_leaf_element sha256 root sz index (replicate (9 + 2 * 32) 0)) (- 1))
       (\<lambda>(el_len, raw_output).
       case (do {
               (n, b) \<leftarrow> buffer_read_varint (buffer_create 0 raw_output (word_of_nat el_len));
               (kr, b) \<leftarrow> buffer_read_bytes b 32;
               (vr, b) \<leftarrow> buffer_read_bytes b 32;
               Some \<lparr>map_size = n, keys_root = kr, values_root = vr\<rparr> }) of
         None \<Rightarrow> (\<lambda>dc. (Err (- 1), dc))
       | Some m \<Rightarrow>
           and_then (call_check_merkle_tree_sorted_with_callback sha256 (keys_root m) (ucast (map_size m))
                       (map_option (\<lambda>f. f m) callback) s) (\<lambda>s. value_of (m, s)))"

definition call_get_merkleized_map ::
    "(bytes \<Rightarrow> bytes) \<Rightarrow> bytes \<Rightarrow> u32 \<Rightarrow> u32 \<Rightarrow> merkleized_map_commitment_t client" where
  "call_get_merkleized_map sha256 root sz index =
     and_then (call_get_merkleized_map_with_callback sha256 root sz index None ()) (\<lambda>(m, _). value_of m)"

text \<open>The index of a key, common to the accesses to the value of a key.\<close>

definition key_index :: "(bytes \<Rightarrow> bytes) \<Rightarrow> merkleized_map_commitment_t \<Rightarrow> bytes \<Rightarrow> nat client" where
  "key_index sha256 m k =
     or_return (and_then (\<lambda>dc. (Ok (), note_hashed (0x00 # k) dc)) (\<lambda>_.
       call_get_merkle_leaf_index sha256 (ucast (map_size m)) (keys_root m)
         (merkle_compute_element_hash sha256 k))) (- 1)"

definition call_get_merkleized_map_value ::
    "(bytes \<Rightarrow> bytes) \<Rightarrow> merkleized_map_commitment_t \<Rightarrow> bytes \<Rightarrow> bytes \<Rightarrow> (nat \<times> bytes) client" where
  "call_get_merkleized_map_value sha256 m k out =
     and_then (key_index sha256 m k) (\<lambda>index.
       call_get_merkle_leaf_element sha256 (values_root m) (ucast (map_size m)) (word_of_nat index) out)"

definition call_get_merkleized_map_value_u32_le ::
    "(bytes \<Rightarrow> bytes) \<Rightarrow> merkleized_map_commitment_t \<Rightarrow> bytes \<Rightarrow> u32 client" where
  "call_get_merkleized_map_value_u32_le sha256 m k =
     and_then (or_return (call_get_merkleized_map_value sha256 m k (replicate 4 0)) (- 1)) (\<lambda>(res, result_raw).
     and_then (require (res = 4) (- 1)) (\<lambda>_.
       case read_u32_le result_raw 0 of None \<Rightarrow> (\<lambda>dc. (Fault, dc)) | Some v \<Rightarrow> value_of v))"

definition call_stream_merkleized_map_value ::
    "(bytes \<Rightarrow> bytes) \<Rightarrow> merkleized_map_commitment_t \<Rightarrow> bytes \<Rightarrow> (size_t \<Rightarrow> 's \<Rightarrow> 's) option \<Rightarrow>
     (buffer_t \<Rightarrow> 's \<Rightarrow> 's option) \<Rightarrow> 's \<Rightarrow> (nat \<times> 's) client" where
  "call_stream_merkleized_map_value sha256 m k len_callback callback s =
     and_then (key_index sha256 m k) (\<lambda>index.
       call_stream_merkle_leaf_element sha256 (values_root m) (ucast (map_size m)) (word_of_nat index)
         len_callback callback s)"

definition call_get_merkleized_map_value_hash ::
    "(bytes \<Rightarrow> bytes) \<Rightarrow> merkleized_map_commitment_t \<Rightarrow> bytes \<Rightarrow> bytes client" where
  "call_get_merkleized_map_value_hash sha256 m k =
     and_then (key_index sha256 m k) (\<lambda>index.
       call_get_merkle_leaf_hash sha256 (values_root m) (ucast (map_size m)) (word_of_nat index))"

end
