(* ===== verification/Base58.thy ===== *)
theory Base58
  imports Prelude
begin

text \<open>
  The Base58 encoding, \<^verbatim>\<open>src/src/common/base58.c\<close>.  Both functions return the bytes that are written
  to \<open>out\<close>; the C result is their number.  \<open>char\<close> is unsigned.  The loop counters of the code stay
  below \<open>in_len\<close>, at most 164, and below \<open>output_size\<close>, at most 166: except for \<open>stop_at\<close>, which is
  compared after a subtraction that can wrap, they are natural numbers.
\<close>

abbreviation (input) MAX_DEC_INPUT_SIZE :: nat where "MAX_DEC_INPUT_SIZE \<equiv> 164"
abbreviation (input) MAX_ENC_INPUT_SIZE :: nat where "MAX_ENC_INPUT_SIZE \<equiv> 120"

definition BASE58_TABLE :: bytes where
  "BASE58_TABLE =
    [0xFF, 0xFF, 0xFF, 0xFF, 0xFF, 0xFF, 0xFF, 0xFF, 0xFF, 0xFF, 0xFF, 0xFF,
     0xFF, 0xFF, 0xFF, 0xFF, 0xFF, 0xFF, 0xFF, 0xFF, 0xFF, 0xFF, 0xFF, 0xFF,
     0xFF, 0xFF, 0xFF, 0xFF, 0xFF, 0xFF, 0xFF, 0xFF, 0xFF, 0xFF, 0xFF, 0xFF,
     0xFF, 0xFF, 0xFF, 0xFF, 0xFF, 0xFF, 0xFF, 0xFF, 0xFF, 0xFF, 0xFF, 0xFF,
     0xFF, 0x00, 0x01, 0x02, 0x03, 0x04, 0x05, 0x06, 0x07, 0x08, 0xFF, 0xFF,
     0xFF, 0xFF, 0xFF, 0xFF, 0xFF, 0x09, 0x0A, 0x0B, 0x0C, 0x0D, 0x0E, 0x0F,
     0x10, 0xFF, 0x11, 0x12, 0x13, 0x14, 0x15, 0xFF, 0x16, 0x17, 0x18, 0x19,
     0x1A, 0x1B, 0x1C, 0x1D, 0x1E, 0x1F, 0x20, 0xFF, 0xFF, 0xFF, 0xFF, 0xFF,
     0xFF, 0x21, 0x22, 0x23, 0x24, 0x25, 0x26, 0x27, 0x28, 0x29, 0x2A, 0x2B,
     0xFF, 0x2C, 0x2D, 0x2E, 0x2F, 0x30, 0x31, 0x32, 0x33, 0x34, 0x35, 0x36,
     0x37, 0x38, 0x39, 0xFF, 0xFF, 0xFF, 0xFF, 0xFF]"

definition BASE58_ALPHABET :: bytes where
  "BASE58_ALPHABET = ascii_string ''123456789ABCDEFGHJKLMNPQRSTUVWXYZabcdefghijkmnopqrstuvwxyz''"

section \<open>base58\_decode\<close>

definition base58_digit :: "u8 \<Rightarrow> u8 option" where
  "base58_digit c =
     (if unat c \<ge> length BASE58_TABLE then None
      else if BASE58_TABLE ! unat c = 0xFF then None
      else Some (BASE58_TABLE ! unat c))"

text \<open>One division of the digits from \<open>start_at\<close> on by 256: the quotient and the remainder.\<close>

fun div_loop :: "u16 \<Rightarrow> bytes \<Rightarrow> bytes \<times> u16" where
  "div_loop remainder [] = ([], remainder)"
| "div_loop remainder (d # ds) =
     (let tmp_div = remainder * 58 + (ucast d AND 0xFF);
          (ds', remainder') = div_loop (tmp_div mod 256) ds
      in (ucast (tmp_div div 256) # ds', remainder'))"

lemma length_div_loop [simp]: "length (fst (div_loop r ds)) = length ds"
  by (induction r ds rule: div_loop.induct) (auto simp: Let_def split: prod.splits)

text \<open>The digits from \<open>start_at\<close> on, and the part of \<open>buffer\<close> from \<open>j\<close> on.  The quotient of the first
  digit is always 0, so the loop ends.\<close>

lemma ucast_div_256 [simp]: "(ucast d :: u16) div 256 = 0" for d :: u8
proof -
  have "unat (ucast d :: u16) < 256"
    by (simp only: unat_ucast_up unat_u8_bound)
  then have "unat ((ucast d :: u16) div 256) = 0"
    by (simp add: unat_div)
  then show ?thesis
    by (simp only: unat_eq_zero)
qed

lemma ucast_and_255 [simp]: "(ucast d :: u16) AND 0xFF = ucast d" for d :: u8
proof -
  have "take_bit 8 (ucast d :: u16) = ucast d"
    using unat_u8_bound [of d]
    by (intro word_unat_eq_iff [THEN iffD2]) (simp add: unsigned_take_bit_eq unat_ucast_up take_bit_nat_eq_self)
  then show ?thesis
    by (simp add: take_bit_eq_mask mask_eq_exp_minus_1)
qed

function divide_digits :: "bytes \<Rightarrow> bytes \<Rightarrow> bytes" where
  "divide_digits tmp buffer =
     (if tmp = [] then buffer
      else case div_loop 0 tmp of (tmp', remainder) \<Rightarrow>
        divide_digits (if hd tmp' = 0 then tl tmp' else tmp') (ucast remainder # buffer))"
  by pat_completeness auto
termination
proof (relation "measure (\<lambda>(tmp, buffer). length tmp)", goal_cases)
  case (2 tmp buffer tmp' remainder)
  moreover have "length tmp' = length tmp"
    using length_div_loop [of 0 tmp] 2(2) [symmetric] by simp
  ultimately show ?case
    by (cases tmp) (auto simp: Let_def split: prod.splits)
qed simp

declare divide_digits.simps [simp del]

definition base58_decode :: "bytes \<Rightarrow> nat \<Rightarrow> bytes option" where
  "base58_decode in_str out_len =
     (let in_len = length in_str in
      if in_len > MAX_DEC_INPUT_SIZE \<or> in_len < 2 then None
      else do {
        tmp \<leftarrow> those (map base58_digit in_str);
        let zero_count = length (takeWhile (\<lambda>d. d = 0) tmp);
        let written = divide_digits (drop zero_count tmp) [];
        let buffer = replicate (in_len - length written) 0 @ written;
        let j = in_len - length (dropWhile (\<lambda>d. d = 0) written);
        let out_length = in_len - (j - zero_count);
        if out_len < out_length then None
        else Some (take out_length (drop (j - zero_count) buffer)) })"

section \<open>base58\_encode\<close>

text \<open>The inner loop, from \<open>j\<close> down, given as \<open>Suc j\<close>; the result is the final \<open>j\<close> and \<open>buffer\<close>.\<close>

fun carry_loop :: "size_t \<Rightarrow> nat \<Rightarrow> u32 \<Rightarrow> bytes \<Rightarrow> size_t \<times> bytes" where
  "carry_loop stop_at 0 carry buffer = (- 1, buffer)"
| "carry_loop stop_at (Suc j) carry buffer =
     (let carry = carry + 256 * ucast (buffer ! j);
          buffer = buffer[j := ucast (carry mod 58)];
          carry = carry div 58
      in if word_of_nat j \<le> stop_at - 1 \<and> carry = 0 then (word_of_nat j, buffer)
         else carry_loop stop_at j carry buffer)"

fun encode_loop :: "nat \<Rightarrow> size_t \<Rightarrow> bytes \<Rightarrow> bytes \<Rightarrow> bytes" where
  "encode_loop output_size stop_at [] buffer = buffer"
| "encode_loop output_size stop_at (b # bs) buffer =
     (case carry_loop stop_at output_size (ucast b) buffer of (j, buffer) \<Rightarrow>
        encode_loop output_size j bs buffer)"

text \<open>The size of the array \<open>buffer\<close> is \<open>MAX_ENC_INPUT_SIZE * 138 / 100 + 1 = 166\<close>.\<close>

definition base58_encode :: "bytes \<Rightarrow> nat \<Rightarrow> bytes option" where
  "base58_encode in_bytes out_len =
     (let in_len = length in_bytes in
      if in_len > MAX_ENC_INPUT_SIZE then None
      else
        let zero_count = length (takeWhile (\<lambda>b. b = 0) in_bytes);
            output_size = (in_len - zero_count) * 138 div 100 + 1;
            buffer = encode_loop output_size (word_of_nat (output_size - 1)) (drop zero_count in_bytes)
                       (replicate 166 0);
            j = length (takeWhile (\<lambda>d. d = 0) (take output_size buffer))
        in if out_len < zero_count + output_size - j then None
           else Some (replicate zero_count (BASE58_ALPHABET ! 0)
                      @ map (\<lambda>d. BASE58_ALPHABET ! unat d) (drop j (take output_size buffer))))"

section \<open>Positional notation\<close>

definition from_base :: "nat \<Rightarrow> bytes \<Rightarrow> nat" where
  "from_base b ds = foldl (\<lambda>a d. a * b + unat d) 0 ds"

definition digits_below :: "nat \<Rightarrow> bytes \<Rightarrow> bool" where
  "digits_below b ds = list_all (\<lambda>d. unat d < b) ds"

definition canonical :: "nat \<Rightarrow> bytes \<Rightarrow> bool" where
  "canonical b ds \<longleftrightarrow> digits_below b ds \<and> (ds = [] \<or> hd ds \<noteq> 0)"

lemma foldl_base: "foldl (\<lambda>a d. a * b + unat d) a ds = a * b ^ length ds + from_base b ds"
proof (induction ds arbitrary: a)
  case (Cons d ds)
  show ?case
    using Cons [of "a * b + unat d"] Cons [of "unat d"] by (simp add: from_base_def algebra_simps)
qed (simp add: from_base_def)

lemma from_base_Nil [simp]: "from_base b [] = 0"
  by (simp add: from_base_def)

lemma from_base_Cons [simp]: "from_base b (d # ds) = unat d * b ^ length ds + from_base b ds"
  using foldl_base [of b "unat d" ds] by (simp add: from_base_def)

lemma from_base_append [simp]: "from_base b (xs @ ys) = from_base b xs * b ^ length ys + from_base b ys"
  by (induction xs) (simp_all add: algebra_simps power_add)

lemma digits_below_simps [simp]:
  "digits_below b []" "digits_below b (d # ds) \<longleftrightarrow> unat d < b \<and> digits_below b ds"
  "digits_below b (xs @ ys) \<longleftrightarrow> digits_below b xs \<and> digits_below b ys"
  "digits_below 256 ds"
  by (auto simp: digits_below_def list_all_iff unat_u8_bound)

lemma digits_below_dropWhile [simp]: "digits_below b ds \<Longrightarrow> digits_below b (dropWhile P ds)"
  by (auto simp: digits_below_def list_all_iff dest: set_dropWhileD)

lemma from_base_less: "digits_below b ds \<Longrightarrow> from_base b ds < b ^ length ds"
proof (induction ds)
  case (Cons d ds)
  then have "unat d * b ^ length ds + from_base b ds < (unat d + 1) * b ^ length ds"
    by simp
  also have "\<dots> \<le> b * b ^ length ds"
    using Cons.prems by (intro mult_le_mono1) simp
  finally show ?case by simp
qed simp

lemma from_base_ge: "d \<noteq> 0 \<Longrightarrow> b ^ length ds \<le> from_base b (d # ds)"
proof -
  assume "d \<noteq> 0"
  then have "1 \<le> unat d"
    by (simp add: Suc_le_eq unat_gt_0)
  then have "1 * b ^ length ds \<le> unat d * b ^ length ds"
    by (rule mult_le_mono1)
  then show ?thesis
    unfolding from_base_Cons by (simp only: mult_1 trans_le_add1)
qed

lemma div_base: "v < B \<Longrightarrow> (x * B + v) div B = x" for v :: nat
  using div_mult_self3 [of B x v] by simp

lemma from_base_inj_length:
  "length xs = length ys \<Longrightarrow> digits_below b xs \<Longrightarrow> digits_below b ys \<Longrightarrow> from_base b xs = from_base b ys \<Longrightarrow> xs = ys"
proof (induction xs ys rule: list_induct2)
  case (Cons x xs y ys)
  have l: "from_base b xs < b ^ length ys" "from_base b ys < b ^ length ys"
    using from_base_less [of b xs] from_base_less [of b ys] Cons by simp_all
  have e: "unat x * b ^ length ys + from_base b xs = unat y * b ^ length ys + from_base b ys"
    using Cons by simp
  have "unat x = (unat x * b ^ length ys + from_base b xs) div b ^ length ys"
    using l by (simp only: div_base)
  also have "\<dots> = unat y"
    unfolding e using l by (simp only: div_base)
  finally show ?case
    using Cons e by (simp add: word_unat_eq_iff)
qed simp

lemma canonical_length:
  assumes "canonical b xs" "canonical b ys" "from_base b xs = from_base b ys" "1 < b"
  shows "length xs \<le> length ys"
proof (cases xs)
  case (Cons d ds)
  have "b ^ length ds \<le> from_base b xs"
    using assms(1) Cons from_base_ge [of d b ds] by (simp add: canonical_def)
  also have "\<dots> < b ^ length ys"
    using assms(2,3) from_base_less [of b ys] by (simp add: canonical_def)
  finally show ?thesis
    using assms(4) Cons by simp
qed simp

lemma canonical_inj:
  assumes "canonical b xs" "canonical b ys" "from_base b xs = from_base b ys" "1 < b"
  shows "xs = ys"
proof (rule from_base_inj_length)
  show "length xs = length ys"
    using canonical_length [OF assms] canonical_length [OF assms(2,1) assms(3) [symmetric] assms(4)] by (rule antisym)
qed (use assms in \<open>simp_all add: canonical_def\<close>)

lemma from_base_dropWhile [simp]: "from_base b (dropWhile (\<lambda>d. d = 0) ds) = from_base b ds"
  by (induction ds) simp_all

lemma canonical_dropWhile: "digits_below b ds \<Longrightarrow> canonical b (dropWhile (\<lambda>d. d = 0) ds)"
  using hd_dropWhile [of "\<lambda>d. d = 0" ds] by (auto simp: canonical_def)

lemma drop_zeros:
  "drop (length (takeWhile (\<lambda>d. d = 0) ds)) ds = dropWhile (\<lambda>d. d = 0) ds"
  by (rule dropWhile_eq_drop [symmetric])

lemma zeros_prefix:
  "replicate (length (takeWhile (\<lambda>d. d = 0) ds)) 0 @ dropWhile (\<lambda>d. d = 0) ds = ds"
  by (induction ds) simp_all

section \<open>Decoding\<close>

lemma div_step:
  assumes "unat (r :: u16) < 256" "unat (d :: u8) < 58" "t = r * 58 + (ucast d AND 0xFF)"
  shows "unat t = unat r * 58 + unat d" "unat (ucast (t div 256) :: u8) = unat t div 256"
    "unat t div 256 < 58" "unat (t mod 256) = unat t mod 256"
proof -
  show t: "unat t = unat r * 58 + unat d"
    using assms by (simp add: unat_word_ariths unat_ucast_up)
  show lt: "unat t div 256 < 58"
    using assms(1,2) t by (intro less_mult_imp_div_less) simp
  show "unat (ucast (t div 256) :: u8) = unat t div 256"
    using lt by (simp add: unsigned_ucast_eq unat_div take_bit_nat_eq_self)
  show "unat (t mod 256) = unat t mod 256"
    by (simp add: unat_mod)
qed

lemma div_loop_value:
  "div_loop r ds = (q, r') \<Longrightarrow> unat r < 256 \<Longrightarrow> digits_below 58 ds \<Longrightarrow>
   unat r' < 256 \<and> digits_below 58 q \<and> length q = length ds
   \<and> unat r * 58 ^ length ds + from_base 58 ds = 256 * from_base 58 q + unat r'"
proof (induction r ds arbitrary: q r' rule: div_loop.induct)
  case (2 r d ds)
  let ?t = "r * 58 + (ucast d AND 0xFF)"
  obtain q' where q: "div_loop (?t mod 256) ds = (q', r')" "q = ucast (?t div 256) # q'"
    using "2.prems"(1) by (simp only: div_loop.simps Let_def) (auto split: prod.splits)
  obtain t where t: "t = ?t"
    by simp
  have d: "unat d < 58" and ds: "digits_below 58 ds"
    using "2.prems"(3) by simp_all
  note s = div_step [OF "2.prems"(2) d t]
  have "unat (t mod 256) < 256"
    by (simp add: s(4))
  from "2.IH" [OF refl q(1) this [unfolded t] ds]
  have ih: "unat r' < 256" "digits_below 58 q'" "length q' = length ds"
      "unat t mod 256 * 58 ^ length ds + from_base 58 ds = 256 * from_base 58 q' + unat r'"
    by (simp_all only: s(4) flip: t)
  have "unat r * 58 ^ length (d # ds) + from_base 58 (d # ds) = unat t * 58 ^ length ds + from_base 58 ds"
    by (simp add: s(1) algebra_simps)
  also have "\<dots> = (256 * (unat t div 256) + unat t mod 256) * 58 ^ length ds + from_base 58 ds"
    by (simp only: mult_div_mod_eq)
  also have "\<dots> = 256 * (unat t div 256 * 58 ^ length ds + from_base 58 q') + unat r'"
    using ih(4) by (simp only: add_mult_distrib add_mult_distrib2)
  finally have e: "unat r * 58 ^ length (d # ds) + from_base 58 (d # ds) = 256 * from_base 58 q + unat r'"
    by (simp only: q(2) t [symmetric] from_base_Cons s(2) ih(3))
  show ?case
    using ih(1,2,3) s(2,3) e by (simp only: q(2) t [symmetric] digits_below_simps) simp
qed auto

lemma divide_digits_value:
  "digits_below 58 tmp \<Longrightarrow>
   length (divide_digits tmp buffer) = length tmp + length buffer
   \<and> from_base 256 (divide_digits tmp buffer) = from_base 58 tmp * 256 ^ length buffer + from_base 256 buffer"
proof (induction "length tmp" arbitrary: tmp buffer)
  case (Suc n)
  then obtain d ds where Cons: "tmp = d # ds"
    by (cases tmp) auto
  obtain q r where q: "div_loop 0 tmp = (q, r)"
    by (cases "div_loop 0 tmp")
  have v: "unat r < 256" "digits_below 58 q" "length q = length tmp" "from_base 58 tmp = 256 * from_base 58 q + unat r"
    using div_loop_value [OF q _ Suc.prems] by simp_all
  obtain q' where q': "q = 0 # q'"
    using q Cons by (auto simp: Let_def split: prod.splits)
  have r: "unat (ucast r :: u8) = unat r"
    using v(1) by (simp add: unsigned_ucast_eq take_bit_nat_eq_self)
  have step: "divide_digits tmp buffer = divide_digits q' (ucast r # buffer)"
    using q q' Cons by (subst divide_digits.simps) (simp del: div_loop.simps)
  have "length (divide_digits q' (ucast r # buffer)) = length q' + length (ucast r # buffer)
      \<and> from_base 256 (divide_digits q' (ucast r # buffer))
        = from_base 58 q' * 256 ^ length (ucast r # buffer) + from_base 256 (ucast r # buffer)"
    using Suc(1) [of q' "ucast r # buffer"] Suc(2) v(2,3) q' by simp
  then show ?case
    using v r q' by (simp add: step algebra_simps)
qed (simp add: divide_digits.simps)

lemma BASE58_ALPHABET_numerals [code]:
  "BASE58_ALPHABET =
   [49, 50, 51, 52, 53, 54, 55, 56, 57, 65, 66, 67, 68, 69, 70, 71, 72, 74, 75, 76,
    77, 78, 80, 81, 82, 83, 84, 85, 86, 87, 88, 89, 90, 97, 98, 99, 100, 101, 102, 103,
    104, 105, 106, 107, 109, 110, 111, 112, 113, 114, 115, 116, 117, 118, 119, 120, 121, 122]"
  by code_simp

lemma length_BASE58_TABLE: "length BASE58_TABLE = 128"
  by (simp add: BASE58_TABLE_def)

lemma table_digit:
  "list_all2 (\<lambda>c d. d = 0xFF \<or> unat d < 58 \<and> BASE58_ALPHABET ! unat d = word_of_nat c) [0..<128] BASE58_TABLE"
  by code_simp

lemma alphabet_digit:
  "list_all2 (\<lambda>d c. unat c < 128 \<and> BASE58_TABLE ! unat c = word_of_nat d) [0..<58] BASE58_ALPHABET"
  by code_simp

lemma base58_digit_alphabet: "unat d < 58 \<Longrightarrow> base58_digit (BASE58_ALPHABET ! unat d) = Some d"
proof -
  assume d: "unat d < 58"
  then have "unat (BASE58_ALPHABET ! unat d) < 128 \<and> BASE58_TABLE ! unat (BASE58_ALPHABET ! unat d) = d"
    using list_all2_nthD [OF alphabet_digit, of "unat d"] by simp
  moreover have "d \<noteq> 0xFF"
    using d by auto
  ultimately show ?thesis
    by (simp add: base58_digit_def length_BASE58_TABLE)
qed

lemma base58_digit_Some: "base58_digit c = Some d \<Longrightarrow> unat d < 58 \<and> BASE58_ALPHABET ! unat d = c"
  using list_all2_nthD [OF table_digit, of "unat c"]
  by (auto simp: base58_digit_def length_BASE58_TABLE split: if_splits)

lemma base58_digits_iff:
  "those (map base58_digit s) = Some ds \<longleftrightarrow>
   digits_below 58 ds \<and> s = map (\<lambda>d. BASE58_ALPHABET ! unat d) ds"
proof (induction s arbitrary: ds)
  case (Cons c s)
  show ?case
    by (cases ds; cases "base58_digit c")
      (auto simp: Cons base58_digit_alphabet dest: base58_digit_Some)
qed auto

text \<open>What decoding computes, for the digits \<open>ds\<close>.\<close>

lemma base58_decode_digits:
  assumes "digits_below 58 ds" "2 \<le> length ds" "length ds \<le> 164"
  shows "\<exists>c. canonical 256 c \<and> from_base 256 c = from_base 58 ds \<and>
    base58_decode (map (\<lambda>d. BASE58_ALPHABET ! unat d) ds) n =
      (let out = replicate (length (takeWhile (\<lambda>d. d = 0) ds)) 0 @ c in if n < length out then None else Some out)"
proof -
  define z where "z = length (takeWhile (\<lambda>d. d = 0) ds)"
  define w where "w = divide_digits (drop z ds) []"
  define c where "c = dropWhile (\<lambda>d. d = 0) w"
  define t where "t = length (takeWhile (\<lambda>d. d = 0) w)"
  have z: "z \<le> length ds"
    by (simp add: z_def length_takeWhile_le)
  have "digits_below 58 (drop z ds)"
    using assms(1) by (simp add: z_def drop_zeros)
  note v = divide_digits_value [OF this, of "[]"]
  have w: "length w = length ds - z" "from_base 256 w = from_base 58 ds"
    using v by (simp_all add: w_def) (simp add: z_def drop_zeros)
  have wc: "w = replicate t 0 @ c"
    using zeros_prefix [of w] by (simp add: t_def c_def)
  then have l: "length w = t + length c"
    by simp
  have "those (map base58_digit (map (\<lambda>d. BASE58_ALPHABET ! unat d) ds)) = Some ds"
    using assms(1) by (simp only: base58_digits_iff)
  then have "base58_decode (map (\<lambda>d. BASE58_ALPHABET ! unat d) ds) n =
      (if n < z + length c then None else Some (take (z + length c) (drop t (replicate z 0 @ w))))"
    using assms(2,3) z l w(1) by (simp add: base58_decode_def Let_def flip: z_def w_def c_def)
  moreover have "replicate z 0 @ w = replicate t 0 @ replicate z 0 @ c"
    by (simp add: wc flip: append_assoc replicate_add)
  ultimately show ?thesis
    using w(2) by (intro exI [of _ c]) (simp add: c_def canonical_dropWhile flip: z_def)
qed

section \<open>Encoding\<close>

lemma small_powers: "list_all (\<lambda>r. 256 ^ r \<le> (58 :: nat) ^ (r * 138 div 100 + 1)) [0..<50]"
  by (simp add: upt_rec)

lemma power_bound: "256 ^ k \<le> (58 :: nat) ^ (k * 138 div 100 + 1)"
proof -
  define q r where "q = k div 50" and "r = k mod 50"
  then have k: "k = 50 * q + r" and "r < 50"
    by simp_all
  then have r: "256 ^ r \<le> (58 :: nat) ^ (r * 138 div 100 + 1)"
    using small_powers by (simp add: list_all_iff)
  have "(256 :: nat) ^ 50 \<le> 58 ^ 69"
    by simp
  then have "((256 :: nat) ^ 50) ^ q \<le> (58 ^ 69) ^ q"
    by (rule power_mono) simp
  then have "(256 ^ 50) ^ q * 256 ^ r \<le> (58 ^ 69) ^ q * (58 :: nat) ^ (r * 138 div 100 + 1)"
    using r by (rule mult_le_mono)
  moreover have "k * 138 div 100 + 1 = 69 * q + (r * 138 div 100 + 1)"
    by (simp add: k)
  ultimately show ?thesis
    by (simp only: k power_add power_mult)
qed

lemma carry_step:
  assumes "unat (carry :: u32) < 256" "unat (d :: u8) < 58" "t = carry + 256 * ucast d"
  shows "unat t = unat carry + 256 * unat d" "unat (ucast (t mod 58) :: u8) = unat t mod 58"
    "unat (t div 58) = unat t div 58" "unat t div 58 < 256"
proof -
  show t: "unat t = unat carry + 256 * unat d"
    using assms by (simp add: unat_word_ariths unat_ucast_up)
  show "unat t div 58 < 256"
    using assms(1,2) t by (intro less_mult_imp_div_less) simp
  show "unat (t div 58) = unat t div 58"
    by (simp add: unat_div)
  show "unat (ucast (t mod 58) :: u8) = unat t mod 58"
    by (simp add: unsigned_ucast_eq unat_mod take_bit_nat_eq_self)
qed

lemma take_Suc_snoc: "j < length xs \<Longrightarrow> take (Suc j) xs = take j xs @ [xs ! j]"
  by (rule take_Suc_conv_app_nth)

lemma from_base_zero: "(\<And>k. k < length xs \<Longrightarrow> xs ! k = 0) \<Longrightarrow> from_base b xs = 0"
proof (induction xs)
  case (Cons x xs)
  from Cons.prems [of 0] Cons.IH Cons.prems [of "Suc _"] show ?case
    by simp
qed simp

text \<open>What one run of the inner loop does to the digits before position \<open>n\<close>: it multiplies by 256 and
  adds the carry, if the result fits, and the digits before the final \<open>j\<close> are still zero.\<close>

definition carried :: "size_t \<Rightarrow> nat \<Rightarrow> nat \<Rightarrow> bytes \<Rightarrow> nat \<Rightarrow> bytes \<Rightarrow> bool" where
  "carried stop_at n carry buffer j buffer' \<longleftrightarrow>
     j < n \<and> length buffer' = length buffer \<and> drop n buffer' = drop n buffer \<and> digits_below 58 (take n buffer')
     \<and> from_base 58 (take n buffer') = from_base 58 (take n buffer) * 256 + carry
     \<and> (\<forall>k<j. buffer' ! k = 0) \<and> j < unat stop_at \<and> (Suc j = unat stop_at \<or> buffer' ! j \<noteq> 0)"

lemma carried_Suc:
  assumes "carried stop_at j c (buffer[j := d]) i buffer'" "j < length buffer" "unat d < 58"
    "from_base 58 (take (Suc j) buffer) * 256 + carry = (from_base 58 (take j buffer) * 256 + c) * 58 + unat d"
  shows "carried stop_at (Suc j) carry buffer i buffer'"
proof -
  have l: "length buffer' = length buffer"
    using assms(1) by (simp add: carried_def)
  have dj: "drop j buffer' = d # drop (Suc j) buffer"
    using assms(1,2) Cons_nth_drop_Suc [of j "buffer[j := d]"] by (simp add: carried_def)
  then have "buffer' ! j = d" "drop (Suc j) buffer' = drop (Suc j) buffer"
    using l assms(2) by (simp_all add: Cons_nth_drop_Suc [symmetric])
  then show ?thesis
    using assms l by (auto simp: carried_def take_Suc_snoc)
qed

lemma carry_loop_carried:
  "0 < n \<Longrightarrow> n \<le> length buffer \<Longrightarrow> n < 2 ^ 32 \<Longrightarrow> digits_below 58 (take n buffer) \<Longrightarrow> 0 < unat stop_at \<Longrightarrow>
   (\<And>k. k < n \<Longrightarrow> k < unat stop_at \<Longrightarrow> buffer ! k = 0) \<Longrightarrow> unat carry < 256 \<Longrightarrow>
   (n < unat stop_at \<Longrightarrow> carry \<noteq> 0) \<Longrightarrow> from_base 58 (take n buffer) * 256 + unat carry < 58 ^ n \<Longrightarrow>
   \<exists>j buffer'. carry_loop stop_at n carry buffer = (word_of_nat j, buffer')
     \<and> carried stop_at n (unat carry) buffer j buffer'"
proof (induction stop_at n carry buffer rule: carry_loop.induct)
  case (2 stop_at j carry buffer)
  define t where "t = carry + 256 * ucast (buffer ! j)"
  define V where "V = from_base 58 (take j buffer)"
  let ?buffer = "buffer[j := ucast (t mod 58)]"
  have tk: "take (Suc j) buffer = take j buffer @ [buffer ! j]"
    using "2.prems"(2) by (simp add: take_Suc_snoc)
  then have d: "unat (buffer ! j) < 58" "digits_below 58 (take j buffer)"
    using "2.prems"(4) by simp_all
  note s = carry_step [OF "2.prems"(7) d(1) t_def]
  have total: "from_base 58 (take (Suc j) buffer) * 256 + unat carry = V * 256 * 58 + unat t"
    by (simp add: tk V_def s(1))
  have lt: "V * 256 + unat t div 58 < 58 ^ j"
  proof -
    have "(V * 256 * 58 + unat t) div 58 < 58 ^ j"
      using "2.prems"(9) [unfolded total power_Suc] by (intro less_mult_imp_div_less) (simp add: mult.commute)
    then show ?thesis by simp
  qed
  have jle: "word_of_nat j \<le> stop_at - 1 \<longleftrightarrow> j < unat stop_at"
  proof -
    have "unat (stop_at - 1) = unat stop_at - 1"
      using "2.prems"(5) by (subst unat_sub) (simp_all add: word_le_nat_alt)
    then show ?thesis
      using "2.prems"(3,5) by (simp add: word_le_nat_alt unat_of_nat_u32) linarith
  qed
  show ?case
  proof (cases "j < unat stop_at \<and> t div 58 = 0")
    case True
    then have z: "unat t div 58 = 0"
      using s(3) by simp
    have V0: "V = 0"
      unfolding V_def using "2.prems"(2,6) True by (intro from_base_zero) simp
    have "unat t < 58"
      using z by (simp add: div_eq_0_iff)
    moreover have "Suc j = unat stop_at \<or> unat carry \<noteq> 0"
      using "2.prems"(8) True by (cases "Suc j = unat stop_at") (auto simp: word_unat_eq_iff)
    ultimately have "carried stop_at (Suc j) (unat carry) buffer j ?buffer"
      using "2.prems"(2,6) True d(2) s(2) total V0 s(1)
      by (auto simp: carried_def take_Suc_snoc V_def nth_list_update word_unat_eq_iff)
    then show ?thesis
      using True jle by (auto simp: Let_def simp flip: t_def)
  next
    case False
    have "0 < j"
      using False "2.prems"(5) lt s(3) by (cases j) (auto simp: word_unat_eq_iff)
    moreover have "from_base 58 (take j ?buffer) * 256 + unat (t div 58) < 58 ^ j"
      using lt s(3) by (simp add: V_def)
    ultimately obtain i buffer' where i: "carry_loop stop_at j (t div 58) ?buffer = (word_of_nat i, buffer')"
        "carried stop_at j (unat (t div 58)) ?buffer i buffer'"
      using "2.IH" [OF t_def refl refl] False "2.prems" d(2) jle s(3,4) by (auto simp: nth_list_update)
    have "carried stop_at (Suc j) (unat carry) buffer i buffer'"
      using i(2) "2.prems"(2) total s(2,3) by (intro carried_Suc) (auto simp: V_def)
    then show ?thesis
      using i(1) False jle by (auto simp: Let_def simp flip: t_def)
  qed
qed simp

lemma carried_stop_bound:
  assumes "carried stop_at m (unat b) buffer j buffer'" "from_base 58 (take m buffer) < 256 ^ i" "m \<le> length buffer"
    and "m \<le> unat stop_at + i * 138 div 100 + 1" "unat (b :: u32) < 256"
  shows "from_base 58 (take m buffer') < 256 ^ Suc i \<and> m \<le> j + Suc i * 138 div 100 + 1"
proof -
  note c = assms(1) [unfolded carried_def]
  have "from_base 58 (take m buffer) * 256 + unat b < (from_base 58 (take m buffer) + 1) * 256"
    using assms(5) by simp
  also have "\<dots> \<le> 256 ^ Suc i"
    using assms(2) by (simp only: power_Suc2 mult_le_mono1 Suc_eq_plus1 [symmetric] Suc_le_eq)
  finally have v: "from_base 58 (take m buffer') < 256 ^ Suc i"
    using c by simp
  have "m \<le> j + Suc i * 138 div 100 + 1"
  proof (cases "Suc j = unat stop_at")
    case True
    have "i * 138 div 100 + 1 \<le> Suc i * 138 div 100"
      by simp
    then show ?thesis
      using True assms(4) by linarith
  next
    case False
    then have "drop j (take m buffer') = buffer' ! j # drop (Suc j) (take m buffer')" and "buffer' ! j \<noteq> 0"
      using c assms(3) Cons_nth_drop_Suc [of j "take m buffer'"] by simp_all
    then have "58 ^ (m - Suc j) \<le> from_base 58 (drop j (take m buffer'))"
      using from_base_ge [of "buffer' ! j" 58 "drop (Suc j) (take m buffer')"] c assms(3) by simp
    also have "\<dots> \<le> from_base 58 (take m buffer')"
      using from_base_append [of 58 "take j (take m buffer')" "drop j (take m buffer')"]
      unfolding append_take_drop_id by linarith
    also have "\<dots> < 58 ^ (Suc i * 138 div 100 + 1)"
      using v power_bound [of "Suc i"] by (rule order_less_le_trans)
    finally have "m - Suc j < Suc i * 138 div 100 + 1"
      by (rule power_less_imp_less_exp [rotated]) simp
    then show ?thesis
      by linarith
  qed
  with v show ?thesis by simp
qed

lemma encode_loop_value:
  "m = (i + length bs) * 138 div 100 + 1 \<Longrightarrow> i + length bs \<le> 120 \<Longrightarrow> m \<le> length buffer \<Longrightarrow>
   digits_below 58 (take m buffer) \<Longrightarrow> (\<forall>k < unat stop_at. buffer ! k = 0) \<Longrightarrow> unat stop_at < m \<Longrightarrow>
   from_base 58 (take m buffer) < 256 ^ i \<Longrightarrow> m \<le> unat stop_at + i * 138 div 100 + 1 \<Longrightarrow>
   digits_below 58 (take m (encode_loop m stop_at bs buffer)) \<and> length (encode_loop m stop_at bs buffer) = length buffer
   \<and> from_base 58 (take m (encode_loop m stop_at bs buffer))
     = from_base 58 (take m buffer) * 256 ^ length bs + from_base 256 bs"
proof (induction bs arbitrary: i stop_at buffer)
  case (Cons b bs)
  let ?b = "ucast b :: u32"
  have b: "unat ?b = unat b" "unat ?b < 256"
    by (simp_all add: unat_ucast_up unat_u8_bound)
  have i: "i * 138 div 100 + 1 \<le> Suc i * 138 div 100" "Suc i * 138 div 100 + 1 \<le> m"
    using Cons.prems(1) by (simp_all add: div_le_mono)
  then have stop: "0 < unat stop_at"
    using Cons.prems(8) by linarith
  have m: "0 < m" "m < 2 ^ 32"
    using Cons.prems(1,2) by simp_all
  have "from_base 58 (take m buffer) * 256 + unat ?b < 256 ^ Suc i"
    using Cons.prems(7) b(2) by simp
  also have "\<dots> \<le> 58 ^ (Suc i * 138 div 100 + 1)"
    by (rule power_bound)
  also have "\<dots> \<le> 58 ^ m"
    using i(2) by (rule power_increasing) simp
  finally obtain j buffer' where j: "carry_loop stop_at m ?b buffer = (word_of_nat j, buffer')"
      and c: "carried stop_at m (unat ?b) buffer j buffer'"
    using carry_loop_carried [of m buffer stop_at ?b] Cons.prems(3-6) b(2) stop m by auto
  note c' = c [unfolded carried_def]
  have j': "unat (word_of_nat j :: size_t) = j"
    using conjunct1 [OF c'] m(2) by (intro unat_of_nat_u32) simp
  note bound = carried_stop_bound [OF c Cons.prems(7,3,8) b(2)]
  have "digits_below 58 (take m (encode_loop m (word_of_nat j) bs buffer')) \<and> length (encode_loop m (word_of_nat j) bs buffer') = length buffer'
   \<and> from_base 58 (take m (encode_loop m (word_of_nat j) bs buffer'))
     = from_base 58 (take m buffer') * 256 ^ length bs + from_base 256 bs"
    using c' bound j' Cons.prems(1,2,3) by (intro Cons.IH [of "Suc i"]) simp_all
  then show ?case
    using c' by (simp add: j b(1) algebra_simps)
qed simp

text \<open>What encoding computes.\<close>

lemma base58_encode_digits:
  assumes "length bs \<le> 120"
  shows "\<exists>c. canonical 58 c \<and> from_base 58 c = from_base 256 bs \<and>
    base58_encode bs n =
      (let ds = replicate (length (takeWhile (\<lambda>b. b = 0) bs)) 0 @ c
       in if n < length ds then None else Some (map (\<lambda>d. BASE58_ALPHABET ! unat d) ds))"
proof -
  define z where "z = length (takeWhile (\<lambda>b. b = 0) bs)"
  define m where "m = (length bs - z) * 138 div 100 + 1"
  define start where "start = replicate 166 (0 :: u8)"
  define w where "w = take m (encode_loop m (word_of_nat (m - 1)) (drop z bs) start)"
  define c where "c = dropWhile (\<lambda>d. d = 0) w"
  have start: "length start = 166" "\<And>k. k < 166 \<Longrightarrow> start ! k = 0"
    by (simp_all add: start_def)
  have m: "m \<le> 166"
    using assms div_le_mono [of "(length bs - z) * 138" 16560 100] by (simp add: m_def)
  have stop: "unat (word_of_nat (m - 1) :: size_t) = m - 1"
    using m by (intro unat_of_nat_u32) simp
  have below: "digits_below 58 (take m start)"
    using start by (auto simp: digits_below_def list_all_length)
  have zero: "from_base 58 (take m start) = 0"
    using start m by (intro from_base_zero) simp
  have "digits_below 58 w \<and> length (encode_loop m (word_of_nat (m - 1)) (drop z bs) start) = 166
      \<and> from_base 58 w = from_base 256 (drop z bs)"
    using encode_loop_value [of m 0 "drop z bs" start "word_of_nat (m - 1)"] assms m stop start below zero
    by (simp add: w_def) (simp add: m_def)
  then have w: "digits_below 58 w" "length w = m" "from_base 58 w = from_base 256 bs"
    using m by (simp_all add: w_def) (simp add: z_def drop_zeros)
  have t: "length (takeWhile (\<lambda>d. d = 0) w) + length c = m" "drop (length (takeWhile (\<lambda>d. d = 0) w)) w = c"
    using w(2) by (simp_all add: c_def drop_zeros flip: length_append)
  have "base58_encode bs n =
      (if n < z + length c then None
       else Some (replicate z (BASE58_ALPHABET ! 0) @ map (\<lambda>d. BASE58_ALPHABET ! unat d) c))"
    using assms t(1) t(2)
    unfolding base58_encode_def Let_def z_def [symmetric] m_def [symmetric] start_def [symmetric] w_def [symmetric]
    by auto
  then show ?thesis
    using w by (intro exI [of _ c]) (simp add: c_def canonical_dropWhile flip: z_def)
qed

section \<open>Properties\<close>

lemma zeros_of_canonical:
  assumes "canonical b c"
  shows "length (takeWhile (\<lambda>d. d = 0) (replicate z 0 @ c)) = z" "dropWhile (\<lambda>d. d = 0) (replicate z 0 @ c) = c"
  using assms by (induction z) (cases c; simp add: canonical_def)+

lemma from_base_zeros [simp]: "from_base b (replicate z 0) = 0"
  by (induction z) simp_all

lemma digits_below_zeros [simp]: "0 < b \<Longrightarrow> digits_below b (replicate z 0)"
  by (simp add: digits_below_def list_all_iff)

lemma canonical_length_le:
  assumes "canonical b c" "from_base b c < b ^ e" "1 < b" shows "length c \<le> e"
proof (cases c)
  case (Cons d ds)
  have "b ^ length ds \<le> from_base b c"
    using assms(1) from_base_ge [of d b ds] Cons by (simp add: canonical_def)
  also have "\<dots> < b ^ e"
    by (rule assms(2))
  finally show ?thesis
    using Cons assms(3) by simp
qed simp

lemma power_bound_120: "k \<le> 120 \<Longrightarrow> 256 ^ k \<le> (58 :: nat) ^ (44 + k)"
proof -
  assume k: "k \<le> 120"
  then have "256 ^ k * 58 ^ (120 - k) \<le> 256 ^ k * (256 :: nat) ^ (120 - k)"
    by (intro mult_le_mono2 power_mono) simp_all
  also have "\<dots> = 256 ^ 120"
    using k by (simp only: le_add_diff_inverse flip: power_add)
  also have "\<dots> \<le> 58 ^ 164"
    by simp
  also have "\<dots> = 58 ^ (44 + k) * 58 ^ (120 - k)"
    using k by (simp only: flip: power_add) simp
  finally show ?thesis
    by simp
qed

lemma from_base_length_le:
  assumes "from_base b ds < b ^ e" "digits_below b ds" "1 < b" shows "length (dropWhile (\<lambda>d. d = 0) ds) \<le> e"
  using canonical_length_le [OF canonical_dropWhile [OF assms(2)], of e] assms(1,3) by simp

lemma encoding_length:
  assumes "canonical 58 c" "from_base 58 c = from_base 256 bs" "length bs \<le> 120"
  shows "length (takeWhile (\<lambda>b. b = 0) bs) + length c \<le> 164"
proof -
  let ?z = "length (takeWhile (\<lambda>b. b = 0) bs)" and ?k = "length (dropWhile (\<lambda>b. b = 0) bs)"
  have zk: "?z + ?k = length bs"
    by (simp flip: length_append)
  have "from_base 58 c < 256 ^ ?k"
    using from_base_less [of 256 "dropWhile (\<lambda>b. b = 0) bs"] assms(2) by simp
  also have "\<dots> \<le> 58 ^ (44 + ?k)"
    using zk assms(3) by (intro power_bound_120) simp
  finally have "length c \<le> 44 + ?k"
    using canonical_length_le [OF assms(1)] by simp
  then show ?thesis
    using zk assms(3) by linarith
qed

lemma encoding_length_ge:
  assumes "from_base 58 c = from_base 256 bs" "digits_below 58 c" "2 \<le> length bs"
  shows "2 \<le> length (takeWhile (\<lambda>b. b = 0) bs) + length c"
proof (rule ccontr)
  assume "\<not> ?thesis"
  then consider "takeWhile (\<lambda>b. b = 0) bs = []" "length c \<le> 1" | "length (takeWhile (\<lambda>b. b = 0) bs) = 1" "c = []"
    by (cases "takeWhile (\<lambda>b. b = 0) bs"; cases c) (auto simp: not_less_eq_eq)
  then show False
  proof cases
    case 1
    obtain x y ys where bs: "bs = x # y # ys" "x \<noteq> 0"
      using assms(3) 1(1) by (cases bs; cases "tl bs") (auto split: if_splits)
    have "256 ^ 1 \<le> (256 :: nat) ^ length (y # ys)"
      by (rule power_increasing) simp_all
    also have "\<dots> \<le> from_base 58 c"
      using from_base_ge [of x 256 "y # ys"] bs assms(1) by simp
    finally show False
      using 1(2) assms(2) by (cases c) auto
  next
    case 2
    obtain x y ys where bs: "bs = x # y # ys"
      using assms(3) by (cases bs; cases "tl bs") auto
    then have "y \<noteq> 0"
      using 2(1) by (auto split: if_splits)
    have "1 \<le> (256 :: nat) ^ length ys"
      by simp
    also have "\<dots> \<le> from_base 256 bs"
      using from_base_ge [OF \<open>y \<noteq> 0\<close>, of 256 ys] bs by simp
    finally show False
      using 2(2) assms(1) by simp
  qed
qed

text \<open>C30: Decoding inverts encoding: whatever \<open>base58_encode\<close> produces for two or more bytes is decoded to
  these bytes, given enough room for them, and refused otherwise.\<close>

theorem base58_decode_encode:
  assumes "base58_encode bs n = Some s" and "2 \<le> length bs"
  shows "base58_decode s m = (if m < length bs then None else Some bs)"
proof -
  let ?z = "length (takeWhile (\<lambda>b. b = 0) bs)"
  have l: "length bs \<le> 120"
    using assms(1) unfolding base58_encode_def Let_def by (simp split: if_splits)
  then obtain c where c: "canonical 58 c" "from_base 58 c = from_base 256 bs"
      "s = map (\<lambda>d. BASE58_ALPHABET ! unat d) (replicate ?z 0 @ c)"
    using base58_encode_digits [OF l, of n] assms(1) by (auto simp: Let_def split: if_splits)
  have d: "digits_below 58 (replicate ?z 0 @ c)" "digits_below 58 c"
    using c(1) by (simp_all add: canonical_def)
  have "2 \<le> length (replicate ?z 0 @ c)" "length (replicate ?z 0 @ c) \<le> 164"
    using encoding_length_ge [OF c(2) d(2) assms(2)] encoding_length [OF c(1,2) l] by simp_all
  then obtain c' where c': "canonical 256 c'" "from_base 256 c' = from_base 256 bs"
      "base58_decode s m = (let out = replicate ?z 0 @ c' in if m < length out then None else Some out)"
    using base58_decode_digits [OF d(1), of m] c by (auto simp: zeros_of_canonical [OF c(1)])
  have "c' = dropWhile (\<lambda>b. b = 0) bs"
    using c' canonical_dropWhile [of 256 bs] by (intro canonical_inj [of 256]) simp_all
  then show ?thesis
    using c'(3) zeros_prefix [of bs] by (simp add: Let_def)
qed

theorem base58_decode_encode_witness:
  "base58_encode [0, 0, 1, 2, 3] 20 = Some (ascii_string ''11Ldp'')
   \<and> base58_decode (ascii_string ''11Ldp'') 5 = Some [0, 0, 1, 2, 3]"
proof -
  have e: "base58_encode [0, 0, 1, 2, 3] 20 = Some (ascii_string ''11Ldp'')"
    by code_simp
  then show ?thesis
    using base58_decode_encode [OF e, of 5] by simp
qed

text \<open>C31: Encoding inverts decoding: a string that is accepted is the encoding of the result (if that is
  short enough to be encoded), so no two strings decode to the same bytes.\<close>

theorem base58_encode_decode:
  assumes "base58_decode s n = Some bs" and "length bs \<le> 120"
  shows "base58_encode bs m = (if m < length s then None else Some s)"
proof -
  obtain ds where ds: "digits_below 58 ds" "s = map (\<lambda>d. BASE58_ALPHABET ! unat d) ds"
      and "2 \<le> length ds" "length ds \<le> 164"
    using assms(1) unfolding base58_decode_def Let_def
    by (auto simp: base58_digits_iff split: if_splits elim!: bind_SomeE)
  let ?z = "length (takeWhile (\<lambda>d. d = 0) ds)"
  obtain c where c: "canonical 256 c" "from_base 256 c = from_base 58 ds" "bs = replicate ?z 0 @ c"
    using base58_decode_digits [OF ds(1) \<open>2 \<le> length ds\<close> \<open>length ds \<le> 164\<close>, of n] assms(1) ds(2)
    by (auto simp: Let_def split: if_splits)
  obtain c' where c': "canonical 58 c'" "from_base 58 c' = from_base 58 ds"
      "base58_encode bs m = (let ds = replicate ?z 0 @ c' in
        if m < length ds then None else Some (map (\<lambda>d. BASE58_ALPHABET ! unat d) ds))"
    using base58_encode_digits [OF assms(2), of m] c by (auto simp: zeros_of_canonical [OF c(1)])
  have "c' = dropWhile (\<lambda>d. d = 0) ds"
    using c' canonical_dropWhile [OF ds(1)] by (intro canonical_inj [of 58]) simp_all
  then show ?thesis
    using c'(3) zeros_prefix [of ds] ds(2) by (simp add: Let_def)
qed

theorem base58_encode_decode_witness:
  "base58_decode (ascii_string ''1zz'') 9 = Some [0, 13, 35] \<and> base58_encode [0, 13, 35] 3 = Some (ascii_string ''1zz'')"
proof -
  have d: "base58_decode (ascii_string ''1zz'') 9 = Some [0, 13, 35]"
    by code_simp
  then show ?thesis
    using base58_encode_decode [OF d, of 3] by simp
qed

end
