(* ===== verification/Crypto.thy ===== *)
theory Crypto
  imports Buffer Base58
begin

text \<open>
  The cryptographic helpers of \<^verbatim>\<open>src/src/crypto.c\<close> and \<^verbatim>\<open>src/src/secp256k1.c\<close>: public key formats,
  BIP-32 public derivation, checksums, addresses and the tagged hashes of BIP-340/341.

  The primitives belong to the operating system of the device, which is not part of the
  repository: hash functions, arithmetic on 32-byte big-endian numbers, operations on points of the
  curve, random numbers and the derivation of keys from the seed.  They are the fields of the record
  \<open>platform\<close>, a parameter of the model; \<open>None\<close> is an error code.  \<open>uninitialised n\<close> are the contents
  of an array of \<open>n\<close> bytes that holds no result, because it was never written or by a call that failed.
\<close>

text \<open>The result of an operation on points, for which one error code means the point at infinity.\<close>

datatype 'a cx_result = CX_OK 'a | CX_EC_INFINITE_POINT | CX_ERROR

fun cx_ok :: "'a cx_result \<Rightarrow> 'a option" where
  "cx_ok (CX_OK x) = Some x"
| "cx_ok _ = None"

record platform =
  cx_hash_sha256 :: "bytes \<Rightarrow> bytes"
  cx_ripemd160_hash :: "bytes \<Rightarrow> bytes"
  cx_hmac_sha256 :: "bytes \<Rightarrow> bytes \<Rightarrow> bytes"
  cx_hmac_sha512 :: "bytes \<Rightarrow> bytes \<Rightarrow> bytes"
  cx_math_cmp :: "bytes \<Rightarrow> bytes \<Rightarrow> int option"
  cx_math_powm :: "bytes \<Rightarrow> bytes \<Rightarrow> bytes \<Rightarrow> bytes option"
  cx_math_addm :: "bytes \<Rightarrow> bytes \<Rightarrow> bytes \<Rightarrow> bytes option"
  cx_math_sub :: "bytes \<Rightarrow> bytes \<Rightarrow> bytes option"
  cx_ecpoint_scalarmul :: "bytes \<times> bytes \<Rightarrow> bytes \<Rightarrow> (bytes \<times> bytes) option"
  cx_math_multm :: "bytes \<Rightarrow> bytes \<Rightarrow> bytes \<Rightarrow> bytes option"
  cx_math_modm :: "bytes \<Rightarrow> bytes \<Rightarrow> bytes option"
  cx_ecfp_scalar_mult :: "bytes \<Rightarrow> bytes \<Rightarrow> bytes cx_result"
  cx_ecfp_add_point :: "bytes \<Rightarrow> bytes \<Rightarrow> bytes cx_result"
  cx_ecfp_public_key :: "bytes \<Rightarrow> bytes option"
  cx_ecdsa_sign :: "bytes \<Rightarrow> bytes \<Rightarrow> (bytes \<times> u32) option"
  bip32_derive_init_privkey_256 :: "u32 list \<Rightarrow> bytes option"
  bip32_derive_get_pubkey_256 :: "u32 list \<Rightarrow> (bytes \<times> bytes) option"
  os_derive_slip21 :: "bytes \<Rightarrow> bytes option"
  uninitialised :: "nat \<Rightarrow> bytes"

section \<open>Constants of the curve\<close>

definition secp256k1_generator :: bytes where
  "secp256k1_generator =
    [0x04,
     0x79, 0xBE, 0x66, 0x7E, 0xF9, 0xDC, 0xBB, 0xAC, 0x55, 0xA0, 0x62, 0x95, 0xCE, 0x87, 0x0B, 0x07,
     0x02, 0x9B, 0xFC, 0xDB, 0x2D, 0xCE, 0x28, 0xD9, 0x59, 0xF2, 0x81, 0x5B, 0x16, 0xF8, 0x17, 0x98,
     0x48, 0x3A, 0xDA, 0x77, 0x26, 0xA3, 0xC4, 0x65, 0x5D, 0xA4, 0xFB, 0xFC, 0x0E, 0x11, 0x08, 0xA8,
     0xFD, 0x17, 0xB4, 0x48, 0xA6, 0x85, 0x54, 0x19, 0x9C, 0x47, 0xD0, 0x8F, 0xFB, 0x10, 0xD4, 0xB8]"

definition secp256k1_p :: bytes where
  "secp256k1_p =
    [0xFF, 0xFF, 0xFF, 0xFF, 0xFF, 0xFF, 0xFF, 0xFF, 0xFF, 0xFF, 0xFF, 0xFF, 0xFF, 0xFF, 0xFF, 0xFF,
     0xFF, 0xFF, 0xFF, 0xFF, 0xFF, 0xFF, 0xFF, 0xFF, 0xFF, 0xFF, 0xFF, 0xFE, 0xFF, 0xFF, 0xFC, 0x2F]"

definition secp256k1_n :: bytes where
  "secp256k1_n =
    [0xFF, 0xFF, 0xFF, 0xFF, 0xFF, 0xFF, 0xFF, 0xFF, 0xFF, 0xFF, 0xFF, 0xFF, 0xFF, 0xFF, 0xFF, 0xFE,
     0xBA, 0xAE, 0xDC, 0xE6, 0xAF, 0x48, 0xA0, 0x3B, 0xBF, 0xD2, 0x5E, 0x8C, 0xD0, 0x36, 0x41, 0x41]"

definition secp256k1_sqr_exponent :: bytes where
  "secp256k1_sqr_exponent =
    [0x3F, 0xFF, 0xFF, 0xFF, 0xFF, 0xFF, 0xFF, 0xFF, 0xFF, 0xFF, 0xFF, 0xFF, 0xFF, 0xFF, 0xFF, 0xFF,
     0xFF, 0xFF, 0xFF, 0xFF, 0xFF, 0xFF, 0xFF, 0xFF, 0xFF, 0xFF, 0xFF, 0xFF, 0xBF, 0xFF, 0xFF, 0x0C]"

section \<open>Points\<close>

definition cx_ecfp_scalar_mult_unsafe :: "platform \<Rightarrow> bytes \<Rightarrow> bytes \<Rightarrow> bytes option" where
  "cx_ecfp_scalar_mult_unsafe cx P k =
     do {
       (x, y) \<leftarrow> cx_ecpoint_scalarmul cx (take 32 (drop 1 P), take 32 (drop 33 P)) k;
       Some (0x04 # x @ y) }"

definition secp256k1_point :: "platform \<Rightarrow> bytes \<Rightarrow> bytes option" where
  "secp256k1_point cx k = cx_ok (cx_ecfp_scalar_mult cx secp256k1_generator k)"

definition secp256k1_point_unsafe :: "platform \<Rightarrow> bytes \<Rightarrow> bytes option" where
  "secp256k1_point_unsafe cx k = cx_ecfp_scalar_mult_unsafe cx secp256k1_generator k"

definition below :: "platform \<Rightarrow> bytes \<Rightarrow> bytes \<Rightarrow> bool" where
  "below cx a b = (case cx_math_cmp cx a b of None \<Rightarrow> False | Some diff \<Rightarrow> diff < 0)"

section \<open>Hashes\<close>

definition crypto_ripemd160 :: "platform \<Rightarrow> bytes \<Rightarrow> bytes" where
  "crypto_ripemd160 cx x = cx_ripemd160_hash cx x"

definition crypto_hash160 :: "platform \<Rightarrow> bytes \<Rightarrow> bytes" where
  "crypto_hash160 cx x = crypto_ripemd160 cx (cx_hash_sha256 cx x)"

definition crypto_get_checksum :: "platform \<Rightarrow> bytes \<Rightarrow> bytes" where
  "crypto_get_checksum cx x = take 4 (cx_hash_sha256 cx (cx_hash_sha256 cx x))"

definition crypto_get_key_fingerprint :: "platform \<Rightarrow> bytes \<Rightarrow> u32 option" where
  "crypto_get_key_fingerprint cx pub_key = read_u32_be (crypto_hash160 cx pub_key) 0"

section \<open>Public keys\<close>

definition crypto_get_compressed_pubkey :: "bytes \<Rightarrow> bytes option" where
  "crypto_get_compressed_pubkey uncompressed_key =
     (if uncompressed_key ! 0 \<noteq> 0x04 then None
      else Some ((if uncompressed_key ! 64 mod 2 = 1 then 0x03 else 0x02) # take 32 (drop 1 uncompressed_key)))"

text \<open>The square root of \<open>x\<^sup>3 + 7\<close> modulo the prime; the second result is \<open>x\<^sup>3 + 7\<close>.\<close>

definition curve_root :: "platform \<Rightarrow> bytes \<Rightarrow> (bytes \<times> bytes) option" where
  "curve_root cx x =
     do {
       c \<leftarrow> cx_math_powm cx x [3] secp256k1_p;
       c \<leftarrow> cx_math_addm cx c (replicate 31 0 @ [7]) secp256k1_p;
       y \<leftarrow> cx_math_powm cx c secp256k1_sqr_exponent secp256k1_p;
       Some (y, c) }"

definition crypto_get_uncompressed_pubkey :: "platform \<Rightarrow> bytes \<Rightarrow> bytes option" where
  "crypto_get_uncompressed_pubkey cx compressed_key =
     (let prefix = compressed_key ! 0; x = take 32 (drop 1 compressed_key) in
      if prefix \<noteq> 0x02 \<and> prefix \<noteq> 0x03 then None
      else do {
        (y, _) \<leftarrow> curve_root cx x;
        y \<leftarrow> (if (prefix XOR y ! 31) AND 1 \<noteq> 0 then cx_math_sub cx secp256k1_p y else Some y);
        Some (0x04 # x @ y) })"

definition crypto_tr_lift_x :: "platform \<Rightarrow> bytes \<Rightarrow> bytes option" where
  "crypto_tr_lift_x cx x =
     do {
       (y, c) \<leftarrow> curve_root cx x;
       y_2 \<leftarrow> cx_math_powm cx y [2] secp256k1_p;
       diff \<leftarrow> cx_math_cmp cx y_2 c;
       if diff \<noteq> 0 then None
       else do {
         y \<leftarrow> (if y ! 31 AND 1 \<noteq> 0 then cx_math_sub cx secp256k1_p y else Some y);
         Some (0x04 # x @ y) }}"

section \<open>Extended public keys\<close>

record serialized_extended_pubkey_t =
  xpub_version :: bytes
  xpub_depth :: u8
  xpub_parent_fingerprint :: bytes
  xpub_child_number :: bytes
  xpub_chain_code :: bytes
  xpub_compressed_pubkey :: bytes

definition u32_be :: "u32 \<Rightarrow> bytes" where
  "u32_be v = [ucast (drop_bit 24 v), ucast (drop_bit 16 v), ucast (drop_bit 8 v), ucast v]"

lemma write_u32_be_bytes: "write_u32_be [0, 0, 0, 0] 0 v = Some (u32_be v)"
  by (simp add: bytes_defs wr_def u32_be_def)

lemma u32_be_inj: "u32_be v = u32_be w \<longleftrightarrow> v = w"
proof
  assume "u32_be v = u32_be w"
  then have "Some v = Some w"
    using read_write_u32_be [OF write_u32_be_bytes, of v] read_write_u32_be [OF write_u32_be_bytes, of w] by argo
  then show "v = w"
    by (rule option.inject [THEN iffD1])
qed simp

lemma length_u32_be [simp]: "length (u32_be v) = 4"
  by (simp add: u32_be_def)

text \<open>The structure as an array of 78 bytes, and back.\<close>

definition xpub_bytes :: "serialized_extended_pubkey_t \<Rightarrow> bytes" where
  "xpub_bytes k = xpub_version k @ [xpub_depth k] @ xpub_parent_fingerprint k @ xpub_child_number k
     @ xpub_chain_code k @ xpub_compressed_pubkey k"

definition xpub_of_bytes :: "bytes \<Rightarrow> serialized_extended_pubkey_t" where
  "xpub_of_bytes b = \<lparr>xpub_version = take 4 b, xpub_depth = b ! 4, xpub_parent_fingerprint = take 4 (drop 5 b),
     xpub_child_number = take 4 (drop 9 b), xpub_chain_code = take 32 (drop 13 b),
     xpub_compressed_pubkey = take 33 (drop 45 b)\<rparr>"

text \<open>The child is given with its old contents, since the last step can leave its public key as it was.
  The results of \<open>crypto_get_uncompressed_pubkey\<close> and \<open>crypto_get_compressed_pubkey\<close> are not checked
  by the code.  The second result is the tweak.\<close>

definition bip32_CKDpub ::
    "platform \<Rightarrow> serialized_extended_pubkey_t \<Rightarrow> u32 \<Rightarrow> serialized_extended_pubkey_t \<Rightarrow>
     (serialized_extended_pubkey_t \<times> bytes) option" where
  "bip32_CKDpub cx parent index child =
     (if index \<ge> 0x80000000 then None
      else if xpub_depth parent = 255 then None
      else
        let I = cx_hmac_sha512 cx (xpub_chain_code parent) (xpub_compressed_pubkey parent @ u32_be index);
            I_L = take 32 I; I_R = take 32 (drop 32 I)
        in if \<not> below cx I_L secp256k1_n then None
           else do {
             P \<leftarrow> secp256k1_point_unsafe cx I_L;
             let K_par = (case crypto_get_uncompressed_pubkey cx (xpub_compressed_pubkey parent) of
                            None \<Rightarrow> uninitialised cx 65 | Some K \<Rightarrow> K);
             K \<leftarrow> cx_ok (cx_ecfp_add_point cx P K_par);
             parent_fingerprint \<leftarrow> crypto_get_key_fingerprint cx (xpub_compressed_pubkey parent);
             Some (\<lparr>xpub_version = xpub_version parent, xpub_depth = xpub_depth parent + 1,
                    xpub_parent_fingerprint = u32_be parent_fingerprint, xpub_child_number = u32_be index,
                    xpub_chain_code = I_R,
                    xpub_compressed_pubkey = (case crypto_get_compressed_pubkey K of
                      None \<Rightarrow> xpub_compressed_pubkey child | Some k \<Rightarrow> k)\<rparr>, I_L) })"

definition crypto_get_compressed_pubkey_at_path :: "platform \<Rightarrow> u32 list \<Rightarrow> (bytes \<times> bytes) option" where
  "crypto_get_compressed_pubkey_at_path cx path =
     do {
       (raw_public_key, chain_code) \<leftarrow> bip32_derive_get_pubkey_256 cx path;
       pubkey \<leftarrow> crypto_get_compressed_pubkey raw_public_key;
       Some (pubkey, chain_code) }"

definition crypto_get_master_key_fingerprint :: "platform \<Rightarrow> u32 option" where
  "crypto_get_master_key_fingerprint cx =
     crypto_get_key_fingerprint cx
       (case crypto_get_compressed_pubkey_at_path cx [] of
          None \<Rightarrow> uninitialised cx 33 | Some (pubkey, _) \<Rightarrow> pubkey)"

definition crypto_derive_symmetric_key :: "platform \<Rightarrow> bytes \<Rightarrow> bytes option" where
  "crypto_derive_symmetric_key cx label = os_derive_slip21 cx label"

definition get_extended_pubkey_at_path ::
    "platform \<Rightarrow> u32 list \<Rightarrow> u32 \<Rightarrow> serialized_extended_pubkey_t option" where
  "get_extended_pubkey_at_path cx path version =
     do {
       (parent_fingerprint, child_number) \<leftarrow>
         (if path \<noteq> [] then do {
            (parent_pubkey, _) \<leftarrow> crypto_get_compressed_pubkey_at_path cx (butlast path);
            f \<leftarrow> crypto_get_key_fingerprint cx parent_pubkey;
            Some (f, last path) }
          else Some (0, 0));
       (pubkey, chain_code) \<leftarrow> crypto_get_compressed_pubkey_at_path cx path;
       Some \<lparr>xpub_version = u32_be version, xpub_depth = word_of_nat (length path),
             xpub_parent_fingerprint = u32_be parent_fingerprint, xpub_child_number = u32_be child_number,
             xpub_chain_code = chain_code, xpub_compressed_pubkey = pubkey\<rparr> }"

definition address_version :: "u32 \<Rightarrow> bytes" where
  "address_version version =
     (if version < 256 then [ucast version]
      else if version < 65536 then [ucast (drop_bit 8 version), ucast version]
      else u32_be version)"

definition base58_encode_address :: "platform \<Rightarrow> bytes \<Rightarrow> u32 \<Rightarrow> nat \<Rightarrow> bytes option" where
  "base58_encode_address cx h version out_len =
     (let tmp = address_version version @ h
      in base58_encode (tmp @ crypto_get_checksum cx tmp) out_len)"

text \<open>The signature, the public key (which is written on request only) and the parity information.\<close>

definition crypto_ecdsa_sign_sha256_hash_with_key ::
    "platform \<Rightarrow> u32 list \<Rightarrow> bytes \<Rightarrow> bool \<Rightarrow> (bytes \<times> bytes option \<times> u32) option" where
  "crypto_ecdsa_sign_sha256_hash_with_key cx path h want_pubkey =
     do {
       private_key \<leftarrow> bip32_derive_init_privkey_256 cx path;
       (sig, info) \<leftarrow> cx_ecdsa_sign cx private_key h;
       pubkey \<leftarrow>
         (if want_pubkey then do {
            W \<leftarrow> cx_ecfp_public_key cx private_key;
            k \<leftarrow> crypto_get_compressed_pubkey W;
            Some (Some k) }
          else Some None);
       Some (sig, pubkey, info) }"

section \<open>Taproot\<close>

definition crypto_tr_tagged_hash_init :: "platform \<Rightarrow> bytes \<Rightarrow> bytes" where
  "crypto_tr_tagged_hash_init cx tag = cx_hash_sha256 cx tag @ cx_hash_sha256 cx tag"

definition crypto_tr_tapleaf_hash_init :: "platform \<Rightarrow> bytes" where
  "crypto_tr_tapleaf_hash_init cx = crypto_tr_tagged_hash_init cx (ascii_string ''TapLeaf'')"

definition crypto_tr_tagged_hash :: "platform \<Rightarrow> bytes \<Rightarrow> bytes \<Rightarrow> bytes \<Rightarrow> bytes" where
  "crypto_tr_tagged_hash cx tag data data2 =
     (let h = cx_hash_sha256 cx tag in cx_hash_sha256 cx (h @ h @ data @ data2))"

definition crypto_tr_combine_taptree_hashes :: "platform \<Rightarrow> bytes \<Rightarrow> bytes \<Rightarrow> bytes" where
  "crypto_tr_combine_taptree_hashes cx left_h right_h =
     (if memcmp left_h right_h < 0
      then crypto_tr_tagged_hash cx (ascii_string ''TapBranch'') left_h right_h
      else crypto_tr_tagged_hash cx (ascii_string ''TapBranch'') right_h left_h)"

text \<open>The parity of \<open>y\<close> and the coordinate \<open>x\<close> of the tweaked point.\<close>

definition crypto_tr_tweak_pubkey :: "platform \<Rightarrow> bytes \<Rightarrow> bytes \<Rightarrow> (u8 \<times> bytes) option" where
  "crypto_tr_tweak_pubkey cx pubkey h =
     (let t = crypto_tr_tagged_hash cx (ascii_string ''TapTweak'') pubkey h in
      if \<not> below cx t secp256k1_n then None
      else do {
        lifted_pubkey \<leftarrow> crypto_tr_lift_x cx pubkey;
        Q \<leftarrow> secp256k1_point_unsafe cx t;
        Q \<leftarrow> cx_ok (cx_ecfp_add_point cx Q lifted_pubkey);
        Some (Q ! 64 AND 1, take 32 (drop 1 Q)) })"

definition crypto_tr_tweak_seckey :: "platform \<Rightarrow> bytes \<Rightarrow> bytes \<Rightarrow> bytes option" where
  "crypto_tr_tweak_seckey cx seckey h =
     do {
       P \<leftarrow> secp256k1_point cx seckey;
       d \<leftarrow> (if P ! 64 AND 1 \<noteq> 0 then cx_math_sub cx secp256k1_n seckey else Some seckey);
       let t = crypto_tr_tagged_hash cx (ascii_string ''TapTweak'') (take 32 (drop 1 P)) h;
       if \<not> below cx t secp256k1_n then None
       else cx_math_addm cx d t secp256k1_n }"

section \<open>Compressed and uncompressed keys\<close>

definition big_endian :: "bytes \<Rightarrow> nat" where
  "big_endian ds = from_base 256 ds"

text \<open>What the subtraction of the operating system is documented to do, on 32-byte numbers, and that
  modular exponentiation gives a number below the modulus.\<close>

definition subtracts :: "platform \<Rightarrow> bool" where
  "subtracts cx \<longleftrightarrow> (\<forall>a b. length a = 32 \<longrightarrow> length b = 32 \<longrightarrow> big_endian b \<le> big_endian a \<longrightarrow>
     (\<exists>c. cx_math_sub cx a b = Some c \<and> length c = 32 \<and> big_endian c = big_endian a - big_endian b))"

definition reduces :: "platform \<Rightarrow> bool" where
  "reduces cx \<longleftrightarrow> (\<forall>a e m c. cx_math_powm cx a e m = Some c \<longrightarrow> length c = length m \<and> big_endian c < big_endian m)"

lemma big_endian_snoc: "big_endian (xs @ [d]) = 256 * big_endian xs + unat d"
  by (simp add: big_endian_def mult.commute)

lemma odd_big_endian:
  assumes "length c = 32" shows "odd (big_endian c) \<longleftrightarrow> odd (unat (c ! 31))"
proof -
  have "take (Suc 31) c = take 31 c @ [c ! 31]"
    using assms by (intro take_Suc_conv_app_nth) simp
  then have "big_endian c = 256 * big_endian (take 31 c) + unat (c ! 31)"
    using assms by (simp flip: big_endian_snoc)
  then show ?thesis
    by simp
qed

lemma odd_p: "odd (big_endian secp256k1_p)"
  by (subst odd_big_endian) (simp_all add: secp256k1_p_def)

lemma and_1_iff: "(x :: u8) AND 1 \<noteq> 0 \<longleftrightarrow> odd (unat x)"
  by (simp add: and_one_eq even_iff_mod_2_eq_zero word_unat_eq_iff unat_mod)

lemma mod_2_iff: "(x :: u8) mod 2 = 1 \<longleftrightarrow> odd (unat x)"
  by (simp add: word_unat_eq_iff unat_mod odd_iff_mod_2_eq_one)

lemma xor_1_iff: "((x :: u8) XOR y) AND 1 \<noteq> 0 \<longleftrightarrow> (odd (unat x) \<noteq> odd (unat y))"
proof -
  have "odd (unat x) \<longleftrightarrow> bit x 0" for x :: u8
    using and_1_iff [of x] by (simp add: and_one_eq bit_0 mod_2_eq_odd)
  then show ?thesis
    by (simp only: and_1_iff) (simp add: bit_simps)
qed

lemma curve_root_reduced:
  assumes "reduces cx" "curve_root cx x = Some (y, c)"
  shows "length y = 32 \<and> big_endian y < big_endian secp256k1_p"
  using assms unfolding reduces_def curve_root_def
  by (auto elim!: bind_SomeE simp: secp256k1_p_def)

text \<open>The square root with the parity that is asked for.\<close>

lemma root_parity:
  assumes "subtracts cx" "length y = 32" "big_endian y < big_endian secp256k1_p"
    and "(if flip then cx_math_sub cx secp256k1_p y else Some y) = Some z"
  shows "length z = 32 \<and> (odd (unat (z ! 31)) \<longleftrightarrow> (odd (unat (y ! 31)) \<noteq> flip))"
proof (cases flip)
  case True
  have p: "length secp256k1_p = 32"
    by (simp add: secp256k1_p_def)
  then have z: "length z = 32" "big_endian z = big_endian secp256k1_p - big_endian y"
    using assms True unfolding subtracts_def by fastforce+
  have "odd (big_endian z) \<longleftrightarrow> even (big_endian y)"
    using odd_p assms(3) by (simp add: z(2))
  then show ?thesis
    using True odd_big_endian [OF z(1)] odd_big_endian [OF assms(2)] z(1) by simp
qed (use assms in simp)

text \<open>A platform whose arithmetic is computed on natural numbers.\<close>

fun to_base :: "nat \<Rightarrow> nat \<Rightarrow> bytes" where
  "to_base 0 n = []"
| "to_base (Suc k) n = to_base k (n div 256) @ [word_of_nat (n mod 256)]"

lemma length_to_base [simp]: "length (to_base k n) = k"
  by (induction k n rule: to_base.induct) simp_all

lemma big_endian_to_base: "n < 256 ^ k \<Longrightarrow> big_endian (to_base k n) = n"
proof (induction k n rule: to_base.induct)
  case (2 k n)
  then have "n div 256 < 256 ^ k"
    by (intro less_mult_imp_div_less) (simp add: mult.commute)
  then show ?case
    using 2 by (simp add: big_endian_snoc unat_of_nat)
qed (simp add: big_endian_def)

definition arithmetic_platform :: platform where
  "arithmetic_platform =
    \<lparr>cx_hash_sha256 = \<lambda>x. to_base 32 (big_endian x), cx_ripemd160_hash = \<lambda>x. to_base 20 (big_endian x),
     cx_hmac_sha256 = \<lambda>k x. to_base 32 (big_endian (k @ x)), cx_hmac_sha512 = \<lambda>k x. to_base 64 (big_endian (k @ x)),
     cx_math_cmp = \<lambda>a b. Some (int (big_endian a) - int (big_endian b)),
     cx_math_powm = \<lambda>a e m. if big_endian m = 0 then None
       else Some (to_base (length m) (big_endian a ^ big_endian e mod big_endian m)),
     cx_math_addm = \<lambda>a b m. Some (to_base 32 ((big_endian a + big_endian b) mod big_endian m)),
     cx_math_sub = \<lambda>a b. Some (to_base 32 (big_endian a - big_endian b)),
     cx_ecpoint_scalarmul = \<lambda>P k. Some P,
     cx_math_multm = \<lambda>a b m. Some (to_base 32 (big_endian a * big_endian b mod big_endian m)),
     cx_math_modm = \<lambda>a m. Some (to_base 32 (big_endian a mod big_endian m)),
     cx_ecfp_scalar_mult = \<lambda>P k. CX_OK P, cx_ecfp_add_point = \<lambda>P Q. CX_OK P,
     cx_ecfp_public_key = \<lambda>k. Some secp256k1_generator, cx_ecdsa_sign = \<lambda>k h. Some (h, 0),
     bip32_derive_init_privkey_256 = \<lambda>path. Some (to_base 32 1),
     bip32_derive_get_pubkey_256 = \<lambda>path. Some (secp256k1_generator, to_base 32 (length path)),
     os_derive_slip21 = \<lambda>label. Some (to_base 32 (big_endian label)),
     uninitialised = \<lambda>n. replicate n 0\<rparr>"

lemma big_endian_less: "length a = n \<Longrightarrow> big_endian a < 256 ^ n"
  using from_base_less [of 256 a] by (simp add: big_endian_def)

lemma arithmetic_platform_laws: "subtracts arithmetic_platform" "reduces arithmetic_platform"
proof -
  show "subtracts arithmetic_platform"
    unfolding subtracts_def
  proof (intro allI impI)
    fix a b :: bytes
    assume "length a = 32"
    then have "big_endian a - big_endian b < 256 ^ 32"
      using big_endian_less [of a 32] by (intro le_less_trans [OF diff_le_self]) simp
    then show "\<exists>c. cx_math_sub arithmetic_platform a b = Some c \<and> length c = 32 \<and> big_endian c = big_endian a - big_endian b"
      by (simp add: arithmetic_platform_def big_endian_to_base)
  qed
  show "reduces arithmetic_platform"
    unfolding reduces_def
  proof (intro allI impI)
    fix a e m c
    assume c: "cx_math_powm arithmetic_platform a e m = Some c"
    let ?v = "big_endian a ^ big_endian e mod big_endian m"
    have m: "big_endian m \<noteq> 0" and c: "c = to_base (length m) ?v"
      using c by (auto simp: arithmetic_platform_def split: if_splits)
    then have v: "?v < big_endian m"
      by simp
    then have "?v < 256 ^ length m"
      using big_endian_less [of m "length m"] by simp
    then show "length c = length m \<and> big_endian c < big_endian m"
      using v by (simp add: c big_endian_to_base)
  qed
qed

section \<open>Properties\<close>

text \<open>C32: Uncompressing a public key and compressing the result gives the key back, on a platform whose
  subtraction and modular exponentiation do what they are documented to do; in particular the root
  of the curve equation that is chosen has the parity that the prefix announces.\<close>

theorem compress_uncompress_pubkey:
  assumes "subtracts cx" and "reduces cx" and "length k = 33" and "crypto_get_uncompressed_pubkey cx k = Some u"
  shows "crypto_get_compressed_pubkey u = Some k"
proof -
  let ?x = "take 32 (drop 1 k)"
  obtain y c z where r: "curve_root cx ?x = Some (y, c)" and k: "k ! 0 = 2 \<or> k ! 0 = 3" and u: "u = 4 # ?x @ z"
      and z: "(if (k ! 0 XOR y ! 31) AND 1 \<noteq> 0 then cx_math_sub cx secp256k1_p y else Some y) = Some z"
    using assms(4) by (auto simp: crypto_get_uncompressed_pubkey_def Let_def split: if_splits elim!: bind_SomeE)
  have y: "length y = 32" "big_endian y < big_endian secp256k1_p"
    using curve_root_reduced [OF assms(2) r] by simp_all
  have "length z = 32" and p: "odd (unat (z ! 31)) \<longleftrightarrow> odd (unat (k ! 0))"
    using root_parity [OF assms(1) y z] by (auto simp: xor_1_iff)
  then have "u ! 64 = z ! 31"
    using assms(3) by (simp add: u nth_append)
  moreover have "k ! 0 # take 32 (drop 1 u) = k" "u ! 0 = 4"
    using assms(3) by (cases k; simp add: u)+
  moreover have "odd (unat (k ! 0)) \<longleftrightarrow> k ! 0 = 3"
    using k by auto
  ultimately show ?thesis
    using p k by (simp add: crypto_get_compressed_pubkey_def mod_2_iff split: if_splits) auto
qed

theorem compress_uncompress_pubkey_witness:
  "\<exists>u. crypto_get_uncompressed_pubkey arithmetic_platform (3 # replicate 32 5) = Some u
     \<and> crypto_get_compressed_pubkey u = Some (3 # replicate 32 5)"
proof -
  have p: "big_endian secp256k1_p \<noteq> 0"
    using odd_p by (auto intro: ccontr)
  obtain y c where y: "curve_root arithmetic_platform (replicate 32 5) = Some (y, c)"
    using p by (simp add: curve_root_def arithmetic_platform_def)
  obtain w where w: "cx_math_sub arithmetic_platform secp256k1_p y = Some w"
    by (simp add: arithmetic_platform_def)
  obtain u where u: "crypto_get_uncompressed_pubkey arithmetic_platform (3 # replicate 32 5) = Some u"
    by (cases "(3 XOR y ! 31) AND 1 \<noteq> 0") (simp_all add: crypto_get_uncompressed_pubkey_def y w)
  then show ?thesis
    using compress_uncompress_pubkey [OF arithmetic_platform_laws _ u] by simp
qed

end
