(* ===== verification/Key_Info.thy ===== *)
theory Key_Info
  imports Policy_Keys Policy_Parser Client Crypto
begin

text \<open>
  Key information and what the handlers check of a wallet policy with it: \<open>parse_policy_map_key_info\<close>
  of \<^verbatim>\<open>src/src/common/wallet.c\<close>, and reading a policy, its sanity, standard policies and the
  authentication of registered policies of \<^verbatim>\<open>src/src/handler/lib/policy.c\<close>.

  The constants that the build chooses for a network are the fields of the record \<open>network\<close>.
\<close>

record network =
  BIP32_PUBKEY_VERSION :: u32
  BIP44_COIN_TYPE :: u32

section \<open>parse\_policy\_map\_key\_info\<close>

abbreviation (input) MAX_BIP32_PATH_STEPS :: nat where "MAX_BIP32_PATH_STEPS \<equiv> 8"
abbreviation (input) MAX_SERIALIZED_PUBKEY_LENGTH :: nat where "MAX_SERIALIZED_PUBKEY_LENGTH \<equiv> 113"
abbreviation (input) MAX_POLICY_KEY_INFO_LEN :: nat where "MAX_POLICY_KEY_INFO_LEN \<equiv> 162"

record policy_map_key_info_t =
  master_key_derivation :: "u32 list"
  master_key_fingerprint :: bytes
  has_key_origin :: bool
  has_wildcard :: bool
  ext_pubkey :: serialized_extended_pubkey_t

text \<open>The loop over the derivation steps.  The array \<open>master_key_derivation\<close> has 8 elements, and the loop
  stops with an error only when 9 have been read: storing the ninth is a \<open>Fault\<close>.\<close>

function derivation_loop :: "buffer_t \<Rightarrow> u32 list \<Rightarrow> (u32 list \<times> buffer_t) reply" where
  "derivation_loop b steps = (case consume_character b CHR ''/'' of
      None \<Rightarrow> Ok (steps, b)
    | Some b \<Rightarrow>
        if length steps > MAX_BIP32_PATH_STEPS then Err (- 1)
        else (case buffer_read_derivation_step b of
            None \<Rightarrow> Err (- 1)
          | Some (step, b) \<Rightarrow>
              if length steps \<ge> MAX_BIP32_PATH_STEPS then Fault
              else derivation_loop b (steps @ [step])))"
  by pat_completeness auto
termination
  by (relation "measure (\<lambda>(b, steps). 9 - length steps)") auto

declare derivation_loop.simps [simp del]

text \<open>The key origin: the fingerprint and the path.\<close>

definition key_origin :: "buffer_t \<Rightarrow> ((bytes \<times> u32 list) option \<times> buffer_t) reply" where
  "key_origin b = (case consume_character b CHR ''['' of
      None \<Rightarrow> Ok (None, b)
    | Some b \<Rightarrow>
        if \<not> buffer_can_read b 9 then Err (- 1)
        else (case hex_loop 4 b of
            None \<Rightarrow> Err (- 1)
          | Some (fingerprint, b) \<Rightarrow> (case derivation_loop b [] of
                Ok (steps, b) \<Rightarrow> (case consume_character b CHR '']'' of
                    None \<Rightarrow> Err (- 1)
                  | Some b \<Rightarrow> Ok (Some (fingerprint, steps), b))
              | Err e \<Rightarrow> Err e | Fault \<Rightarrow> Fault | Hang \<Rightarrow> Hang)))"

primrec read_alphanumeric :: "nat \<Rightarrow> buffer_t \<Rightarrow> bytes \<times> buffer_t" where
  "read_alphanumeric 0 b = ([], b)"
| "read_alphanumeric (Suc n) b = (case buffer_peek b of
      None \<Rightarrow> ([], b)
    | Some c \<Rightarrow>
        if is_alphanumeric c then let (word, b') = read_alphanumeric n (advance b 1) in (c # word, b')
        else ([], b))"

text \<open>The serialized key with its checksum; a shorter decoded string leaves the last bytes of the structure
  as they were.\<close>

definition decode_ext_pubkey :: "platform \<Rightarrow> bytes \<Rightarrow> serialized_extended_pubkey_t option" where
  "decode_ext_pubkey cx str =
     do {
       decoded \<leftarrow> base58_decode str 82;
       let check = decoded @ drop (length decoded) (uninitialised cx 82);
       if take 4 (drop 78 check) \<noteq> crypto_get_checksum cx (take 78 check) then None
       else Some (xpub_of_bytes (take 78 check)) }"

definition wildcard_suffix :: "buffer_t \<Rightarrow> int \<Rightarrow> (bool \<times> buffer_t) option" where
  "wildcard_suffix b version =
     (if \<not> buffer_can_read b 1 then if version = WALLET_POLICY_VERSION_V1 then None else Some (False, b)
      else if version = WALLET_POLICY_VERSION_V2 then None
      else (case buffer_read_bytes b 3 of
          None \<Rightarrow> None
        | Some (wildcard, b) \<Rightarrow>
            if buffer_can_read b 1 \<or> wildcard \<noteq> ascii_string ''/**'' then None else Some (True, b)))"

text \<open>The terminating zero of a string of 113 characters is stored outside of \<open>ext_pubkey_str\<close>.\<close>

definition parse_policy_map_key_info :: "platform \<Rightarrow> buffer_t \<Rightarrow> int \<Rightarrow> policy_map_key_info_t reply" where
  "parse_policy_map_key_info cx b version =
     (if version \<noteq> WALLET_POLICY_VERSION_V1 \<and> version \<noteq> WALLET_POLICY_VERSION_V2 then Err (- 1)
      else (case key_origin b of
          Ok (origin, b) \<Rightarrow>
            let (str, b) = read_alphanumeric MAX_SERIALIZED_PUBKEY_LENGTH b in
            if length str \<ge> MAX_SERIALIZED_PUBKEY_LENGTH then Fault
            else if length str < 111 \<or> length str > 112 then Err (- 1)
            else (case decode_ext_pubkey cx str of
                None \<Rightarrow> Err (- 1)
              | Some k \<Rightarrow> (case wildcard_suffix b version of
                    None \<Rightarrow> Err (- 1)
                  | Some (wildcard, _) \<Rightarrow>
                      Ok \<lparr>master_key_derivation = (case origin of None \<Rightarrow> [] | Some (_, steps) \<Rightarrow> steps),
                          master_key_fingerprint = (case origin of None \<Rightarrow> [0, 0, 0, 0] | Some (f, _) \<Rightarrow> f),
                          has_key_origin = (origin \<noteq> None), has_wildcard = wildcard, ext_pubkey = k\<rparr>))
        | Err e \<Rightarrow> Err e | Fault \<Rightarrow> Fault | Hang \<Rightarrow> Hang))"

section \<open>Names of the Babylon policies\<close>

datatype bbn_policy_type_t =
    BBN_POLICY_UNKNOWN | BBN_POLICY_SLASHING_1 | BBN_POLICY_SLASHING_2 | BBN_POLICY_SLASHING_3
  | BBN_POLICY_STAKE_TRANSFER | BBN_POLICY_UNBOUND | BBN_POLICY_WITHDRAW

fun bbn_policy_number :: "bbn_policy_type_t \<Rightarrow> int" where
  "bbn_policy_number BBN_POLICY_UNKNOWN = - 1"
| "bbn_policy_number BBN_POLICY_SLASHING_1 = 0"
| "bbn_policy_number BBN_POLICY_SLASHING_2 = 1"
| "bbn_policy_number BBN_POLICY_SLASHING_3 = 2"
| "bbn_policy_number BBN_POLICY_STAKE_TRANSFER = 3"
| "bbn_policy_number BBN_POLICY_UNBOUND = 4"
| "bbn_policy_number BBN_POLICY_WITHDRAW = 5"

datatype BBN_FingerPrintType =
  FP_NULL | FP_LEAF_HASH_DISPLY | FP_LEAF_HASH_CHECK | FP_FINALITY_PUB | FP_OTHER

definition get_fingerprint :: "bytes \<Rightarrow> BBN_FingerPrintType" where
  "get_fingerprint fingerprint =
     (if fingerprint = [0x00, 0x00, 0x00, 0x00] then FP_NULL
      else if fingerprint = [0x69, 0x84, 0x6d, 0x00] then FP_LEAF_HASH_DISPLY
      else if fingerprint = [0x3b, 0x9f, 0x96, 0x80] then FP_LEAF_HASH_CHECK
      else if fingerprint = [0xff, 0x11, 0x94, 0x73] then FP_FINALITY_PUB
      else FP_OTHER)"

text \<open>\<open>memcmp(name, literal, strlen(name)) == 0\<close>, on a name without zero bytes: the comparison ends at the
  terminating zero of the literal at the latest.\<close>

definition same_prefix :: "bytes \<Rightarrow> string \<Rightarrow> bool" where
  "same_prefix name literal \<longleftrightarrow> take (length name) (ascii_string literal @ [0]) = name"

definition get_action_step :: "bytes \<Rightarrow> bbn_policy_type_t" where
  "get_action_step name =
     (let name = takeWhile (\<lambda>c. c \<noteq> 0) name in
      if same_prefix name ''Consent to slashing'' then BBN_POLICY_SLASHING_1
      else if same_prefix name ''Stake / Step 1'' then BBN_POLICY_SLASHING_2
      else if same_prefix name ''Stake / Step 2'' then BBN_POLICY_SLASHING_3
      else if same_prefix name ''Stake Transfer'' then BBN_POLICY_STAKE_TRANSFER
      else if same_prefix name ''Unbond'' then BBN_POLICY_UNBOUND
      else if same_prefix name ''Withdraw'' then BBN_POLICY_WITHDRAW
      else BBN_POLICY_UNKNOWN)"

definition BBN_DESCRIPTOR_SLASHING_3 :: string where
  "BBN_DESCRIPTOR_SLASHING_3 =
     ''tr(@0/**,and_v(pk_k(@1/**),and_v(pk_k(@2/**),multi_a(6,@3/**,@4/**,@5/**,@6/**,@7/**,@8/**,@9/**,@10/**,@11/**))))''"

definition BBN_DESCRIPTOR_UNBOUND :: string where
  "BBN_DESCRIPTOR_UNBOUND =
     ''tr(@0/**,and_v(pk_k(@1/**),multi_a(6,@2/**,@3/**,@4/**,@5/**,@6/**,@7/**,@8/**,@9/**,@10/**)))''"

text \<open>\<open>descriptor\<close> is the array with the template; it is longer than the literals.\<close>

definition strcmp_equal :: "bytes \<Rightarrow> string \<Rightarrow> bool" where
  "strcmp_equal descriptor literal \<longleftrightarrow>
     take (length literal + 1) descriptor = ascii_string literal @ [0]"

definition check_descriptor :: "bytes \<Rightarrow> bbn_policy_type_t \<Rightarrow> bool" where
  "check_descriptor descriptor type = (case type of
      BBN_POLICY_UNKNOWN \<Rightarrow> False
    | BBN_POLICY_STAKE_TRANSFER \<Rightarrow> strcmp_equal descriptor ''tr(@0/**)''
    | BBN_POLICY_UNBOUND \<Rightarrow> strcmp_equal descriptor BBN_DESCRIPTOR_UNBOUND
    | BBN_POLICY_WITHDRAW \<Rightarrow> take 32 descriptor = ascii_string ''tr(@0/**,and_v(pk_k(@1/**),older''
    | _ \<Rightarrow> strcmp_equal descriptor BBN_DESCRIPTOR_SLASHING_3)"

section \<open>Reading a wallet policy\<close>

definition from_option :: "'a option \<Rightarrow> int \<Rightarrow> 'a client" where
  "from_option x e = (case x of None \<Rightarrow> (\<lambda>dc. (Err e, dc)) | Some v \<Rightarrow> value_of v)"

definition from_reply :: "'a reply \<Rightarrow> 'a client" where
  "from_reply r dc = (r, dc)"

text \<open>\<open>tmpl\<close> are the previous contents of the array for the template.  The length that
  \<open>call_get_preimage\<close> returns is not compared with the length in the header.\<close>

definition fetch_template :: "platform \<Rightarrow> policy_map_wallet_header_t \<Rightarrow> bytes \<Rightarrow> bytes client" where
  "fetch_template cx h tmpl = (case hdr_descriptor_template h of
      Inl t \<Rightarrow> value_of (t @ drop (length t) tmpl)
    | Inr digest \<Rightarrow>
        and_then (or_return (call_get_preimage (cx_hash_sha256 cx) digest tmpl) (- 1)) (\<lambda>(_, out). value_of out))"

definition read_and_parse_wallet_policy ::
    "platform \<Rightarrow> struct_sizes \<Rightarrow> buffer_t \<Rightarrow> bytes \<Rightarrow> u32 \<Rightarrow> bytes \<Rightarrow> size_t \<Rightarrow>
     (policy_map_wallet_header_t \<times> bytes \<times> size_t \<times> policy_node) client" where
  "read_and_parse_wallet_policy cx sz buf tmpl out mem out_len =
     and_then (from_option (read_wallet_policy_header buf) (- 1)) (\<lambda>(h, _).
     and_then (fetch_template cx h tmpl) (\<lambda>descriptor.
     and_then (require (\<not> 0 < bbn_policy_number (get_action_step (hdr_name h))
                        \<or> check_descriptor descriptor (get_action_step (hdr_name h))) (- 1)) (\<lambda>_.
     and_then (from_option (parse_descriptor_template sz
         (buffer_create 0 descriptor (ucast (hdr_descriptor_template_len h))) out mem out_len (uint (hdr_version h))) (- 1))
       (\<lambda>((n, policy), _). value_of (h, descriptor, n, policy)))))"

section \<open>Sanity of a policy with its keys\<close>

text \<open>Only the error \<open>-1\<close> is handled here; another error code becomes the length of a buffer that reaches
  far beyond its array, which is a \<open>Fault\<close>.\<close>

definition key_info_element :: "platform \<Rightarrow> bytes \<Rightarrow> u32 \<Rightarrow> u32 \<Rightarrow> buffer_t client" where
  "key_info_element cx root n_keys index dc =
     (case call_get_merkle_leaf_element (cx_hash_sha256 cx) root n_keys index
             (uninitialised cx MAX_POLICY_KEY_INFO_LEN) dc of
        (Ok (key_info_len, out), dc) \<Rightarrow> (Ok (buffer_create 0 out (word_of_nat key_info_len)), dc)
      | (Err e, dc) \<Rightarrow> (if e = - 1 then Err (- 1) else Fault, dc)
      | (Fault, dc) \<Rightarrow> (Fault, dc)
      | (Hang, dc) \<Rightarrow> (Hang, dc))"

definition get_pubkey_from_merkle_tree ::
    "platform \<Rightarrow> int \<Rightarrow> bytes \<Rightarrow> u32 \<Rightarrow> u32 \<Rightarrow> serialized_extended_pubkey_t client" where
  "get_pubkey_from_merkle_tree cx version root n_keys index =
     and_then (key_info_element cx root n_keys index) (\<lambda>b.
     and_then (from_reply (parse_policy_map_key_info cx b version)) (\<lambda>info. value_of (ext_pubkey info)))"

fun different_from ::
    "platform \<Rightarrow> int \<Rightarrow> bytes \<Rightarrow> u32 \<Rightarrow> serialized_extended_pubkey_t \<Rightarrow> nat \<Rightarrow> nat \<Rightarrow> unit client" where
  "different_from cx version root n_keys pubkey_i 0 j = value_of ()"
| "different_from cx version root n_keys pubkey_i (Suc n) j =
     and_then (or_return (get_pubkey_from_merkle_tree cx version root n_keys (word_of_nat j)) (- 1)) (\<lambda>pubkey_j.
     and_then (require (xpub_compressed_pubkey pubkey_i \<noteq> xpub_compressed_pubkey pubkey_j) (- 1)) (\<lambda>_.
       different_from cx version root n_keys pubkey_i n (Suc j)))"

fun all_different :: "platform \<Rightarrow> int \<Rightarrow> bytes \<Rightarrow> u32 \<Rightarrow> nat \<Rightarrow> nat \<Rightarrow> unit client" where
  "all_different cx version root n_keys 0 i = value_of ()"
| "all_different cx version root n_keys (Suc n) i =
     and_then (or_return (get_pubkey_from_merkle_tree cx version root n_keys (word_of_nat i)) (- 1)) (\<lambda>pubkey_i.
     and_then (different_from cx version root n_keys pubkey_i (unat n_keys - Suc i) (Suc i)) (\<lambda>_.
       all_different cx version root n_keys n (Suc i)))"

definition is_policy_sane :: "platform \<Rightarrow> policy_node \<Rightarrow> int \<Rightarrow> bytes \<Rightarrow> u32 \<Rightarrow> unit client" where
  "is_policy_sane cx policy version root n_keys =
     and_then (require (policy_miniscripts_sane policy) (- 1)) (\<lambda>_.
     and_then (all_different cx version root n_keys (unat (n_keys - 1)) 0) (\<lambda>_.
       require (policy_keyexprs_sane policy) (- 1)))"

section \<open>Standard policies\<close>

fun bip44_candidate :: "policy_node \<Rightarrow> (policy_node_keyexpr \<times> u32) option" where
  "bip44_candidate (With_key Tok_PKH _ k) = Some (k, 44)"
| "bip44_candidate (With_key Tok_WPKH _ k) = Some (k, 84)"
| "bip44_candidate (With_sh Tok_SH (With_key Tok_WPKH _ k)) = Some (k, 49)"
| "bip44_candidate (Tr k None) = Some (k, 86)"
| "bip44_candidate _ = None"

definition get_bip44_purpose :: "policy_node \<Rightarrow> u32 option" where
  "get_bip44_purpose descriptor_template =
     do {
       (kp, purpose) \<leftarrow> bip44_candidate descriptor_template;
       if key_kind kp \<noteq> KEY_EXPRESSION_NORMAL 0 \<or> num_first kp \<noteq> 0 \<or> num_second kp \<noteq> 1 then None
       else Some purpose }"

definition is_path_bip44 :: "network \<Rightarrow> u32 \<Rightarrow> u32 list \<Rightarrow> bool" where
  "is_path_bip44 net purpose steps \<longleftrightarrow>
     length steps = 3 \<and> steps ! 0 = 0x80000000 + purpose \<and> steps ! 1 = 0x80000000 + BIP44_COIN_TYPE net
     \<and> \<not> steps ! 2 < 0x80000000 \<and> \<not> steps ! 2 > 0x80000000 + 100"

definition answer_false :: "bool client \<Rightarrow> bool client" where
  "answer_false m dc = (case m dc of (Err _, dc) \<Rightarrow> (Ok False, dc) | r \<Rightarrow> r)"

definition is_wallet_policy_standard ::
    "platform \<Rightarrow> network \<Rightarrow> policy_map_wallet_header_t \<Rightarrow> policy_node \<Rightarrow> bool client" where
  "is_wallet_policy_standard cx net h policy = answer_false
     (and_then (from_option (get_bip44_purpose policy) (- 1)) (\<lambda>purpose.
      and_then (require (hdr_n_keys h = 1) (- 1)) (\<lambda>_.
      and_then (call_get_merkle_leaf_element (cx_hash_sha256 cx) (hdr_keys_info_merkle_root h) (hdr_n_keys h) 0
                  (uninitialised cx MAX_POLICY_KEY_INFO_LEN)) (\<lambda>(key_info_len, out).
      and_then (from_reply (parse_policy_map_key_info cx (buffer_create 0 out (word_of_nat key_info_len))
                  (uint (hdr_version h)))) (\<lambda>info.
      and_then (require (has_key_origin info) (- 1)) (\<lambda>_.
      and_then (require (read_u32_be (master_key_fingerprint info) 0 = crypto_get_master_key_fingerprint cx) (- 1)) (\<lambda>_.
      and_then (from_option (get_extended_pubkey_at_path cx (master_key_derivation info) (BIP32_PUBKEY_VERSION net)) (- 1))
        (\<lambda>derived.
      and_then (require (xpub_bytes (ext_pubkey info) = xpub_bytes derived) (- 1)) (\<lambda>_.
        value_of (is_path_bip44 net purpose (master_key_derivation info)))))))))))"

section \<open>Authentication of registered policies\<close>

definition WALLET_SLIP0021_LABEL :: bytes where
  "WALLET_SLIP0021_LABEL = 0 # ascii_string ''LEDGER-Wallet policy''"

definition compute_wallet_hmac :: "platform \<Rightarrow> bytes \<Rightarrow> bytes option" where
  "compute_wallet_hmac cx wallet_id =
     do {
       key \<leftarrow> crypto_derive_symmetric_key cx WALLET_SLIP0021_LABEL;
       Some (cx_hmac_sha256 cx key wallet_id) }"

definition check_wallet_hmac :: "platform \<Rightarrow> bytes \<Rightarrow> bytes \<Rightarrow> bool" where
  "check_wallet_hmac cx wallet_id wallet_hmac = (case crypto_derive_symmetric_key cx WALLET_SLIP0021_LABEL of
      None \<Rightarrow> False
    | Some key \<Rightarrow> wallet_hmac = cx_hmac_sha256 cx key wallet_id)"

section \<open>Names that skip the check of the template\<close>

lemma get_action_step_prefix:
  assumes "name = take n (ascii_string ''Consent to slashing'')"
  shows "get_action_step name = BBN_POLICY_SLASHING_1"
proof -
  let ?lit = "ascii_string ''Consent to slashing''"
  have "list_all (\<lambda>c. c \<noteq> 0) ?lit"
    by code_simp
  then have "takeWhile (\<lambda>c. c \<noteq> 0) name = name"
    unfolding takeWhile_eq_all_conv assms list_all_iff by (blast dest: in_set_takeD)
  moreover have "take (length name) (?lit @ [0]) = name"
    unfolding assms by (rule take_length_take)
  ultimately show ?thesis
    by (simp only: get_action_step_def Let_def same_prefix_def simp_thms if_True)
qed

section \<open>Properties\<close>

text \<open>C39: A policy whose name is \<open>Consent to slashing\<close>, or a prefix of it such as the empty name, is read without any
  check of its descriptor template: the name is recognised as the first of the Babylon policies, whose
  number is 0, and reading such a policy is only fetching and parsing the template.\<close>

theorem slashing_template_unchecked:
  assumes "read_wallet_policy_header buf = Some (h, b)"
    and "hdr_name h = take n (ascii_string ''Consent to slashing'')"
  shows "read_and_parse_wallet_policy cx sz buf tmpl out mem out_len =
      and_then (fetch_template cx h tmpl) (\<lambda>descriptor.
      and_then (from_option (parse_descriptor_template sz
          (buffer_create 0 descriptor (ucast (hdr_descriptor_template_len h))) out mem out_len (uint (hdr_version h))) (- 1))
        (\<lambda>((n, policy), _). value_of (h, descriptor, n, policy)))"
proof -
  have skipped: "require (\<not> 0 < bbn_policy_number (get_action_step (hdr_name h)) \<or> c) e = value_of ()" for c e
    by (simp add: get_action_step_prefix [OF assms(2)] require_def value_of_def fun_eq_iff)
  have return: "and_then (value_of x) f = f x" for x :: 'x and f :: "'x \<Rightarrow> 'y client"
    by (simp add: and_then_def value_of_def fun_eq_iff)
  show ?thesis
    unfolding read_and_parse_wallet_policy_def assms(1)
    by (simp only: from_option_def [of "Some _"] option.case return split_conv skipped)
qed

definition unnamed_header :: bytes where
  "unnamed_header = [2, 0, 9] @ replicate 32 5 @ [1] @ replicate 32 6"

abbreviation at_offset :: "size_t \<Rightarrow> buffer_t" where
  "at_offset i \<equiv> \<lparr>buf_ptr = 0, buf_mem = unnamed_header, buf_size = 68, buf_offset = i\<rparr>"

lemma unnamed_header_reads:
  "buffer_read_u8 (at_offset 0) = Some (2, at_offset 1)" "buffer_read_u8 (at_offset 1) = Some (0, at_offset 2)"
  "buffer_read_bytes (at_offset 2) 0 = Some ([], at_offset 2)" "buffer_read_varint (at_offset 2) = Some (9, at_offset 3)"
  "buffer_read_bytes (at_offset 3) 32 = Some (replicate 32 5, at_offset 35)"
  "buffer_read_varint (at_offset 35) = Some (1, at_offset 36)"
  "buffer_read_bytes (at_offset 36) 32 = Some (replicate 32 6, at_offset 68)"
  by (simp_all add: buffer_read_u8_def buffer_read_bytes_def buffer_read_varint_def varint_read_def buffer_can_read_def
      buffer_get_cur_def mem_read_def advance_def buffer_seek_cur_def rd_def unnamed_header_def)

lemma unnamed_header_read:
  "read_wallet_policy_header (buffer_create 0 unnamed_header 68) =
     Some (\<lparr>hdr_version = 2, hdr_name = [], hdr_descriptor_template_len = 9,
       hdr_descriptor_template = Inr (replicate 32 5), hdr_n_keys = 1, hdr_keys_info_merkle_root = replicate 32 6\<rparr>,
      at_offset 68)"
  by (simp add: read_wallet_policy_header_def read_header_template_def buffer_create_def unnamed_header_reads)

theorem slashing_template_unchecked_witness:
  "\<exists>h. read_wallet_policy_header (buffer_create 0 unnamed_header 68) = Some (h, at_offset 68)
     \<and> hdr_name h = []
     \<and> read_and_parse_wallet_policy arithmetic_platform device_sizes (buffer_create 0 unnamed_header 68)
         [] 0 [] 0 =
      and_then (fetch_template arithmetic_platform h []) (\<lambda>descriptor.
      and_then (from_option (parse_descriptor_template device_sizes
          (buffer_create 0 descriptor (ucast (hdr_descriptor_template_len h))) 0 [] 0 (uint (hdr_version h))) (- 1))
        (\<lambda>((n, policy), _). value_of (h, descriptor, n, policy)))"
  using unnamed_header_read
    slashing_template_unchecked [OF unnamed_header_read, of 0 arithmetic_platform device_sizes "[]" 0 "[]" 0] by simp

end
