(* ===== verification/Parser_Correct.thy ===== *)
theory Parser_Correct
  imports Policy_Parser
begin

text \<open>
  What a successful parse guarantees: the cursors stay inside of the two buffers, the key
  expressions are numbered in order, the stored flags are those of the type system, and the tree
  obeys the structural rules of descriptor templates (\<open>wf_script\<close>).
\<close>

section \<open>Cursors only move forward\<close>

definition moves :: "buffer_t \<Rightarrow> buffer_t \<Rightarrow> bool" where
  "moves b b' \<longleftrightarrow> same_array b b' \<and> buf_offset b \<le> buf_offset b' \<and>
     (buf_offset b' \<le> buf_size b \<or> buf_offset b' = buf_offset b)"

lemma moves_refl [simp]: "moves b b"
  by (simp add: moves_def)

lemma moves_trans: "moves a b \<Longrightarrow> moves b c \<Longrightarrow> moves a c"
  by (auto simp: moves_def same_array_def)

lemma moves_advance [simp]: "moves b (advance b n)"
  by (auto simp: moves_def advance_def buffer_seek_cur_def same_array_def)

lemma moves_ok: "moves b b' \<Longrightarrow> buffer_ok b \<Longrightarrow> buffer_ok b'"
  by (auto simp: moves_def same_array_def buffer_ok_def word_le_nat_alt)

lemma moves_read_u8: "buffer_read_u8 b = Some (c, b') \<Longrightarrow> moves b b'"
  by (auto simp: buffer_read_u8_def split: if_splits elim!: bind_SomeE)

lemma moves_alloc: "buffer_alloc b n a = Some (off, b') \<Longrightarrow> moves b b'"
  by (auto simp: buffer_alloc_def Let_def split: if_splits)

lemma moves_consume: "consume_character b c = Some b' \<Longrightarrow> moves b b'"
  by (auto simp: consume_character_def split: if_splits)

lemma moves_consumes: "consume_characters b cs = Some b' \<Longrightarrow> moves b b'"
  by (auto simp: consume_characters_def split: if_splits)

lemma moves_read_token: "read_token n b = (w, b') \<Longrightarrow> moves b b'"
  by (induction n arbitrary: b w)
    (auto split: option.splits if_splits prod.splits intro: moves_trans [OF moves_advance])

lemma moves_parse_token: "parse_token b = Some (t, b') \<Longrightarrow> moves b b'"
  by (auto simp: parse_token_def Let_def split: prod.splits option.splits intro: moves_read_token)

lemma moves_decimal_loop: "decimal_loop fuel d r b = Some (d', r', b') \<Longrightarrow> moves b b'"
  by (induction fuel arbitrary: d r b)
    (auto simp: Let_def split: option.splits if_splits intro: moves_trans [OF moves_advance])

lemma moves_decimal: "parse_unsigned_decimal b = Some (r, b') \<Longrightarrow> moves b b'"
  by (auto simp: parse_unsigned_decimal_def simp del: decimal_loop.simps split: if_splits
      elim!: bind_SomeE intro: moves_decimal_loop)

lemma moves_hex_loop: "hex_loop n b = Some (h, b') \<Longrightarrow> moves b b' \<and> length h = n"
  by (induction n arbitrary: b h)
    (fastforce split: if_splits elim!: bind_SomeE dest: moves_read_u8 intro: moves_trans)+

lemma moves_hex: "buffer_read_hex_hash b n = Some (h, b') \<Longrightarrow> moves b b' \<and> length h = unat n"
  by (auto simp: buffer_read_hex_hash_def split: if_splits dest: moves_hex_loop)

section \<open>The frame of a parse\<close>

text \<open>Both cursors have moved forward within their arrays, and \<open>n\<close> is what the static counter was
  and \<open>ks\<close> the key expressions created since.\<close>

primrec numbered :: "u16 \<Rightarrow> policy_node_keyexpr list \<Rightarrow> u16 \<Rightarrow> bool" where
  "numbered n [] m \<longleftrightarrow> m = n"
| "numbered n (k # ks) m \<longleftrightarrow> keyexpr_index k = n \<and> numbered (n + 1) ks m"

lemma numbered_append: "numbered n (ks @ ks') m \<longleftrightarrow> (\<exists>l. numbered n ks l \<and> numbered l ks' m)"
  by (induction ks arbitrary: n) auto

definition frame :: "parse_state \<Rightarrow> policy_node_keyexpr list \<Rightarrow> parse_state \<Rightarrow> bool" where
  "frame s ks s' \<longleftrightarrow> moves (in_buf s) (in_buf s') \<and> moves (out_buf s) (out_buf s') \<and>
     numbered (key_expression_count s) ks (key_expression_count s')"

lemma frame_refl [simp]: "frame s [] s"
  by (simp add: frame_def)

lemma frame_trans: "frame s ks s' \<Longrightarrow> frame s' ks' s'' \<Longrightarrow> frame s (ks @ ks') s''"
  by (auto simp: frame_def numbered_append intro: moves_trans)

lemma frame_step: "frame s [] s' \<Longrightarrow> frame s' ks s'' \<Longrightarrow> frame s ks s''"
  using frame_trans [of s "[]" s' ks s''] by simp

lemma frame_back: "frame s ks s' \<Longrightarrow> frame s' [] s'' \<Longrightarrow> frame s ks s''"
  using frame_trans [of s ks s' "[]" s''] by simp

lemma frame_advance [simp]: "frame s [] (s\<lparr>in_buf := advance (in_buf s) n\<rparr>)"
  by (simp add: frame_def)

lemma frame_on_in:
  "on_in f s = Some (v, s') \<Longrightarrow> (\<And>b b' v. f b = Some (v, b') \<Longrightarrow> moves b b') \<Longrightarrow> frame s [] s'"
  by (auto simp: on_in_def frame_def elim!: bind_SomeE)

lemma frame_alloc: "alloc n s = Some s' \<Longrightarrow> frame s [] s'"
  by (auto simp: alloc_def frame_def elim!: bind_SomeE intro: moves_alloc)

lemma frame_align [simp]: "frame s [] (align_out s)"
  by (auto simp: align_out_def split: option.splits intro: frame_alloc)

lemma frame_consume: "consume c s = Some s' \<Longrightarrow> frame s [] s'"
  by (auto simp: consume_def frame_def elim!: bind_SomeE intro: moves_consume)

lemma frame_consume_if: "consume_if r c s = Some s' \<Longrightarrow> frame s [] s'"
  by (auto simp: consume_if_def split: if_splits intro: frame_consume)

lemma frame_consumes: "consumes cs s = Some s' \<Longrightarrow> frame s [] s'"
  by (auto simp: consumes_def frame_def elim!: bind_SomeE intro: moves_consumes)

lemma frame_read_u8: "on_in buffer_read_u8 s = Some (v, s') \<Longrightarrow> frame s [] s'"
  by (erule frame_on_in) (rule moves_read_u8)

lemma frame_decimal: "on_in parse_unsigned_decimal s = Some (v, s') \<Longrightarrow> frame s [] s'"
  by (erule frame_on_in) (rule moves_decimal)

lemma frame_token: "on_in parse_token s = Some (v, s') \<Longrightarrow> frame s [] s'"
  by (erule frame_on_in) (rule moves_parse_token)

lemma frame_hex:
  "on_in (\<lambda>b. buffer_read_hex_hash b n) s = Some (h, s') \<Longrightarrow> frame s [] s' \<and> length h = unat n"
  by (auto simp: on_in_def frame_def elim!: bind_SomeE dest: moves_hex)

lemma frame_int16: "parse_int16 s = Some (k, s') \<Longrightarrow> frame s [] s' \<and> k \<le> INT16_MAX"
  by (auto simp: parse_int16_def word_less_nat_alt split: if_splits elim!: bind_SomeE
      intro: frame_decimal)

lemma frame_musig_keys:
  "musig_keys fuel n s = Some (ks, s') \<Longrightarrow> n \<le> MAX_PUBKEYS_PER_MUSIG \<Longrightarrow>
     frame s [] s' \<and> (\<forall>k\<in>set ks. k \<le> INT16_MAX) \<and> n + length ks \<le> MAX_PUBKEYS_PER_MUSIG"
proof (induction fuel arbitrary: n s ks)
  case (Suc fuel)
  from Suc.prems obtain c s1 k s2 c' s3 where
    1: "on_in buffer_read_u8 s = Some (c, s1)" "parse_int16 s1 = Some (k, s2)"
      "on_in buffer_read_u8 s2 = Some (c', s3)" "n < MAX_PUBKEYS_PER_MUSIG"
    and 2: "ks = [k] \<and> s' = s3 \<or> (\<exists>ks'. ks = k # ks' \<and> musig_keys fuel (n + 1) s3 = Some (ks', s'))"
    by (auto elim!: bind_SomeE split: if_splits)
  have "frame s [] s3" and "k \<le> INT16_MAX"
    using 1 by (auto dest!: frame_read_u8 frame_int16 intro: frame_step)
  then show ?case
    using 1(4) 2 by (auto dest!: Suc.IH intro: frame_step)
qed simp


section \<open>Well-formed key expressions\<close>

definition wf_keyexpr :: "int \<Rightarrow> bool \<Rightarrow> policy_node_keyexpr \<Rightarrow> bool" where
  "wf_keyexpr version is_taproot k \<longleftrightarrow>
     num_first k \<noteq> num_second k \<and> num_first k \<le> 0x80000000 \<and> num_second k \<le> 0x80000000 \<and>
     (version = WALLET_POLICY_VERSION_V1 \<longrightarrow> num_first k = 0 \<and> num_second k = 1) \<and>
     (case key_kind k of
        KEY_EXPRESSION_NORMAL i \<Rightarrow> i \<le> INT16_MAX
      | KEY_EXPRESSION_MUSIG is \<Rightarrow>
          is_taproot \<and> version = WALLET_POLICY_VERSION_V2 \<and> 2 \<le> length is
          \<and> length is \<le> MAX_PUBKEYS_PER_MUSIG \<and> (\<forall>i\<in>set is. i \<le> INT16_MAX))"

lemma post_key_kind:
  assumes "parse_key_kind sz version tr s = Some (kind, s')"
  shows "frame s [] s' \<and>
    (case kind of KEY_EXPRESSION_NORMAL i \<Rightarrow> i \<le> INT16_MAX
     | KEY_EXPRESSION_MUSIG is \<Rightarrow> tr \<and> version = WALLET_POLICY_VERSION_V2 \<and> 2 \<le> length is
         \<and> length is \<le> MAX_PUBKEYS_PER_MUSIG \<and> (\<forall>i\<in>set is. i \<le> INT16_MAX))"
  using assms
  by (auto simp: parse_key_kind_def simp del: musig_keys.simps split: if_splits elim!: bind_SomeE
      dest!: frame_read_u8 frame_int16 frame_consumes frame_alloc frame_musig_keys)
    (blast intro: frame_step)+

lemma post_key_derivation:
  assumes "parse_key_derivation version s = Some ((a, b), s')"
  shows "frame s [] s' \<and> a \<noteq> b \<and> a \<le> 0x80000000 \<and> b \<le> 0x80000000 \<and>
     (version = WALLET_POLICY_VERSION_V1 \<longrightarrow> a = 0 \<and> b = 1)"
  using assms
  by (auto simp: parse_key_derivation_def Let_def not_less split: if_splits elim!: bind_SomeE
      dest!: frame_consume frame_consumes frame_decimal)
    (blast intro: frame_step frame_advance)+

lemma post_keyexpr:
  assumes "parse_keyexpr sz version tr s = Some (k, s')"
  shows "frame s [k] s' \<and> wf_keyexpr version tr k"
proof -
  from assms obtain kind s1 a b s2 where
    1: "parse_key_kind sz version tr s = Some (kind, s1)"
      "parse_key_derivation version s1 = Some ((a, b), s2)"
    and k: "k = \<lparr>num_first = a, num_second = b, key_kind = kind,
                keyexpr_index = key_expression_count s2\<rparr>"
    and s': "s' = s2\<lparr>key_expression_count := key_expression_count s2 + 1\<rparr>"
    by (auto simp: parse_keyexpr_def elim!: bind_SomeE)
  note p = post_key_kind [OF 1(1)] post_key_derivation [OF 1(2)]
  have "frame s [] s2"
    using p by (auto intro: frame_step)
  moreover have "frame s2 [k] s'"
    by (simp add: frame_def k s')
  ultimately have "frame s [k] s'"
    by (rule frame_step)
  then show ?thesis
    using p by (simp add: wf_keyexpr_def k)
qed


section \<open>Well-formed templates\<close>

text \<open>The structural rules: which fragments may occur where, and the ranges of their arguments.
  \<open>depth\<close> and \<open>context_flags\<close> are those of the parser at that place.\<close>

definition ms_context :: "u32 \<Rightarrow> bool" where
  "ms_context c \<longleftrightarrow> (within c CONTEXT_WITHIN_WSH \<and> \<not> within c CONTEXT_WITHIN_SH) \<or> within c CONTEXT_WITHIN_TR"

fun wf_script :: "int \<Rightarrow> nat \<Rightarrow> u32 \<Rightarrow> policy_node \<Rightarrow> bool"
  and wf_node :: "int \<Rightarrow> nat \<Rightarrow> u32 \<Rightarrow> policy_node \<Rightarrow> bool"
  and wf_tree :: "int \<Rightarrow> nat \<Rightarrow> policy_node_tree \<Rightarrow> bool" where
  "wf_script v d c (With_wrapper w f x) \<longleftrightarrow> ms_context c \<and> wf_script v d c x"
| "wf_script v d c x \<longleftrightarrow>
     sh_token_ok c (node_type x) \<and> sh_wsh_token_ok d c (node_type x) \<and> wf_node v d c x"
| "wf_node v d c (Constant _ _) \<longleftrightarrow> True"
| "wf_node v d c (With_sh t x) \<longleftrightarrow>
     (if t = Tok_SH then d = 0 else d = 0 \<or> within c CONTEXT_WITHIN_SH)
     \<and> wf_script v (d + 1) (c OR (if t = Tok_SH then CONTEXT_WITHIN_SH else CONTEXT_WITHIN_WSH)) x"
| "wf_node v d c (With_wrapper _ _ _) \<longleftrightarrow> False"
| "wf_node v d c (With_script2 _ _ x y) \<longleftrightarrow> wf_script v (d + 1) c x \<and> wf_script v (d + 1) c y"
| "wf_node v d c (With_script3 _ x y z) \<longleftrightarrow>
     wf_script v (d + 1) c x \<and> wf_script v (d + 1) c y \<and> wf_script v (d + 1) c z"
| "wf_node v d c (With_key t _ k) \<longleftrightarrow>
     wf_keyexpr v (within c CONTEXT_WITHIN_TR) k
     \<and> (t = Tok_WPKH \<longrightarrow> d = 0 \<or> within c CONTEXT_WITHIN_SH)"
| "wf_node v d c (With_uint32 _ _ n) \<longleftrightarrow> 1 \<le> unat n \<and> unat n < 2 ^ 31"
| "wf_node v d c (With_hash256 _ _ h) \<longleftrightarrow> length h = 32"
| "wf_node v d c (With_hash160 _ _ h) \<longleftrightarrow> length h = 20"
| "wf_node v d c (Multisig t _ k ks) \<longleftrightarrow>
     multi_token_ok d c t \<and> 1 \<le> k \<and> k \<le> length ks \<and> length ks \<le> MAX_PUBKEYS_PER_MULTISIG
     \<and> list_all (wf_keyexpr v (within c CONTEXT_WITHIN_TR)) ks"
| "wf_node v d c (Thresh _ k xs) \<longleftrightarrow>
     1 \<le> k \<and> k \<le> INT16_MAX \<and> xs \<noteq> [] \<and> list_all (wf_script v (d + 1) c) xs"
| "wf_node v d c (Tr k None) \<longleftrightarrow> d \<le> 1 \<and> wf_keyexpr v True k"
| "wf_node v d c (Tr k (Some t)) \<longleftrightarrow> d \<le> 1 \<and> wf_keyexpr v True k \<and> wf_tree v (d + 1) t"
| "wf_tree v d (Tree_leaf x) \<longleftrightarrow>
     d \<le> MAX_TAPTREE_POLICY_DEPTH \<and> wf_script v (d + 1) CONTEXT_WITHIN_TR x"
| "wf_tree v d (Tree_node l r) \<longleftrightarrow>
     d \<le> MAX_TAPTREE_POLICY_DEPTH \<and> wf_tree v (d + 1) l \<and> wf_tree v (d + 1) r"

section \<open>The cases of parse_script\<close>

text \<open>What is guaranteed of a parsed script: from state \<open>s\<close>, the node \<open>x\<close> and the state \<open>s'\<close>.\<close>

definition parsed :: "int \<Rightarrow> nat \<Rightarrow> u32 \<Rightarrow> parse_state \<Rightarrow> policy_node \<Rightarrow> parse_state \<Rightarrow> bool" where
  "parsed v d c s x s' \<longleftrightarrow>
     frame s (node_keyexprs x) s' \<and> well_typed (within c CONTEXT_WITHIN_TR) x \<and> wf_node v d c x"

definition script_parsed :: "int \<Rightarrow> nat \<Rightarrow> u32 \<Rightarrow> parse_state \<Rightarrow> policy_node \<Rightarrow> parse_state \<Rightarrow> bool" where
  "script_parsed v d c s x s' \<longleftrightarrow>
     frame (if d = 0 then s\<lparr>key_expression_count := 0\<rparr> else s) (node_keyexprs x) s'
     \<and> well_typed (within c CONTEXT_WITHIN_TR) x \<and> wf_script v d c x"

definition tree_parsed :: "int \<Rightarrow> nat \<Rightarrow> parse_state \<Rightarrow> policy_node_tree \<Rightarrow> parse_state \<Rightarrow> bool" where
  "tree_parsed v d s t s' \<longleftrightarrow> frame s (tree_keyexprs t) s' \<and> well_typed_tree t \<and> wf_tree v d t"

lemma post_constant: "parse_constant sz t s = Some (x, s') \<Longrightarrow> parsed v d c s x s'"
  by (auto simp: parse_constant_def parsed_def elim!: bind_SomeE intro: frame_alloc)

lemma post_hash256: "parse_hash256 sz t s = Some (x, s') \<Longrightarrow> parsed v d c s x s'"
  by (auto simp: parse_hash256_def parsed_def elim!: bind_SomeE dest!: frame_hex frame_alloc
      intro: frame_step)

lemma post_hash160: "parse_hash160 sz t s = Some (x, s') \<Longrightarrow> parsed v d c s x s'"
  by (auto simp: parse_hash160_def parsed_def elim!: bind_SomeE dest!: frame_hex frame_alloc
      intro: frame_step)

lemma post_uint32: "parse_uint32_node sz t s = Some (x, s') \<Longrightarrow> parsed v d c s x s'"
  by (auto simp: parse_uint32_node_def parsed_def word_less_nat_alt word_le_nat_alt not_less
      split: if_splits elim!: bind_SomeE dest!: frame_decimal frame_alloc) (blast intro: frame_step)

lemma post_key_node:
  "parse_key_node sz v d c t s = Some (x, s') \<Longrightarrow> parsed v d c s x s'"
  by (auto simp: parse_key_node_def parsed_def split: if_splits elim!: bind_SomeE
      dest!: frame_alloc post_keyexpr) (blast intro: frame_step)+

lemma post_multi_keys:
  "multi_keys sz v tr fuel s = Some (ks, s') \<Longrightarrow>
     frame s (map snd ks) s' \<and> list_all (wf_keyexpr v tr) (map snd ks)"
proof (induction fuel arbitrary: s ks)
  case (Suc fuel)
  show ?case
  proof (cases "buffer_peek (in_buf s) = Some (ascii CHR '')'')")
    case False
    with Suc.prems obtain s1 addr b k s2 ks' where
      1: "consume CHR '','' s = Some s1" "buffer_alloc (out_buf s1) (sz_keyexpr sz) True = Some (addr, b)"
        "parse_keyexpr sz v tr (s1\<lparr>out_buf := b\<rparr>) = Some (k, s2)"
        "multi_keys sz v tr fuel s2 = Some (ks', s')" and ks: "ks = (addr, k) # ks'"
      by (auto elim!: bind_SomeE)
    have "frame s1 [] (s1\<lparr>out_buf := b\<rparr>)"
      using 1(2) by (simp add: frame_def moves_alloc)
    then have "frame s [] (s1\<lparr>out_buf := b\<rparr>)"
      using 1(1) by (blast intro: frame_consume frame_step)
    then have "frame s [k] s2"
      using post_keyexpr [OF 1(3)] by (blast intro: frame_step)
    then show ?thesis
      using Suc.IH [OF 1(4)] post_keyexpr [OF 1(3)] frame_trans [of s "[k]" s2] by (simp add: ks)
  qed (use Suc.prems in simp)
qed simp

lemma post_multisig: "parse_multisig sz v d c t s = Some (x, s') \<Longrightarrow> parsed v d c s x s'"
  by (auto simp: parse_multisig_def parsed_def Let_def simp del: multi_keys.simps
      split: if_splits elim!: bind_SomeE dest!: frame_alloc frame_int16 post_multi_keys)
    (blast intro: frame_step frame_align)+


text \<open>The recursive cases, for any recursive parser that guarantees the same at depth \<open>d + 1\<close>.\<close>

lemma script_parsed_child:
  "script_parsed v (d + 1) c (align_out s) x s' \<Longrightarrow>
     frame s (node_keyexprs x) s' \<and> well_typed (within c CONTEXT_WITHIN_TR) x \<and> wf_script v (d + 1) c x"
  by (auto simp: script_parsed_def intro: frame_step [OF frame_align])

lemma post_sh_wsh:
  assumes rec: "\<And>d c s x s'. rec d c s = Some (x, s') \<Longrightarrow> script_parsed v d c s x s'"
    and p: "parse_sh_wsh rec sz d c t s = Some (x, s')"
  shows "parsed v d c s x s'"
proof -
  let ?c = "c OR (if t = Tok_SH then CONTEXT_WITHIN_SH else CONTEXT_WITHIN_WSH)"
  from p obtain s1 y where 1: "alloc (sz_with_script sz) s = Some s1"
    "rec (d + 1) ?c (align_out s1) = Some (y, s')" "x = With_sh t y"
    and ok: "if t = Tok_SH then d = 0 else d = 0 \<or> within c CONTEXT_WITHIN_SH"
    by (cases t) (auto simp: parse_sh_wsh_def Let_def split: if_splits elim!: bind_SomeE)
  have "?c AND CONTEXT_WITHIN_TR = c AND CONTEXT_WITHIN_TR"
    by (simp add: bit.conj_disj_distrib2)
  then show ?thesis
    using script_parsed_child [OF rec, OF 1(2)] 1(1,3) ok
    by (auto simp: parsed_def intro: frame_step frame_alloc)
qed

lemma post_child_scripts:
  assumes rec: "\<And>s x s'. rec s = Some (x, s') \<Longrightarrow> script_parsed v (d + 1) c s x s'"
  shows "parse_child_scripts rec n s = Some (xs, s') \<Longrightarrow>
    frame s (concat (map node_keyexprs xs)) s' \<and> length xs = n \<and>
    list_all (\<lambda>x. well_typed (within c CONTEXT_WITHIN_TR) x \<and> wf_script v (d + 1) c x) xs"
proof (induction n arbitrary: s xs)
  case (Suc n)
  then obtain x s1 s2 xs' where 1: "rec (align_out s) = Some (x, s1)"
    and 2: "consume_if (n \<noteq> 0) CHR '','' s1 = Some s2"
    and 3: "parse_child_scripts rec n s2 = Some (xs', s')" and xs: "xs = x # xs'"
    by (auto elim!: bind_SomeE)
  from frame_consume_if [OF 2] have "frame s (node_keyexprs x) s2"
    using script_parsed_child [OF rec, OF 1] by (blast intro: frame_back)
  then show ?case
    using Suc.IH [OF 3] script_parsed_child [OF rec, OF 1] by (auto simp: xs intro: frame_trans)
qed simp

lemma those_map_id: "those (map Some xs) = Some xs"
  by (induction xs) simp_all

lemma list2_cases: "length xs = 2 \<Longrightarrow> \<exists>x y. xs = [x, y]"
  by (auto simp: length_Suc_conv numeral_2_eq_2)

lemma list3_cases: "length xs = 3 \<Longrightarrow> \<exists>x y z. xs = [x, y, z]"
  by (auto simp: length_Suc_conv numeral_3_eq_3)

lemma post_script2:
  assumes rec: "\<And>s x s'. rec s = Some (x, s') \<Longrightarrow> script_parsed v (d + 1) c s x s'"
    and p: "parse_script2 rec sz t s = Some (x, s')"
  shows "parsed v d c s x s'"
proof -
  from p obtain s1 xs X Y f where 1: "alloc (sz_with_script2 sz) s = Some s1"
    "parse_child_scripts rec 2 s1 = Some (xs, s')"
    and f: "node_flags (xs ! 0) = Some X" "node_flags (xs ! 1) = Some Y" "script2_flags t X Y = Some f"
    and x: "x = With_script2 t (Some f) (xs ! 0) (xs ! 1)"
    by (auto simp: parse_script2_def simp del: parse_child_scripts.simps elim!: bind_SomeE)
  note c = post_child_scripts [OF rec 1(2)]
  with list2_cases obtain a b where "xs = [a, b]"
    by blast
  with c f x frame_step [OF frame_alloc [OF 1(1)]] show ?thesis
    by (auto simp: parsed_def well_typed_flags)
qed

lemma post_andor:
  assumes rec: "\<And>s x s'. rec s = Some (x, s') \<Longrightarrow> script_parsed v (d + 1) c s x s'"
    and p: "parse_andor rec sz s = Some (x, s')"
  shows "parsed v d c s x s'"
proof -
  from p obtain s1 xs X Y Z f where 1: "alloc (sz_with_script3 sz) s = Some s1"
    "parse_child_scripts rec 3 s1 = Some (xs, s')"
    and f: "node_flags (xs ! 0) = Some X" "node_flags (xs ! 1) = Some Y"
      "node_flags (xs ! 2) = Some Z" "andor_flags X Y Z = Some f"
    and x: "x = With_script3 (Some f) (xs ! 0) (xs ! 1) (xs ! 2)"
    by (auto simp: parse_andor_def simp del: parse_child_scripts.simps elim!: bind_SomeE)
  note c = post_child_scripts [OF rec 1(2)]
  with list3_cases obtain a b e where "xs = [a, b, e]"
    by blast
  with c f x frame_step [OF frame_alloc [OF 1(1)]] show ?thesis
    by (auto simp: parsed_def well_typed_flags)
qed

lemma post_thresh_loop:
  assumes rec: "\<And>s x s'. rec s = Some (x, s') \<Longrightarrow> script_parsed v (d + 1) c s x s'"
  shows "thresh_loop rec sz fuel n cz co s = Some ((xs, n', cz', co'), s') \<Longrightarrow>
    frame s (concat (map node_keyexprs xs)) s' \<and>
    list_all (\<lambda>x. well_typed (within c CONTEXT_WITHIN_TR) x \<and> wf_script v (d + 1) c x) xs \<and>
    (\<exists>X Xs. map node_flags xs = Some X # map Some Xs \<and> thresh_child_ok (n + 1) X
       \<and> list_all (thresh_child_ok 2) Xs \<and> n' = n + length (X # Xs)
       \<and> cz' = cz + length (filter mod_z (X # Xs)) \<and> co' = co + length (filter mod_o (X # Xs)))"
proof (induction fuel arbitrary: n cz co s xs)
  case (Suc fuel)
  define z where "z = (\<lambda>X :: ms_flags. if mod_z X then cz + 1 else cz)"
  define p where "p = (\<lambda>X :: ms_flags. if mod_o X then co + 1 else co)"
  from Suc.prems [unfolded thresh_loop.simps Let_def] obtain x s1 X where
    1: "rec (align_out s) = Some (x, s1)" "node_flags x = Some X"
    and r: "(if \<not> thresh_child_ok (n + 1) X then None else
      (case consume CHR '','' s1 of None \<Rightarrow> Some (([x], n + 1, z X, p X), s1)
       | Some s2 \<Rightarrow> do { s3 \<leftarrow> alloc (sz_scriptlist sz) s2;
           ((xs, r), s4) \<leftarrow> thresh_loop rec sz fuel (n + 1) (z X) (p X) s3;
           Some ((x # xs, r), s4) })) = Some ((xs, n', cz', co'), s')"
    unfolding z_def p_def by (auto elim!: bind_SomeE)
  have ok: "thresh_child_ok (n + 1) X"
    using r by (cases "thresh_child_ok (n + 1) X") simp_all
  note x = script_parsed_child [OF rec, OF 1(1)]
  show ?case
  proof (cases "consume CHR '','' s1")
    case None
    then have "xs = [x]" "s' = s1" "n' = n + 1" "cz' = z X" "co' = p X"
      using r ok by auto
    then show ?thesis
      using x ok 1(2) by (auto simp: z_def p_def)
  next
    case (Some s2)
    then obtain s3 xs' where 3: "alloc (sz_scriptlist sz) s2 = Some s3"
      "thresh_loop rec sz fuel (n + 1) (z X) (p X) s3 = Some ((xs', n', cz', co'), s')" "xs = x # xs'"
      using r ok by (auto elim!: bind_SomeE)
    have fr: "frame s (node_keyexprs x) s3"
      using x Some 3(1) by (blast intro: frame_back frame_consume frame_alloc)
    have two: "thresh_child_ok (n + 1 + 1) Y \<longleftrightarrow> thresh_child_ok 2 Y" for Y
      by (simp add: thresh_child_ok_def)
    from Suc.IH [OF 3(2), unfolded two] obtain Y Ys where Y: "map node_flags xs' = Some Y # map Some Ys"
      "thresh_child_ok 2 Y" "list_all (thresh_child_ok 2) Ys" "n' = n + 1 + length (Y # Ys)"
      "cz' = z X + length (filter mod_z (Y # Ys))" "co' = p X + length (filter mod_o (Y # Ys))"
      by (elim conjE exE) (rule that)
    have "map node_flags xs = Some X # map Some (Y # Ys) \<and> thresh_child_ok (n + 1) X
       \<and> list_all (thresh_child_ok 2) (Y # Ys) \<and> n' = n + length (X # Y # Ys)
       \<and> cz' = cz + length (filter mod_z (X # Y # Ys)) \<and> co' = co + length (filter mod_o (X # Y # Ys))"
      using Y ok 1(2) by (simp add: 3(3) z_def p_def)
    moreover have "frame s (concat (map node_keyexprs xs)) s'"
      using fr Suc.IH [OF 3(2)] frame_trans by (simp add: 3(3))
    moreover have "list_all (\<lambda>x. well_typed (within c CONTEXT_WITHIN_TR) x \<and> wf_script v (d + 1) c x) xs"
      using x Suc.IH [OF 3(2)] by (simp add: 3(3))
    ultimately show ?thesis
      by (intro conjI exI [of _ X] exI [of _ "Y # Ys"]; elim conjE)
  qed
qed simp

lemma post_thresh:
  assumes rec: "\<And>s x s'. rec s = Some (x, s') \<Longrightarrow> script_parsed v (d + 1) c s x s'"
    and p: "parse_thresh rec sz s = Some (x, s')"
  shows "parsed v d c s x s'"
proof -
  from p obtain s1 k s2 s3 s4 xs n cz co where
    1: "alloc (sz_thresh sz) s = Some s1" "parse_int16 s1 = Some (k, s2)" "consume CHR '','' s2 = Some s3"
      "alloc (sz_scriptlist sz) s3 = Some s4"
    and 2: "thresh_loop rec sz (Suc (bytes_left (in_buf s4))) 0 0 0 s4 = Some ((xs, n, cz, co), s')"
    and x: "1 \<le> k" "x = Thresh (Some (thresh_flags n cz co)) k xs"
    by (auto simp: parse_thresh_def simp del: thresh_loop.simps split: if_splits elim!: bind_SomeE)
  have "frame s [] s4"
    using 1 by (blast dest: frame_int16 intro: frame_alloc frame_consume frame_step)
  moreover note c = post_thresh_loop [OF rec 2]
  ultimately have fr: "frame s (concat (map node_keyexprs xs)) s'"
    by (blast intro: frame_step)
  from c obtain X Xs where X: "map node_flags xs = map Some (X # Xs)" "thresh_child_ok 1 X"
    "list_all (thresh_child_ok 2) Xs" "n = length (X # Xs)" "cz = length (filter mod_z (X # Xs))"
    "co = length (filter mod_o (X # Xs))"
    by auto
  have "map (infer_flags (within c CONTEXT_WITHIN_TR)) xs = map node_flags xs"
    using c by (auto simp: list_all_iff well_typed_flags)
  then have "infer_flags (within c CONTEXT_WITHIN_TR) x = Some (thresh_flags n cz co)"
    using X by (simp add: x those_map_id thresh_type_def)
  then show ?thesis
    using fr c X(1) x frame_int16 [OF 1(2)] by (auto simp: parsed_def list_all_iff)
qed


lemma post_tr:
  assumes rec_tree: "\<And>d s t s'. rec_tree d s = Some (t, s') \<Longrightarrow> tree_parsed v d s t s'"
    and p: "parse_tr rec_tree sz v d s = Some (x, s')"
  shows "parsed v d c s x s'"
proof -
  from p obtain s1 s2 k s3 ch where d: "d \<le> 1"
    and 1: "alloc (sz_tr sz) s = Some s1" "alloc (sz_keyexpr sz) s1 = Some s2"
      "parse_keyexpr sz v True s2 = Some (k, s3)" "buffer_peek (in_buf s3) = Some ch"
    and 2: "(if ch = ascii CHR '','' then do {
          (t, s) \<leftarrow> rec_tree (d + 1) (align_out (s3\<lparr>in_buf := advance (in_buf s3) 1\<rparr>));
          Some (Tr k (Some t), s) }
        else if ch \<noteq> ascii CHR '')'' then None else Some (Tr k None, s3)) = Some (x, s')"
    by (auto simp: parse_tr_def Let_def not_less elim!: bind_SomeE split: if_split_asm)
  note k = post_keyexpr [OF 1(3)]
  have fr: "frame s [k] s3"
    using 1 k by (blast intro: frame_step frame_alloc)
  show ?thesis
  proof (cases "ch = ascii CHR '',''")
    case True
    then obtain t where t: "rec_tree (d + 1) (align_out (s3\<lparr>in_buf := advance (in_buf s3) 1\<rparr>)) = Some (t, s')"
      and x: "x = Tr k (Some t)"
      using 2 by (auto elim!: bind_SomeE)
    have "frame s3 (tree_keyexprs t) s'"
      using rec_tree [OF t] unfolding tree_parsed_def
      by (blast intro: frame_step frame_advance frame_align)
    then show ?thesis
      using rec_tree [OF t] fr d k frame_trans [of s "[k]" s3]
      by (simp add: x parsed_def tree_parsed_def)
  next
    case False
    then show ?thesis
      using 2 fr k d by (auto simp: parsed_def split: if_splits)
  qed
qed

lemma post_node:
  assumes rec: "\<And>d c s x s'. rec d c s = Some (x, s') \<Longrightarrow> script_parsed v d c s x s'"
    and rec_tree: "\<And>d s t s'. rec_tree d s = Some (t, s') \<Longrightarrow> tree_parsed v d s t s'"
    and p: "parse_node rec rec_tree sz v d c token s = Some (x, s')"
  shows "parsed v d c s x s'"
proof -
  have child: "\<And>s x s'. rec (d + 1) c s = Some (x, s') \<Longrightarrow> script_parsed v (d + 1) c s x s'"
    by (rule rec)
  have "parse_sh_wsh rec sz d c t s = Some (x, s') \<Longrightarrow> parsed v d c s x s'" for t
    by (rule post_sh_wsh) (rule rec)
  moreover have "parse_andor (rec (Suc d) c) sz s = Some (x, s') \<Longrightarrow> parsed v d c s x s'"
    using post_andor [of "rec (d + 1) c"] child by simp
  moreover have "parse_script2 (rec (Suc d) c) sz t s = Some (x, s') \<Longrightarrow> parsed v d c s x s'" for t
    using post_script2 [of "rec (d + 1) c"] child by simp
  moreover have "parse_thresh (rec (Suc d) c) sz s = Some (x, s') \<Longrightarrow> parsed v d c s x s'"
    using post_thresh [of "rec (d + 1) c"] child by simp
  moreover have "parse_tr rec_tree sz v d s = Some (x, s') \<Longrightarrow> parsed v d c s x s'"
    by (rule post_tr) (rule rec_tree)
  ultimately show ?thesis
    using p
    by (cases token) (auto simp: parse_node_def Let_def elim!: post_constant post_hash256
        post_hash160 post_uint32 post_key_node post_multisig)
qed

lemma parse_node_type:
  "parse_node rec rec_tree sz v d c token s = Some (x, s') \<Longrightarrow> node_type x = token"
  by (cases token)
    (auto simp: parse_node_def parse_constant_def parse_hash256_def parse_hash160_def
      parse_uint32_node_def parse_key_node_def parse_multisig_def parse_sh_wsh_def parse_andor_def
      parse_script2_def parse_thresh_def parse_tr_def Let_def script2_type_def key_type_def
      multi_type_def simp del: parse_child_scripts.simps thresh_loop.simps multi_keys.simps
      elim!: bind_SomeE split: if_split_asm)

lemma post_read_wrappers: "read_wrappers sz n s = Some (ws, s') \<Longrightarrow> frame s [] s'"
  by (induction n arbitrary: s ws)
    (auto elim!: bind_SomeE dest!: frame_alloc frame_read_u8, blast intro: frame_step)

lemma post_wrappers:
  "parse_wrappers sz c s = Some (ws, s') \<Longrightarrow> frame s [] s' \<and> (ws \<noteq> [] \<longrightarrow> ms_context c)"
  by (auto simp: parse_wrappers_def ms_context_def Let_def simp del: scan_wrappers.simps
      split: if_split_asm elim!: bind_SomeE dest!: post_read_wrappers)
    (blast intro: frame_back frame_advance)+

lemma post_apply_wrappers:
  "apply_wrappers c ws node = Some x \<Longrightarrow> ws \<noteq> [] \<longrightarrow> ms_context c \<Longrightarrow>
   well_typed (within c CONTEXT_WITHIN_TR) node \<Longrightarrow> wf_script v d c node \<Longrightarrow>
   node_keyexprs x = node_keyexprs node \<and> well_typed (within c CONTEXT_WITHIN_TR) x \<and> wf_script v d c x"
proof (induction ws arbitrary: x)
  case (Cons w ws)
  then obtain y X f where y: "apply_wrappers c ws node = Some y"
    and X: "node_flags y = Some X" "wrapper_flags (within c CONTEXT_WITHIN_TR) w X = Some f"
    and x: "x = With_wrapper w (Some f) y"
    by (auto elim!: bind_SomeE)
  moreover have ih: "node_keyexprs y = node_keyexprs node" "well_typed (within c CONTEXT_WITHIN_TR) y"
    "wf_script v d c y"
    using Cons.IH [OF y] Cons.prems by auto
  moreover have "infer_flags (within c CONTEXT_WITHIN_TR) y = Some X"
    using well_typed_flags [OF ih(2)] X by simp
  ultimately show ?case
    using Cons.prems by simp
qed simp

lemma wf_script_node:
  "wf_node v d c x \<Longrightarrow> sh_token_ok c (node_type x) \<Longrightarrow> sh_wsh_token_ok d c (node_type x) \<Longrightarrow>
     wf_script v d c x"
  by (cases x) simp_all



section \<open>parse_script and parse_tree\<close>

lemma post_script_body:
  assumes rec: "\<And>d c s x s'. rec d c s = Some (x, s') \<Longrightarrow> script_parsed v d c s x s'"
    and rec_tree: "\<And>d s t s'. rec_tree d s = Some (t, s') \<Longrightarrow> tree_parsed v d s t s'"
    and p: "parse_script_body rec rec_tree sz v d c s = Some (x, s')"
  shows "script_parsed v d c s x s'"
    and "d = 0 \<Longrightarrow> \<not> buffer_can_read (in_buf s') 1"
proof -
  let ?s = "if d = 0 then s\<lparr>key_expression_count := 0\<rparr> else s"
  obtain ws s1 token s2 s3 node s4 where
    1: "parse_wrappers sz c ?s = Some (ws, s1)" "on_in parse_token s1 = Some (token, s2)"
      "sh_token_ok c token" "sh_wsh_token_ok d c token"
      "consume_if (token \<noteq> TOKEN_0 \<and> token \<noteq> TOKEN_1) CHR ''('' s2 = Some s3"
      "parse_node rec rec_tree sz v d c token s3 = Some (node, s4)"
      "consume_if (token \<noteq> TOKEN_0 \<and> token \<noteq> TOKEN_1) CHR '')'' s4 = Some s'"
      "apply_wrappers c ws node = Some x" "\<not> (d = 0 \<and> buffer_can_read (in_buf s') 1)"
    using p [unfolded parse_script_body_def Let_def]
    by (elim optionE) (hypsubst, rule that; assumption)
  have n: "parsed v d c s3 node s4"
    by (rule post_node [OF _ _ 1(6)]) (fact rec rec_tree)+
  have wf: "wf_script v d c node"
    using n 1(3,4) parse_node_type [OF 1(6)] by (auto simp: parsed_def intro: wf_script_node)
  have "frame ?s [] s3"
    using post_wrappers [OF 1(1)] frame_token [OF 1(2)] frame_consume_if [OF 1(5)]
    by (blast intro: frame_step)
  moreover have "frame s4 [] s'"
    by (rule frame_consume_if [OF 1(7)])
  ultimately have "frame ?s (node_keyexprs node) s'"
    using n unfolding parsed_def by (blast intro: frame_step frame_back)
  then show "script_parsed v d c s x s'"
    using post_apply_wrappers [OF 1(8) _ _ wf] post_wrappers [OF 1(1)] n
    by (simp add: script_parsed_def parsed_def)
  show "d = 0 \<Longrightarrow> \<not> buffer_can_read (in_buf s') 1"
    using 1(9) by simp
qed

lemma post_tree_body:
  assumes rec: "\<And>d c s x s'. rec d c s = Some (x, s') \<Longrightarrow> script_parsed v d c s x s'"
    and rec_tree: "\<And>d s t s'. rec_tree d s = Some (t, s') \<Longrightarrow> tree_parsed v d s t s'"
    and p: "parse_tree_body rec rec_tree sz d s = Some (t, s')"
  shows "tree_parsed v d s t s'"
proof -
  have d: "d \<le> MAX_TAPTREE_POLICY_DEPTH"
    using p by (simp add: parse_tree_body_def split: if_split_asm)
  obtain s1 ch where 1: "alloc (sz_tree sz) s = Some s1"
    and r: "(if ch \<noteq> ascii CHR ''{'' then do {
          (x, s) \<leftarrow> rec (d + 1) CONTEXT_WITHIN_TR (align_out s1);
          Some (Tree_leaf x, s) }
        else do {
          (l, s) \<leftarrow> rec_tree (d + 1) (align_out (s1\<lparr>in_buf := advance (in_buf s1) 1\<rparr>));
          s \<leftarrow> consume CHR '','' s;
          (r, s) \<leftarrow> rec_tree (d + 1) (align_out s);
          s \<leftarrow> consume CHR ''}'' s;
          Some (Tree_node l r, s) }) = Some (t, s')"
    using p [unfolded parse_tree_body_def Let_def] by (elim guardE bind_SomeE) (rule that)
  show ?thesis
  proof (cases "ch \<noteq> ascii CHR ''{''")
    case True
    from r [unfolded if_P [OF True]] obtain x where
      x: "rec (d + 1) CONTEXT_WITHIN_TR (align_out s1) = Some (x, s')" "t = Tree_leaf x"
      by (elim optionE) (hypsubst, rule that; (assumption | rule refl))
    note y = script_parsed_child [OF rec [OF x(1)]]
    then have "frame s (node_keyexprs x) s'"
      using frame_alloc [OF 1] by (blast intro: frame_step)
    then show ?thesis
      using y d by (simp add: tree_parsed_def x(2))
  next
    case False
    from r [unfolded if_not_P [OF False]] obtain l s2 s3 r s4 where
      l: "rec_tree (d + 1) (align_out (s1\<lparr>in_buf := advance (in_buf s1) 1\<rparr>)) = Some (l, s2)"
      and c: "consume CHR '','' s2 = Some s3"
      and r: "rec_tree (d + 1) (align_out s3) = Some (r, s4)"
      and e: "consume CHR ''}'' s4 = Some s'" and t: "t = Tree_node l r"
      by (elim optionE) (hypsubst, rule that; (assumption | rule refl))
    note l = rec_tree [OF l, unfolded tree_parsed_def]
      and r = rec_tree [OF r, unfolded tree_parsed_def]
    have "frame s (tree_keyexprs l) s2"
      using l 1 by (blast intro: frame_step frame_advance frame_align frame_alloc)
    moreover have "frame s2 (tree_keyexprs r) s4"
      using r c by (blast intro: frame_step frame_consume frame_align)
    then have "frame s2 (tree_keyexprs r) s'"
      by (rule frame_back) (rule frame_consume [OF e])
    ultimately have "frame s (tree_keyexprs t) s'"
      by (simp add: t frame_trans)
    then show ?thesis
      using l r d by (simp add: tree_parsed_def t)
  qed
qed

lemma parse_script_parsed_aux:
  "(\<forall>d c s x s'. parse_script fuel sz v d c s = Some (x, s') \<longrightarrow> script_parsed v d c s x s') \<and>
   (\<forall>d s t s'. parse_tree fuel sz v d s = Some (t, s') \<longrightarrow> tree_parsed v d s t s')"
proof (induction fuel)
  case (Suc fuel)
  then have r: "\<And>d c s x s'. parse_script fuel sz v d c s = Some (x, s') \<Longrightarrow> script_parsed v d c s x s'"
    and t: "\<And>d s t s'. parse_tree fuel sz v d s = Some (t, s') \<Longrightarrow> tree_parsed v d s t s'"
    by blast+
  show ?case
    by (simp add: post_script_body(1) [of "parse_script fuel sz v" v "parse_tree fuel sz v", OF r t]
        post_tree_body [of "parse_script fuel sz v" v "parse_tree fuel sz v", OF r t])
qed simp

lemma parse_script_parsed:
  "parse_script fuel sz v d c s = Some (x, s') \<Longrightarrow> script_parsed v d c s x s'"
  using parse_script_parsed_aux by blast

lemma parse_tree_parsed:
  "parse_tree fuel sz v d s = Some (t, s') \<Longrightarrow> tree_parsed v d s t s'"
  using parse_script_parsed_aux by blast


end
