(* ===== verification/Parser_Fuel.thy ===== *)
theory Parser_Fuel
  imports Parser_Correct
begin

text \<open>
  The loops and the recursion of the parser end: with the fuel they are given, they never run out
  of it.  Every loop and every recursive call reads at least one character of the input first.
\<close>

section \<open>States with at most L bytes to read\<close>

definition within_bytes :: "nat \<Rightarrow> parse_state \<Rightarrow> bool" where
  "within_bytes L s \<longleftrightarrow> buffer_ok (in_buf s) \<and> length (buf_rest (in_buf s)) \<le> L"

lemma bytes_left_rest: "buffer_ok b \<Longrightarrow> bytes_left b = length (buf_rest b)"
  by (simp add: unat_remaining length_buf_rest)

lemma moves_rest: "moves b b' \<Longrightarrow> buffer_ok b \<Longrightarrow> length (buf_rest b') \<le> length (buf_rest b)"
  by (frule (1) moves_ok)
    (auto simp: length_buf_rest moves_def same_array_def word_le_nat_alt intro: diff_le_mono2)

lemma frame_within: "frame s ks s' \<Longrightarrow> within_bytes L s \<Longrightarrow> within_bytes L s'"
  unfolding frame_def within_bytes_def by (meson moves_ok moves_rest order_trans)

lemma buffer_peek_SomeD:
  "buffer_peek b = Some c \<Longrightarrow> buffer_ok b \<Longrightarrow>
     1 \<le> length (buf_rest b) \<and> buffer_ok (advance b 1) \<and> length (buf_rest (advance b 1)) = length (buf_rest b) - 1"
  using advance_ok [of b 1] by (auto simp: buffer_peek_rest split: list.splits)

lemma consume_within:
  "consume c s = Some s' \<Longrightarrow> within_bytes L s \<Longrightarrow> 0 < L \<and> within_bytes (L - 1) s'"
  by (auto simp: consume_def consume_character_def within_bytes_def split: if_splits
      elim!: bind_SomeE dest!: buffer_peek_SomeD)

lemma advance_within:
  "buffer_peek (in_buf s) = Some c \<Longrightarrow> within_bytes L s \<Longrightarrow>
     0 < L \<and> within_bytes (L - 1) (s\<lparr>in_buf := advance (in_buf s) 1\<rparr>)"
  by (auto simp: within_bytes_def dest!: buffer_peek_SomeD)

lemma read_token_strict:
  "read_token n b = (w, b') \<Longrightarrow> w \<noteq> [] \<Longrightarrow> buffer_ok b \<Longrightarrow>
     1 \<le> length (buf_rest b) \<and> buffer_ok b' \<and> length (buf_rest b') \<le> length (buf_rest b) - 1"
  by (cases n)
    (fastforce split: option.splits if_splits prod.splits
      dest: moves_read_token buffer_peek_SomeD moves_ok moves_rest)+

lemma parse_token_strict:
  assumes "parse_token b = Some (t, b')" and "buffer_ok b"
  shows "1 \<le> length (buf_rest b) \<and> buffer_ok b' \<and> length (buf_rest b') \<le> length (buf_rest b) - 1"
proof -
  obtain w where w: "read_token MAX_TOKEN_LENGTH b = (w, b')"
    using assms by (auto simp: parse_token_def Let_def split: prod.splits option.splits)
  have "w \<noteq> []"
    using assms(1) by (auto simp: parse_token_def w KNOWN_TOKENS_def)
  from read_token_strict [OF w this assms(2)] show ?thesis .
qed

lemma token_within:
  "on_in parse_token s = Some (t, s') \<Longrightarrow> within_bytes L s \<Longrightarrow> 0 < L \<and> within_bytes (L - 1) s'"
  unfolding on_in_def within_bytes_def
  by (elim bind_pairE Some_pairE) (frule parse_token_strict, auto)

section \<open>Two recursive parsers that agree on shorter inputs\<close>

definition agree :: "nat \<Rightarrow> (parse_state \<Rightarrow> ('a \<times> parse_state) option) \<Rightarrow> (parse_state \<Rightarrow> ('a \<times> parse_state) option) \<Rightarrow> bool"
  where
  "agree L f g \<longleftrightarrow> (\<forall>s. within_bytes L s \<longrightarrow> f s = g s \<and> (\<forall>x s'. g s = Some (x, s') \<longrightarrow> within_bytes L s'))"

lemma agreeD: "agree L f g \<Longrightarrow> within_bytes L s \<Longrightarrow> f s = g s"
  by (simp add: agree_def)

lemma agree_within: "agree L f g \<Longrightarrow> within_bytes L s \<Longrightarrow> g s = Some (x, s') \<Longrightarrow> within_bytes L s'"
  by (simp add: agree_def)

lemma align_within: "within_bytes L s \<Longrightarrow> within_bytes L (align_out s)"
  using frame_within frame_align by blast

lemma alloc_within: "alloc n s = Some s' \<Longrightarrow> within_bytes L s \<Longrightarrow> within_bytes L s'"
  using frame_within frame_alloc by blast

lemma bind_pair_cong:
  "m = m' \<Longrightarrow> (\<And>x y. m' = Some (x, y) \<Longrightarrow> f x y = g x y) \<Longrightarrow>
     Option.bind m (\<lambda>(x, y). f x y) = Option.bind m' (\<lambda>(x, y). g x y)"
  by (cases m') auto

lemma bind_cong':
  "m = m' \<Longrightarrow> (\<And>x. m' = Some x \<Longrightarrow> f x = g x) \<Longrightarrow> Option.bind m f = Option.bind m' g"
  by (cases m') auto

lemma child_scripts_agree:
  assumes "agree L rec rec'"
  shows "within_bytes L s \<Longrightarrow> parse_child_scripts rec n s = parse_child_scripts rec' n s"
proof (induction n arbitrary: s)
  case (Suc n)
  have "within_bytes L (align_out s)"
    using Suc.prems by (rule align_within)
  with Suc.IH show ?case
    unfolding parse_child_scripts.simps
    by (intro bind_pair_cong bind_cong' agreeD [OF assms] refl)
      (auto dest: agree_within [OF assms] frame_within [OF frame_consume_if])
qed simp


lemma script2_agree:
  "agree L rec rec' \<Longrightarrow> within_bytes L s \<Longrightarrow> parse_script2 rec sz t s = parse_script2 rec' sz t s"
  unfolding parse_script2_def
  by (intro bind_pair_cong bind_cong' refl child_scripts_agree) (auto intro: alloc_within)

lemma andor_agree:
  "agree L rec rec' \<Longrightarrow> within_bytes L s \<Longrightarrow> parse_andor rec sz s = parse_andor rec' sz s"
  unfolding parse_andor_def
  by (intro bind_pair_cong bind_cong' refl child_scripts_agree) (auto intro: alloc_within)

lemma thresh_loop_agree:
  assumes "agree L rec rec'"
  shows "within_bytes L s \<Longrightarrow> thresh_loop rec sz fuel n cz co s = thresh_loop rec' sz fuel n cz co s"
proof (induction fuel arbitrary: n cz co s)
  case (Suc fuel)
  have al: "within_bytes L (align_out s)"
    using Suc.prems by (rule align_within)
  show ?case
    unfolding thresh_loop.simps Let_def
  proof (intro bind_pair_cong bind_cong' agreeD [OF assms al] refl, goal_cases)
    case (1 x s1 X)
    have 2: "within_bytes L s1"
      by (rule agree_within [OF assms al 1(1)])
    have "thresh_loop rec sz fuel n' cz' co' s3 = thresh_loop rec' sz fuel n' cz' co' s3"
      if "consume CHR '','' s1 = Some s2" "alloc m s2 = Some s3" for s2 s3 m n' cz' co'
      by (rule Suc.IH) (rule alloc_within [OF that(2) frame_within [OF frame_consume [OF that(1)] 2]])
    then show ?case
      by (auto split: option.splits intro!: bind_cong')
  qed
qed simp

lemma thresh_agree:
  assumes "agree L rec rec'" and "within_bytes L s"
  shows "parse_thresh rec sz s = parse_thresh rec' sz s"
  unfolding parse_thresh_def
proof (intro bind_pair_cong bind_cong' if_cong refl, goal_cases)
  case (1 s1 k s2 s3 s4)
  then have "frame s1 [] s4"
    by (blast dest: frame_int16 intro: frame_consume frame_alloc frame_step)
  then have "within_bytes L s4"
    using alloc_within [OF 1(1) assms(2)] by (rule frame_within)
  then show ?case
    by (simp only: thresh_loop_agree [OF assms(1)])
qed

lemma sh_wsh_agree:
  assumes "\<And>d c. agree L (rec d c) (rec' d c)" and "within_bytes L s"
  shows "parse_sh_wsh rec sz d c t s = parse_sh_wsh rec' sz d c t s"
  unfolding parse_sh_wsh_def Let_def
  by (intro if_cong refl bind_pair_cong bind_cong' agreeD [OF assms(1)])
    (blast intro: align_within alloc_within assms(2))

lemma tr_agree:
  assumes "\<And>d. agree L (rec_tree d) (rec_tree' d)" and "within_bytes L s"
  shows "parse_tr rec_tree sz v d s = parse_tr rec_tree' sz v d s"
  unfolding parse_tr_def Let_def
proof (intro if_cong refl bind_pair_cong bind_cong' agreeD [OF assms(1)], goal_cases)
  case (1 s1 s2 k s3 ch)
  have "frame s [k] s3"
    using frame_alloc [OF 1(2)] frame_alloc [OF 1(3)] post_keyexpr [OF 1(4)]
    by (blast intro: frame_step)
  then have "frame s [k] (align_out (s3\<lparr>in_buf := advance (in_buf s3) 1\<rparr>))"
    by (rule frame_back) (blast intro: frame_step frame_advance frame_align)
  then show ?case
    using assms(2) by (rule frame_within)
qed

lemma node_agree:
  assumes rec: "\<And>d c. agree L (rec d c) (rec' d c)"
    and rec_tree: "\<And>d. agree L (rec_tree d) (rec_tree' d)" and s: "within_bytes L s"
  shows "parse_node rec rec_tree sz v d c token s = parse_node rec' rec_tree' sz v d c token s"
  by (cases token; simp add: parse_node_def Let_def)
    (rule sh_wsh_agree [OF rec s] tr_agree [OF rec_tree s] andor_agree [OF rec s]
      script2_agree [OF rec s] thresh_agree [OF rec s])+

lemma script_body_agree:
  assumes rec: "\<And>d c. agree L (rec d c) (rec' d c)"
    and rec_tree: "\<And>d. agree L (rec_tree d) (rec_tree' d)" and s: "within_bytes (Suc L) s"
  shows "parse_script_body rec rec_tree sz v d c s = parse_script_body rec' rec_tree' sz v d c s"
  unfolding parse_script_body_def Let_def
proof (intro if_cong refl bind_pair_cong bind_cong' node_agree [OF rec rec_tree], goal_cases)
  case (1 ws s1 token s2 s3)
  have "within_bytes (Suc L) s1"
    by (rule frame_within [of "if d = 0 then s\<lparr>key_expression_count := 0\<rparr> else s" "[]"])
      (use 1(1) s in \<open>auto simp: post_wrappers within_bytes_def\<close>)
  then have "within_bytes L s2"
    using token_within [OF 1(2)] by fastforce
  then show ?case
    using frame_consume_if [OF 1(5)] by (rule frame_within [rotated])
qed

lemma tree_body_agree:
  assumes rec: "\<And>d c. agree L (rec d c) (rec' d c)"
    and rec_tree: "\<And>d. agree (L - 1) (rec_tree d) (rec_tree' d)" and s: "within_bytes L s"
  shows "parse_tree_body rec rec_tree sz d s = parse_tree_body rec' rec_tree' sz d s"
  unfolding parse_tree_body_def Let_def
proof (intro if_cong refl bind_pair_cong bind_cong' agreeD [OF rec] agreeD [OF rec_tree], goal_cases)
  case (1 s1 c)
  then show ?case
    by (blast intro: align_within alloc_within s)
next
  case (2 s1 c)
  then show ?case
    by (blast dest: advance_within intro: align_within alloc_within s)
next
  case (3 s1 c l s2 s3)
  have "within_bytes (L - 1) (align_out (s1\<lparr>in_buf := advance (in_buf s1) 1\<rparr>))"
    using 3(3,4) by (blast dest: advance_within intro: align_within alloc_within s)
  then have "within_bytes (L - 1) s2"
    using 3(6) by (rule agree_within [OF rec_tree])
  then show ?case
    using 3(7) by (blast intro: align_within frame_within frame_consume)
qed


section \<open>The recursion ends\<close>

lemma script_body_empty: "within_bytes 0 s \<Longrightarrow> parse_script_body rec rec_tree sz v d c s = None"
proof (rule ccontr)
  assume s: "within_bytes 0 s" and "parse_script_body rec rec_tree sz v d c s \<noteq> None"
  let ?s = "if d = 0 then s\<lparr>key_expression_count := 0\<rparr> else s"
  from \<open>parse_script_body _ _ _ _ _ _ _ \<noteq> None\<close> obtain r
    where "parse_script_body rec rec_tree sz v d c s = Some r"
    by blast
  from this [unfolded parse_script_body_def Let_def] obtain ws s1 token s2
    where 1: "parse_wrappers sz c ?s = Some (ws, s1)" "on_in parse_token s1 = Some (token, s2)"
    by (elim bind_pairE) (rule that)
  have "within_bytes 0 ?s"
    using s by (simp add: within_bytes_def)
  then have "within_bytes 0 s1"
    using post_wrappers [OF 1(1)] frame_within by blast
  with token_within [OF 1(2)] show False
    by blast
qed

lemma tree_body_empty: "within_bytes 0 s \<Longrightarrow> parse_tree_body rec rec_tree sz d s = None"
proof (rule ccontr)
  assume s: "within_bytes 0 s" and "parse_tree_body rec rec_tree sz d s \<noteq> None"
  then obtain r where "parse_tree_body rec rec_tree sz d s = Some r"
    by blast
  from this [unfolded parse_tree_body_def Let_def] obtain s1 ch
    where 1: "alloc (sz_tree sz) s = Some s1" "buffer_peek (in_buf s1) = Some ch"
    by (elim guardE bind_SomeE) (rule that)
  from advance_within [OF 1(2) alloc_within [OF 1(1) s]] show False
    by simp
qed

lemma frames_agree:
  "(\<And>s. within_bytes L s \<Longrightarrow> f s = g s) \<Longrightarrow> (\<And>s x s'. g s = Some (x, s') \<Longrightarrow> \<exists>ks. frame s ks s') \<Longrightarrow>
     agree L f g"
  unfolding agree_def by (meson frame_within)

lemma parse_script_frame:
  "parse_script fuel sz v d c s = Some (x, s') \<Longrightarrow> within_bytes L s \<Longrightarrow> within_bytes L s'"
  using parse_script_parsed [of fuel sz v d c s x s']
    frame_within [of "if d = 0 then s\<lparr>key_expression_count := 0\<rparr> else s"]
  by (fastforce simp: script_parsed_def within_bytes_def)

lemma parse_tree_frame:
  "parse_tree fuel sz v d s = Some (t, s') \<Longrightarrow> within_bytes L s \<Longrightarrow> within_bytes L s'"
  using parse_tree_parsed frame_within unfolding tree_parsed_def by blast

lemma parse_script_stable_aux:
  "(\<forall>L f'. 2 * L + 1 \<le> f \<longrightarrow> f \<le> f' \<longrightarrow> (\<forall>d c. agree L (parse_script f sz v d c) (parse_script f' sz v d c))) \<and>
   (\<forall>L f'. 2 * L + 2 \<le> f \<longrightarrow> f \<le> f' \<longrightarrow> (\<forall>d. agree L (parse_tree f sz v d) (parse_tree f' sz v d)))"
proof (induction f)
  case (Suc f)
  then have ih: "2 * L + 1 \<le> f \<Longrightarrow> f \<le> f' \<Longrightarrow> agree L (parse_script f sz v d c) (parse_script f' sz v d c)"
    and ih_tree: "2 * L + 2 \<le> f \<Longrightarrow> f \<le> f' \<Longrightarrow> agree L (parse_tree f sz v d) (parse_tree f' sz v d)"
    for L f' d c
    by blast+
  have "parse_script (Suc f) sz v d c s = parse_script f' sz v d c s"
    if f: "2 * L + 1 \<le> Suc f" "Suc f \<le> f'" and s: "within_bytes L s" for L f' d c s
  proof -
    obtain g where g: "f' = Suc g" "f \<le> g"
      using f(2) by (cases f') auto
    show ?thesis
    proof (cases L)
      case 0
      with s show ?thesis
        by (simp add: g script_body_empty)
    next
      case (Suc K)
      with f g s show ?thesis
        by (auto intro!: script_body_agree [of K] ih ih_tree)
    qed
  qed
  moreover have "parse_tree (Suc f) sz v d s = parse_tree f' sz v d s"
    if f: "2 * L + 2 \<le> Suc f" "Suc f \<le> f'" and s: "within_bytes L s" for L f' d s
  proof -
    obtain g where g: "f' = Suc g" "f \<le> g"
      using f(2) by (cases f') auto
    show ?thesis
    proof (cases L)
      case 0
      with s show ?thesis
        by (simp add: g tree_body_empty)
    next
      case (Suc K)
      then have "parse_tree_body (parse_script f sz v) (parse_tree f sz v) sz d s =
          parse_tree_body (parse_script g sz v) (parse_tree g sz v) sz d s"
        by (intro tree_body_agree [OF _ _ s] ih ih_tree) (use f g in auto)
      then show ?thesis
        by (simp add: g)
    qed
  qed
  ultimately show ?case
    unfolding agree_def
    by - (intro conjI allI impI; blast intro: parse_script_frame parse_tree_frame)
qed simp


lemma parse_script_stable:
  assumes "buffer_ok (in_buf s)" and "2 * bytes_left (in_buf s) + 1 \<le> f"
  shows "parse_script f sz v d c s = parse_script (2 * bytes_left (in_buf s) + 1) sz v d c s"
proof -
  let ?L = "bytes_left (in_buf s)"
  have "within_bytes ?L s"
    using assms(1) by (simp add: within_bytes_def bytes_left_rest)
  moreover have "agree ?L (parse_script (2 * ?L + 1) sz v d c) (parse_script f sz v d c)"
    using parse_script_stable_aux assms(2) by blast
  ultimately show ?thesis
    by (simp add: agree_def)
qed

section \<open>The loops end\<close>

lemma peek_fuel:
  "buffer_ok b \<Longrightarrow> buffer_peek b = Some c \<Longrightarrow> bytes_left b < Suc fuel \<Longrightarrow> bytes_left (advance b 1) < fuel"
  by (drule (1) buffer_peek_SomeD) (auto simp: bytes_left_rest)

lemma decimal_loop_fuel:
  "buffer_ok b \<Longrightarrow> bytes_left b < fuel \<Longrightarrow> fuel \<le> fuel' \<Longrightarrow>
     decimal_loop fuel' n r b = decimal_loop fuel n r b"
proof (induction fuel arbitrary: fuel' n r b)
  case (Suc fuel)
  then obtain g where g: "fuel' = Suc g" "fuel \<le> g"
    by (cases fuel') auto
  have "decimal_loop g n' r' (advance b 1) = decimal_loop fuel n' r' (advance b 1)"
    if "buffer_peek b = Some c" for c n' r'
    using Suc that g peek_fuel buffer_peek_SomeD by blast
  then show ?case
    by (auto simp: g Let_def split: option.splits)
qed simp

lemma scan_wrappers_fuel:
  "buffer_ok b \<Longrightarrow> bytes_left b < fuel + n \<Longrightarrow> fuel \<le> fuel' \<Longrightarrow> n + fuel < 4294967296 \<Longrightarrow> 0 < fuel \<Longrightarrow>
     scan_wrappers fuel' b n = scan_wrappers fuel b n"
proof (induction fuel arbitrary: fuel' n)
  case (Suc fuel)
  then obtain g where g: "fuel' = Suc g" "fuel \<le> g"
    by (cases fuel') auto
  have n: "unat (word_of_nat n :: size_t) = n"
    using Suc.prems by (simp add: unat_of_nat_u32)
  have pk: "buffer_peek_n b (word_of_nat n) = (if n < bytes_left b then Some (buf_rest b ! n) else None)"
    using Suc.prems buffer_peek_n_rest [of b "word_of_nat n"] by (simp add: n bytes_left_rest)
  have "scan_wrappers g b (n + 1) = scan_wrappers fuel b (n + 1)" if "n < bytes_left b"
    using Suc.prems g that by (intro Suc.IH) auto
  then show ?case
    by (auto simp: g pk split: option.splits)
qed simp


lemma thresh_loop_fuel:
  assumes rec: "\<And>L s x s'. rec s = Some (x, s') \<Longrightarrow> within_bytes L s \<Longrightarrow> within_bytes L s'"
  shows "within_bytes L s \<Longrightarrow> L < fuel \<Longrightarrow> fuel \<le> fuel' \<Longrightarrow>
    thresh_loop rec sz fuel' n cz co s = thresh_loop rec sz fuel n cz co s"
proof (induction fuel arbitrary: L fuel' n cz co s)
  case (Suc fuel)
  then obtain g where g: "fuel' = Suc g" "fuel \<le> g"
    by (cases fuel') auto
  show ?case
    unfolding g(1) thresh_loop.simps Let_def
  proof (intro bind_pair_cong bind_cong' if_cong refl, goal_cases)
    case (1 x s1 X)
    have 2: "within_bytes L s1"
      by (rule rec [OF 1(1) align_within [OF Suc.prems(1)]])
    have "thresh_loop rec sz g n' cz' co' s3 = thresh_loop rec sz fuel n' cz' co' s3"
      if "consume CHR '','' s1 = Some s2" "alloc m s2 = Some s3" for s2 s3 m n' cz' co'
      using consume_within [OF that(1) 2] alloc_within [OF that(2)] Suc.prems(2) g(2)
      by (intro Suc.IH [of "L - 1"]) auto
    then show ?case
      by (auto split: option.splits intro!: bind_cong')
  qed
qed simp

lemma multi_keys_fuel:
  "within_bytes L s \<Longrightarrow> L < fuel \<Longrightarrow> fuel \<le> fuel' \<Longrightarrow>
    multi_keys sz v tr fuel' s = multi_keys sz v tr fuel s"
proof (induction fuel arbitrary: L fuel' s)
  case (Suc fuel)
  then obtain g where g: "fuel' = Suc g" "fuel \<le> g"
    by (cases fuel') auto
  show ?case
    unfolding g(1) multi_keys.simps
  proof (intro if_cong bind_pair_cong bind_cong' refl, goal_cases)
    case (1 s1 addr b k s2)
    have "0 < L" "within_bytes (L - 1) s1"
      using consume_within [OF 1(2) Suc.prems(1)] by simp_all
    moreover have "frame s1 [k] s2"
      using post_keyexpr [OF 1(4)] moves_alloc [OF 1(3)] by (auto simp: frame_def intro: moves_trans)
    ultimately show ?case
      using Suc.prems(2) g(2) by (intro Suc.IH [of "L - 1"]) (auto dest: frame_within)
  qed
qed simp

lemma musig_keys_fuel:
  "MAX_PUBKEYS_PER_MUSIG < fuel + n \<Longrightarrow> fuel \<le> fuel' \<Longrightarrow> 0 < fuel \<Longrightarrow> musig_keys fuel' n s = musig_keys fuel n s"
proof (induction fuel arbitrary: fuel' n s)
  case (Suc fuel)
  then obtain g where g: "fuel' = Suc g" "fuel \<le> g"
    by (cases fuel') auto
  have "musig_keys g (n + 1) s' = musig_keys fuel (n + 1) s'" if "n < MAX_PUBKEYS_PER_MUSIG" for s'
    using Suc.prems g that by (intro Suc.IH) auto
  then show ?case
    unfolding g(1) musig_keys.simps by (intro bind_pair_cong bind_cong' if_cong refl) simp_all
qed simp


section \<open>Descriptor templates\<close>

lemma parse_template_parsed:
  assumes "parse_descriptor_template sz b out mem out_len v = Some ((n, x), b')"
  obtains s' where
    "script_parsed v 0 0 \<lparr>in_buf = b, out_buf = buffer_create out mem out_len, key_expression_count = 0\<rparr> x s'"
    and "n = buf_offset (out_buf s')" and "b' = in_buf s'" and "\<not> buffer_can_read b' 1"
proof -
  let ?s = "\<lparr>in_buf = b, out_buf = buffer_create out mem out_len, key_expression_count = 0\<rparr>"
  from assms obtain s' where p: "parse_script (Suc (2 * bytes_left b)) sz v 0 0 ?s = Some (x, s')"
    and n: "n = buf_offset (out_buf s')" "b' = in_buf s'"
    unfolding parse_descriptor_template_def Let_def
    by (auto simp del: parse_script.simps split: if_split_asm elim!: bind_pairE)
  have "\<not> buffer_can_read (in_buf s') 1"
    using p parse_script_parsed parse_tree_parsed by (auto dest!: post_script_body(2) [rotated 2])
  then show ?thesis
    using that [OF parse_script_parsed [OF p] n] n by simp
qed


lemma moves_create: "moves (buffer_create p m n) b \<Longrightarrow> buf_offset b \<le> n"
  by (auto simp: moves_def buffer_create_def)

text \<open>An example, for the witnesses.\<close>

definition template_buffer :: "string \<Rightarrow> buffer_t" where
  "template_buffer t = buffer_create 0 (ascii_string t) (word_of_nat (length t))"

definition example_template :: string where
  "example_template = ''wsh(and_v(v:pk(@0/**),pk(@1/<2;3>/*)))''"

definition example_policy :: policy_node where
  "example_policy = With_sh Tok_WSH
     (With_script2 Tok_AND_V (Some (mk_flags MINISCRIPT_TYPE_B False False True False True))
       (With_wrapper Tok_V (Some (mk_flags MINISCRIPT_TYPE_V False True True False False))
         (With_key Tok_PK (Some (mk_flags MINISCRIPT_TYPE_B False True True True True))
           \<lparr>num_first = 0, num_second = 1, key_kind = KEY_EXPRESSION_NORMAL 0, keyexpr_index = 0\<rparr>))
       (With_key Tok_PK (Some (mk_flags MINISCRIPT_TYPE_B False True True True True))
         \<lparr>num_first = 2, num_second = 3, key_kind = KEY_EXPRESSION_NORMAL 1, keyexpr_index = 1\<rparr>))"

lemma example_parse:
  "parse_descriptor_template device_sizes (template_buffer example_template) 4096 (replicate 128 0) 128 2 =
     Some ((56, example_policy), (template_buffer example_template)\<lparr>buf_offset := 38\<rparr>)"
  by code_simp

lemma example_buffer_ok: "buffer_ok (template_buffer example_template)"
  by code_simp

text \<open>C2: The recursion of the descriptor template parser always ends: on a valid input buffer, two
  nested calls per byte left to read and one more are enough, and allowing more never changes
  the result (a refusal is thus never the model running out of fuel).\<close>

theorem parse_script_terminates:
  assumes "buffer_ok (in_buf s)" and "2 * bytes_left (in_buf s) + 1 \<le> fuel"
  shows "parse_script fuel sz version depth context_flags s =
         parse_script (2 * bytes_left (in_buf s) + 1) sz version depth context_flags s"
  using assms by (rule parse_script_stable)

theorem parse_script_terminates_witness:
  "parse_script 100 device_sizes 2 0 0
     \<lparr>in_buf = template_buffer example_template, out_buf = buffer_create 4096 [] 128, key_expression_count = 0\<rparr> =
   parse_script 77 device_sizes 2 0 0
     \<lparr>in_buf = template_buffer example_template, out_buf = buffer_create 4096 [] 128, key_expression_count = 0\<rparr>"
proof -
  have "bytes_left (template_buffer example_template) = 38"
    by code_simp
  then show ?thesis
    using parse_script_terminates [of "\<lparr>in_buf = template_buffer example_template,
        out_buf = buffer_create 4096 [] 128, key_expression_count = 0\<rparr>" 100 device_sizes 2 0 0]
      example_buffer_ok by simp
qed



text \<open>C4: Every type stored in an accepted template obeys the restrictions of the miniscript
  specification: \<open>z\<close> excludes \<open>o\<close> and \<open>n\<close>, type \<open>W\<close> excludes \<open>n\<close>, type \<open>V\<close> excludes \<open>d\<close> and
  \<open>u\<close>, type \<open>K\<close> implies \<open>u\<close>.\<close>

theorem parse_template_flags_sane:
  assumes "parse_descriptor_template sz b out mem out_len version = Some ((n, x), b')"
  shows "list_all flags_sane (all_flags x)"
proof -
  have "well_typed False x"
    using assms by (elim parse_template_parsed) (simp add: script_parsed_def)
  then show ?thesis
    by (auto simp: list_all_iff intro: well_typed_sane)
qed

theorem parse_template_flags_sane_witness:
  "length (all_flags example_policy) = 4 \<and> list_all flags_sane (all_flags example_policy)"
proof
  show "length (all_flags example_policy) = 4"
    by code_simp
  show "list_all flags_sane (all_flags example_policy)"
    by (rule parse_template_flags_sane [OF example_parse])
qed





text \<open>C6: The parser stays inside of its two buffers: the length it returns is at most the size of the
  output area, the input cursor stays in the input array and everything up to the end of the
  template has been read.\<close>

theorem parse_template_bounds:
  assumes "parse_descriptor_template sz b out mem out_len version = Some ((n, x), b')"
    and "buffer_ok b"
  shows "n \<le> out_len \<and> same_array b b' \<and> buffer_ok b' \<and> buf_rest b' = []"
proof -
  from assms(1) obtain s' where s': "frame \<lparr>in_buf = b, out_buf = buffer_create out mem out_len,
      key_expression_count = 0\<rparr> (node_keyexprs x) s'"
    and n: "n = buf_offset (out_buf s')" "b' = in_buf s'" "\<not> buffer_can_read b' 1"
    by (elim parse_template_parsed) (auto simp: script_parsed_def)
  then have m: "moves b b'" "moves (buffer_create out mem out_len) (out_buf s')"
    by (simp_all add: frame_def)
  then have ok: "buffer_ok b'"
    using assms(2) by (blast intro: moves_ok)
  with n(3) have "buf_rest b' = []"
    by (simp add: buffer_can_read_iff not_le)
  with m ok n(1) show ?thesis
    by (simp add: moves_create) (simp add: moves_def)
qed

theorem parse_template_bounds_witness:
  "(56 :: size_t) \<le> 128 \<and>
   same_array (template_buffer example_template) ((template_buffer example_template)\<lparr>buf_offset := 38\<rparr>) \<and>
   buffer_ok ((template_buffer example_template)\<lparr>buf_offset := 38\<rparr>) \<and>
   buf_rest ((template_buffer example_template)\<lparr>buf_offset := 38\<rparr>) = []"
  by (rule parse_template_bounds [OF example_parse example_buffer_ok])

end
