(* ===== verification/Miniscript_Paths.thy ===== *)
theory Miniscript_Paths
  imports Ext_Info
begin

text \<open>
  What the static analysis of \<open>Ext_Info\<close> promises, stated against a reference semantics of miniscript:
  the canonical ways to satisfy and to dissatisfy a script, each with the witness elements, the
  signatures, the keys of executed \<open>OP_CHECKMULTISIG\<close>s and the timelocks that it uses.

  The stack sizes are exactly the maxima over these ways, the flag \<open>s\<close> means that a signature is
  always needed, \<open>f\<close> that it is needed to dissatisfy, and \<open>k\<close> that no way mixes timelocks in
  blocks and in seconds.
\<close>

section \<open>Ways to satisfy a script\<close>

datatype lock = Rel_time | Rel_height | Abs_time | Abs_height

datatype path = Path (elems: nat) (sigs: nat) (ckeys: nat) (locks: "lock set")

instantiation path :: comm_monoid_add
begin

definition zero_path :: path where "zero_path = Path 0 0 0 {}"

definition plus_path :: "path \<Rightarrow> path \<Rightarrow> path" where
  "plus_path p q =
     Path (elems p + elems q) (sigs p + sigs q) (ckeys p + ckeys q) (locks p \<union> locks q)"

instance
  by standard (auto simp: zero_path_def plus_path_def path.expand)

end

lemma path_zero [simp]: "elems 0 = 0" "sigs 0 = 0" "ckeys 0 = 0" "locks 0 = {}"
  by (simp_all add: zero_path_def)

lemma path_plus [simp]:
  "elems (p + q) = elems p + elems q" "sigs (p + q) = sigs p + sigs q"
  "ckeys (p + q) = ckeys p + ckeys q" "locks (p + q) = locks p \<union> locks q"
  by (simp_all add: plus_path_def)

definition elem :: path where "elem = Path 1 0 0 {}"
definition sig_path :: path where "sig_path = Path 1 1 0 {}"
definition lock_path :: "lock \<Rightarrow> path" where "lock_path l = Path 0 0 0 {l}"

definition both :: "path list \<Rightarrow> path list \<Rightarrow> path list" where
  "both ps qs = concat (map (\<lambda>p. map (\<lambda>q. p + q) qs) ps)"

definition sumset :: "path set \<Rightarrow> path set \<Rightarrow> path set" where
  "sumset A B = {p + q | p q. p \<in> A \<and> q \<in> B}"

lemma set_both [simp]: "set (both ps qs) = sumset (set ps) (set qs)"
  by (auto simp: both_def sumset_def)

lemma sumset_simps [simp]: "sumset {} B = {}" "sumset A {} = {}" "sumset A {0} = A"
  by (auto simp: sumset_def)

lemma sumset_commute: "sumset A B = sumset B A"
  unfolding sumset_def by (metis add.commute)

lemma sumset_left_commute: "sumset A (sumset B C) = sumset B (sumset A C)"
  by (auto simp: sumset_def) (metis add.left_commute)+

lemma sumset_Un_right: "sumset A (B \<union> C) = sumset A B \<union> sumset A C"
  by (auto simp: sumset_def)

lemma sumset_iff: "r \<in> sumset A B \<longleftrightarrow> (\<exists>p\<in>A. \<exists>q\<in>B. r = p + q)"
  by (auto simp: sumset_def)

text \<open>Exactly \<open>k\<close> of the children satisfied, the others dissatisfied.\<close>

fun choose_paths :: "nat \<Rightarrow> (path list \<times> path list) list \<Rightarrow> path list" where
  "choose_paths 0 [] = [0]"
| "choose_paths (Suc k) [] = []"
| "choose_paths 0 (c # cs) = both (snd c) (choose_paths 0 cs)"
| "choose_paths (Suc k) (c # cs) =
     both (snd c) (choose_paths (Suc k) cs) @ both (fst c) (choose_paths k cs)"

definition uint32_lock :: "uint_tok \<Rightarrow> u32 \<Rightarrow> lock" where
  "uint32_lock t n = (case t of
      Tok_OLDER \<Rightarrow> if bit n 22 then Rel_time else Rel_height
    | Tok_AFTER \<Rightarrow> if unat n \<ge> 500000000 then Abs_time else Abs_height)"

definition script2_paths ::
    "script2_tok \<Rightarrow> path list \<times> path list \<Rightarrow> path list \<times> path list \<Rightarrow> path list \<times> path list" where
  "script2_paths t x y = (let sx = fst x; dx = snd x; sy = fst y; dy = snd y in case t of
      Tok_AND_V \<Rightarrow> (both sx sy, [])
    | Tok_AND_B \<Rightarrow> (both sx sy, both dx dy)
    | Tok_AND_N \<Rightarrow> (both sx sy, dx)
    | Tok_OR_B \<Rightarrow> (both dx sy @ both sx dy, both dx dy)
    | Tok_OR_C \<Rightarrow> (sx @ both dx sy, [])
    | Tok_OR_D \<Rightarrow> (sx @ both dx sy, both dx dy)
    | Tok_OR_I \<Rightarrow> (both sx [elem] @ both sy [elem], both dx [elem] @ both dy [elem]))"

definition wrapper_paths :: "wrap_tok \<Rightarrow> path list \<times> path list \<Rightarrow> path list \<times> path list" where
  "wrapper_paths w x = (let sx = fst x; dx = snd x in case w of
      Tok_A \<Rightarrow> (sx, dx) | Tok_S \<Rightarrow> (sx, dx) | Tok_C \<Rightarrow> (sx, dx) | Tok_N \<Rightarrow> (sx, dx)
    | Tok_T \<Rightarrow> (sx, []) | Tok_V \<Rightarrow> (sx, [])
    | Tok_D \<Rightarrow> (both sx [elem], [elem])
    | Tok_J \<Rightarrow> (sx, [elem])
    | Tok_L \<Rightarrow> (both sx [elem], elem # both dx [elem])
    | Tok_U \<Rightarrow> (both sx [elem], elem # both dx [elem]))"

text \<open>The pair of the ways to satisfy and the canonical ways to dissatisfy a script, from the table of
  the miniscript specification.\<close>

fun paths :: "policy_node \<Rightarrow> path list \<times> path list" where
  "paths (Constant t _) = (if t = Tok_0 then ([], [0]) else ([0], []))"
| "paths (With_key t _ _) =
     (if t = Tok_PK_H \<or> t = Tok_PKH then ([sig_path + elem], [elem + elem]) else ([sig_path], [elem]))"
| "paths (With_uint32 t _ n) = ([lock_path (uint32_lock t n)], [])"
| "paths (With_hash256 _ _ _) = ([elem], [])"
| "paths (With_hash160 _ _ _) = ([elem], [])"
| "paths (Multisig t _ k ks) =
     (if t = Tok_MULTI \<or> t = Tok_SORTEDMULTI
      then ([Path (k + 1) k (length ks) {}], [Path (k + 1) 0 (length ks) {}])
      else ([Path (length ks) k 0 {}], [Path (length ks) 0 0 {}]))"
| "paths (With_script3 _ x y z) =
     (both (fst (paths x)) (fst (paths y)) @ both (snd (paths x)) (fst (paths z)),
      both (snd (paths x)) (snd (paths z)))"
| "paths (With_script2 t _ x y) = script2_paths t (paths x) (paths y)"
| "paths (Thresh _ k xs) = (choose_paths k (map paths xs), choose_paths 0 (map paths xs))"
| "paths (With_wrapper w _ x) = wrapper_paths w (paths x)"
| "paths (With_sh _ x) = ([], [])"
| "paths (Tr _ _) = ([], [])"

section \<open>Maxima over the ways\<close>

text \<open>The largest value of \<open>f\<close>, saturated as \<open>sumcheck\<close> does, or -1 when there is no way.\<close>

definition best :: "(path \<Rightarrow> nat) \<Rightarrow> path list \<Rightarrow> int" where
  "best f ps = (if ps = [] then - 1 else min 32767 (int (Max (f ` set ps))))"

definition additive :: "(path \<Rightarrow> nat) \<Rightarrow> bool" where
  "additive f \<longleftrightarrow> f 0 = 0 \<and> (\<forall>p q. f (p + q) = f p + f q)"

lemma additive_fields [simp]: "additive elems" "additive ckeys"
  by (simp_all add: additive_def)

lemma best_Nil [simp]: "best f [] = - 1"
  by (simp add: best_def)

lemma best_singleton [simp]: "best f [p] = min 32767 (int (f p))"
  by (simp add: best_def)

lemma best_bounds: "- 1 \<le> best f ps" "best f ps \<le> 32767"
  by (auto simp: best_def)

lemma best_negative_iff: "best f ps < 0 \<longleftrightarrow> ps = []"
  by (auto simp: best_def min_def)

lemma maxcheck_min: "maxcheck (min 32767 (int m)) (min 32767 (int n)) = min 32767 (int (max m n))"
  by (auto simp: maxcheck_def min_def max_def)

lemma best_append: "best f (ps @ qs) = maxcheck (best f ps) (best f qs)"
proof (cases "ps = [] \<or> qs = []")
  case False
  then have "Max (f ` set (ps @ qs)) = max (Max (f ` set ps)) (Max (f ` set qs))"
    unfolding set_append image_Un by (intro Max_Un) simp_all
  with False show ?thesis
    unfolding best_def by (simp only: maxcheck_min append_is_Nil_conv de_Morgan_disj if_False simp_thms)
qed (auto simp: best_def maxcheck_def min_def)

lemma Max_both:
  assumes f: "additive f" and ne: "ps \<noteq> []" "qs \<noteq> []"
  shows "Max (f ` set (both ps qs)) = Max (f ` set ps) + Max (f ` set qs)"
proof (rule Max_eqI)
  have "Max (f ` set ps) \<in> f ` set ps" "Max (f ` set qs) \<in> f ` set qs"
    using ne by (simp_all add: Max_in)
  then obtain p q where pq: "p \<in> set ps" "q \<in> set qs"
    and M: "Max (f ` set ps) = f p" "Max (f ` set qs) = f q"
    by blast
  have "f (p + q) \<in> f ` set (both ps qs)"
    using pq by (intro imageI) (auto simp: sumset_iff)
  with f M show "Max (f ` set ps) + Max (f ` set qs) \<in> f ` set (both ps qs)"
    by (simp add: additive_def)
next
  show "y \<le> Max (f ` set ps) + Max (f ` set qs)" if "y \<in> f ` set (both ps qs)" for y
    using f that by (auto simp: additive_def sumset_iff simp del: Max_ge_iff intro!: add_mono)
qed (intro finite_imageI finite_set)

lemma best_both:
  assumes f: "additive f"
  shows "best f (both ps qs) = sumcheck (best f ps) (best f qs)"
proof (cases "ps = [] \<or> qs = []")
  case True
  then have "both ps qs = []"
    by (auto simp: both_def)
  with True show ?thesis
    by (auto simp: sumcheck_def)
next
  case False
  then have "both ps qs \<noteq> []"
    by (auto simp: both_def neq_Nil_conv)
  with False Max_both [OF f, of ps qs] show ?thesis
    by (auto simp: best_def sumcheck_def min_def)
qed

lemma best_set_cong: "set ps = set qs \<Longrightarrow> best f ps = best f qs"
  unfolding best_def by (metis set_empty)

section \<open>The computation for thresh\<close>

text \<open>The rounds of \<open>thresh_sats\<close> compute, at index \<open>j\<close>, the maximum over all ways with exactly \<open>j\<close>
  satisfied children.\<close>

lemma set_choose_snoc:
  "set (choose_paths 0 (cs @ [c])) = sumset (set (snd c)) (set (choose_paths 0 cs))"
  "set (choose_paths (Suc k) (cs @ [c])) =
     sumset (set (snd c)) (set (choose_paths (Suc k) cs))
     \<union> sumset (set (fst c)) (set (choose_paths k cs))"
proof -
  show zero: "set (choose_paths 0 (cs @ [c])) = sumset (set (snd c)) (set (choose_paths 0 cs))" for cs
    by (induction cs) (simp_all add: sumset_left_commute)
  show "set (choose_paths (Suc k) (cs @ [c])) =
     sumset (set (snd c)) (set (choose_paths (Suc k) cs))
     \<union> sumset (set (fst c)) (set (choose_paths k cs))"
  proof (induction cs arbitrary: k)
    case Nil
    show ?case
      by (cases k) simp_all
  next
    case (Cons d cs)
    show ?case
      by (cases k)
        (simp_all add: Cons.IH zero sumset_Un_right sumset_left_commute [of "set (fst c)"]
          sumset_left_commute [of "set (snd c)"] Un_ac)
  qed
qed

lemma best_choose_snoc:
  assumes "additive f"
  shows "best f (choose_paths 0 (cs @ [c])) = sumcheck (best f (choose_paths 0 cs)) (best f (snd c))"
    and "best f (choose_paths (Suc k) (cs @ [c])) =
      maxcheck (sumcheck (best f (choose_paths (Suc k) cs)) (best f (snd c)))
        (sumcheck (best f (choose_paths k cs)) (best f (fst c)))"
proof -
  have "best f (choose_paths 0 (cs @ [c])) = best f (both (choose_paths 0 cs) (snd c))"
    by (rule best_set_cong) (simp add: set_choose_snoc sumset_commute)
  then show "best f (choose_paths 0 (cs @ [c])) =
      sumcheck (best f (choose_paths 0 cs)) (best f (snd c))"
    by (simp add: best_both assms)
  have "best f (choose_paths (Suc k) (cs @ [c])) =
      best f (both (choose_paths (Suc k) cs) (snd c) @ both (choose_paths k cs) (fst c))"
    by (rule best_set_cong) (simp add: set_choose_snoc sumset_commute)
  then show "best f (choose_paths (Suc k) (cs @ [c])) =
      maxcheck (sumcheck (best f (choose_paths (Suc k) cs)) (best f (snd c)))
        (sumcheck (best f (choose_paths k cs)) (best f (fst c)))"
    by (simp add: best_both best_append assms)
qed

lemma choose_too_many: "length cs < k \<Longrightarrow> choose_paths k cs = []"
  by (induction k cs rule: choose_paths.induct) (auto simp: both_def)

lemma thresh_sats_snoc:
  "thresh_sats (cs @ [c]) sats = next_sats (fst c) (snd c) (thresh_sats cs sats)"
  by (induction cs arbitrary: sats) auto

lemma maxcheck_minus1 [simp]: "0 \<le> a \<or> a = - 1 \<Longrightarrow> maxcheck a (- 1) = a" "maxcheck (- 1) a = a"
  by (auto simp: maxcheck_def)

lemma sumcheck_minus1 [simp]: "sumcheck (- 1) a = - 1" "sumcheck a (- 1) = - 1"
  by (auto simp: sumcheck_def)

lemma sumcheck_range: "0 \<le> sumcheck a b \<or> sumcheck a b = - 1"
  by (auto simp: sumcheck_def)

lemma next_sats_map:
  assumes "sats = map g [0..<Suc n]" and "g (Suc n) = - 1"
  shows "next_sats s d sats =
    map (\<lambda>j. case j of 0 \<Rightarrow> sumcheck (g 0) d
         | Suc i \<Rightarrow> maxcheck (sumcheck (g (Suc i)) d) (sumcheck (g i) s)) [0..<Suc (Suc n)]"
proof (rule nth_equalityI)
  fix i
  assume "i < length (next_sats s d sats)"
  then have i: "i < Suc (Suc n)"
    by (simp add: next_sats_def assms(1) del: upt_Suc)
  consider "i = 0" | j where "i = Suc j" "j < n" | "i = Suc n"
    using i by (cases i) (auto simp: less_Suc_eq)
  then show "next_sats s d sats ! i =
    map (\<lambda>j. case j of 0 \<Rightarrow> sumcheck (g 0) d
         | Suc i \<Rightarrow> maxcheck (sumcheck (g (Suc i)) d) (sumcheck (g i) s)) [0..<Suc (Suc n)] ! i"
    by cases (simp_all add: next_sats_def assms nth_append nth_Cons' del: upt_Suc)
qed (simp add: next_sats_def assms(1) del: upt_Suc)

lemma thresh_sats_best:
  assumes f: "additive f"
  shows "thresh_sats (map (\<lambda>c. (best f (fst c), best f (snd c))) cs) [0]
    = map (\<lambda>j. best f (choose_paths j cs)) [0..<Suc (length cs)]"
proof (induction cs rule: rev_induct)
  case Nil
  show ?case
    using f by (simp add: additive_def)
next
  case (snoc c cs)
  show ?case
    by (simp add: thresh_sats_snoc snoc.IH next_sats_map [OF refl] choose_too_many
        best_choose_snoc [OF f] del: upt_Suc)
      (auto simp: best_choose_snoc [OF f] split: nat.split)
qed

section \<open>The stack sizes\<close>

text \<open>The counts that the parser guarantees (\<open>k\<close> at most the number of children of a \<open>thresh\<close> is the one
  it does not check).\<close>

fun counts_ok :: "policy_node \<Rightarrow> bool" where
  "counts_ok (Multisig _ _ k ks) \<longleftrightarrow> 1 \<le> k \<and> k \<le> length ks \<and> length ks \<le> 128"
| "counts_ok (Thresh _ k xs) \<longleftrightarrow> 1 \<le> k \<and> k \<le> length xs \<and> list_all counts_ok xs"
| "counts_ok (With_script3 _ x y z) \<longleftrightarrow> counts_ok x \<and> counts_ok y \<and> counts_ok z"
| "counts_ok (With_script2 _ _ x y) \<longleftrightarrow> counts_ok x \<and> counts_ok y"
| "counts_ok (With_wrapper _ _ x) \<longleftrightarrow> counts_ok x"
| "counts_ok _ \<longleftrightarrow> True"

definition ss_best :: "policy_node_ext_info \<Rightarrow> path list \<times> path list \<Rightarrow> bool" where
  "ss_best t P \<longleftrightarrow> ss_sat t = best elems (fst P) \<and> ss_dsat t = best elems (snd P)"

lemma set_ss_fields [simp]: "ss_sat (set_ss a b t) = a" "ss_dsat (set_ss a b t) = b"
  by (simp_all add: set_ss_def)

lemma set_ops_ss [simp]: "ss_sat (set_ops c a b t) = ss_sat t" "ss_dsat (set_ops c a b t) = ss_dsat t"
  by (simp_all add: set_ops_def)

lemma path_consts [simp]:
  "elems elem = 1" "sigs elem = 0" "locks elem = {}"
  "elems sig_path = 1" "sigs sig_path = 1" "locks sig_path = {}"
  "elems (lock_path l) = 0" "sigs (lock_path l) = 0" "locks (lock_path l) = {l}"
  by (simp_all add: elem_def sig_path_def lock_path_def)

lemma sumcheck_commute: "sumcheck a b = sumcheck b a"
  by (simp add: sumcheck_def add.commute)

lemma maxcheck_best_one: "maxcheck 1 (best f ps) = best f ([elem] @ ps)" if "f elem = 1"
  using that by (simp only: best_append best_singleton) (simp add: min_def)

lemma ss_best_script2: "ss_best x P \<Longrightarrow> ss_best y Q \<Longrightarrow> ss_best (ext_script2 t x y) (script2_paths t P Q)"
  by (cases t)
    (simp_all add: ss_best_def ext_script2_def script2_paths_def Let_def best_both best_append
      ext_and_v_def ext_and_b_def ext_and_n_def ext_or_b_def ext_or_c_def ext_or_d_def ext_or_i_def)

lemma ss_best_wrapper: "ss_best x P \<Longrightarrow> ss_best (ext_wrapper w x) (wrapper_paths w P)"
  using maxcheck_best_one [of elems "both (snd P) [elem]"]
  by (cases w)
    (simp_all add: ss_best_def ext_wrapper_def wrapper_paths_def best_both
      ext_a_def ext_s_n_def ext_c_def ext_d_def ext_t_def ext_v_def ext_j_wrap_def ext_l_u_def
      sumcheck_commute [of 1])

lemma ss_best_andor:
  "ss_best x (paths nx) \<Longrightarrow> ss_best y (paths ny) \<Longrightarrow> ss_best z (paths nz) \<Longrightarrow>
   ss_best (ext_andor x y z) (paths (With_script3 f nx ny nz))"
  by (simp add: ss_best_def ext_andor_def best_both best_append)

lemma ss_best_key: "ext_key ctx t = Some i \<Longrightarrow> ss_best i (paths (With_key t f k))"
  by (cases t) (auto simp: ext_key_def Let_def ss_best_def)

lemma ss_best_multi:
  "ext_multi t k (length ks) = Some i \<Longrightarrow> k \<le> length ks \<Longrightarrow> length ks \<le> 128 \<Longrightarrow>
   ss_best i (paths (Multisig t f k ks))"
  by (cases t) (auto simp: ext_multi_def ss_best_def)

lemma ss_best_leaf:
  "ss_best (ext_constant t) (paths (Constant t f))"
  "ss_best (ext_uint32 u n) (paths (With_uint32 u f n))"
  "ss_best ext_hash256 ([elem], [])" "ss_best ext_hash160 ([elem], [])"
  by (cases t; simp add: ss_best_def ext_constant_def)
    (simp_all add: ss_best_def ext_uint32_def ext_hash256_def ext_hash160_def)

lemma thresh_stacksize_best:
  assumes "list_all2 ss_best ts Ps" "k \<le> length ts"
    and "compute_thresh_stacksize k ts = Some (sat, dsat)"
  shows "sat = best elems (choose_paths k Ps)" "dsat = best elems (choose_paths 0 Ps)"
proof -
  have "map (\<lambda>t. (ss_sat t, ss_dsat t)) ts = map (\<lambda>c. (best elems (fst c), best elems (snd c))) Ps"
    using assms(1) by (auto simp: list_all2_conv_all_nth ss_best_def intro!: nth_equalityI)
  moreover have "length Ps = length ts"
    using assms(1) by (simp add: list_all2_lengthD)
  ultimately show "sat = best elems (choose_paths k Ps)" "dsat = best elems (choose_paths 0 Ps)"
    using assms(2,3)
    by (auto simp: compute_thresh_stacksize_def thresh_sats_best sats_array_def rd_eq_Some_iff
        unat_of_nat_u32 nth_append Let_def simp del: upt_Suc split: if_splits elim!: bind_SomeE)
qed

lemma ss_best_thresh:
  assumes "list_all2 ss_best ts Ps" "k \<le> length ts" "ext_thresh k ts = Some i"
  shows "ss_best i (choose_paths k Ps, choose_paths 0 Ps)"
  using assms(3) thresh_stacksize_best [OF assms(1,2)]
  by (auto simp: ext_thresh_def Let_def ss_best_def elim!: bind_SomeE)

lemma ext_info_ss_best:
  "compute_miniscript_policy_ext_info ctx x = Some t \<Longrightarrow> counts_ok x \<Longrightarrow> ss_best t (paths x)"
proof (induction ctx x arbitrary: t rule: compute_miniscript_policy_ext_info.induct)
  case (9 ctx f k xs)
  from "9.prems" obtain ts where ts: "list_all2 (\<lambda>x t. compute_miniscript_policy_ext_info ctx x = Some t) xs ts"
    and t: "ext_thresh k ts = Some t" and f: "f \<noteq> None"
    by (auto simp: those_map_Some split: if_splits elim!: bind_SomeE)
  have "list_all2 ss_best ts (map paths xs)"
    using ts "9.IH" [OF f] "9.prems"(2)
    by (auto simp: list_all2_conv_all_nth list_all_length)
  then show ?case
    using ss_best_thresh [OF _ _ t, of "map paths xs"] "9.prems"(2) list_all2_lengthD [OF ts] by simp
qed (auto simp del: paths.simps(1,2,3,6,7) simp: ss_best_leaf split: if_splits elim!: bind_SomeE
    intro: ss_best_key ss_best_multi ss_best_andor ss_best_script2 ss_best_wrapper)

section \<open>Signatures\<close>

definition all_signed :: "path list \<Rightarrow> bool" where
  "all_signed ps \<longleftrightarrow> (\<forall>p\<in>set ps. 0 < sigs p)"

lemma signed_simps [simp]:
  "all_signed []" "all_signed (p # ps) \<longleftrightarrow> 0 < sigs p \<and> all_signed ps" "all_signed (ps @ qs) \<longleftrightarrow> all_signed ps \<and> all_signed qs"
  by (auto simp: all_signed_def)

lemma signed_both: "all_signed ps \<or> all_signed qs \<Longrightarrow> all_signed (both ps qs)"
  by (auto simp: all_signed_def sumset_iff)

text \<open>A script of type \<open>K\<close> leaves a key for which a signature is on the stack.\<close>

lemma type_K_signed:
  "infer_flags tr x = Some F \<Longrightarrow> miniscript_type F = MINISCRIPT_TYPE_K \<Longrightarrow> all_signed (fst (paths x))"
proof (induction tr x arbitrary: F rule: infer_flags.induct)
  case (3 tr w f x)
  then show ?case
    by (cases w) (auto simp: typing_defs split: if_splits elim!: bind_SomeE)
next
  case (4 tr t f x y)
  then show ?case
    by (cases t)
      (auto simp: script2_flags_def typing_defs script2_paths_def Let_def signed_both
        split: if_splits elim!: bind_SomeE)
next
  case (11 tr f k xs)
  then show ?case
    by (auto simp: thresh_type_def thresh_flags_def split: list.splits if_splits elim!: bind_SomeE)
qed (auto simp: typing_defs signed_both split: if_splits key_tok.splits multi_tok.splits elim!: bind_SomeE)

lemma choose_signed:
  assumes "list_all2 (\<lambda>s c. s \<longrightarrow> all_signed (fst c)) ss cs" "length (filter Not ss) < k"
  shows "all_signed (choose_paths k cs)"
  using assms
proof (induction k cs arbitrary: ss rule: choose_paths.induct)
  case (4 k c cs)
  then obtain s ss' where ss: "ss = s # ss'" "s \<longrightarrow> all_signed (fst c)"
    "list_all2 (\<lambda>s c. s \<longrightarrow> all_signed (fst c)) ss' cs"
    by (auto simp: list_all2_Cons2)
  have "all_signed (choose_paths (Suc k) cs)"
    using "4.IH"(1) [OF ss(3)] "4.prems"(2) ss(1) by (auto split: if_splits)
  moreover have "s \<or> all_signed (choose_paths k cs)"
    using "4.IH"(2) [OF ss(3)] "4.prems"(2) ss(1) by (cases s) auto
  ultimately show ?case
    using ss(2) by (auto intro: signed_both)
qed auto

definition s_sound :: "policy_node_ext_info \<Rightarrow> path list \<times> path list \<Rightarrow> bool" where
  "s_sound t P \<longleftrightarrow> (ext_s t \<longrightarrow> all_signed (fst P)) \<and> (ext_f t \<longrightarrow> all_signed (snd P))"

lemma set_ss_flags [simp]:
  "ext_s (set_ss a b t) = ext_s t" "ext_f (set_ss a b t) = ext_f t" "ext_k (set_ss a b t) = ext_k t"
  "ext_g (set_ss a b t) = ext_g t" "ext_h (set_ss a b t) = ext_h t" "ext_i (set_ss a b t) = ext_i t"
  "ext_j (set_ss a b t) = ext_j t" "ext_e (set_ss a b t) = ext_e t" "ext_m (set_ss a b t) = ext_m t"
  "ext_x (set_ss a b t) = ext_x t"
  by (simp_all add: set_ss_def)

lemma set_ops_flags [simp]:
  "ext_s (set_ops c a b t) = ext_s t" "ext_f (set_ops c a b t) = ext_f t"
  "ext_k (set_ops c a b t) = ext_k t" "ext_g (set_ops c a b t) = ext_g t"
  "ext_h (set_ops c a b t) = ext_h t" "ext_i (set_ops c a b t) = ext_i t"
  "ext_j (set_ops c a b t) = ext_j t" "ext_e (set_ops c a b t) = ext_e t"
  "ext_m (set_ops c a b t) = ext_m t" "ext_x (set_ops c a b t) = ext_x t"
  by (simp_all add: set_ops_def)

lemma set_locks_flags [simp]:
  "ext_s (set_locks x y t) = ext_s t" "ext_f (set_locks x y t) = ext_f t"
  "ext_k (set_locks x y t) = ext_k t"
  by (simp_all add: set_locks_def)

lemma ext_init_flags [simp]: "\<not> ext_s ext_init" "\<not> ext_f ext_init" "ext_k ext_init"
  "\<not> ext_g ext_init" "\<not> ext_h ext_init" "\<not> ext_i ext_init" "\<not> ext_j ext_init"
  by (simp_all add: ext_init_def)

lemma ext_wrap_flags [simp]:
  "ext_s (ext_wrap x) = ext_s x" "\<not> ext_f (ext_wrap x)" "ext_k (ext_wrap x) = ext_k x"
  "ext_g (ext_wrap x) = ext_g x" "ext_h (ext_wrap x) = ext_h x" "ext_i (ext_wrap x) = ext_i x"
  "ext_j (ext_wrap x) = ext_j x"
  by (simp_all add: ext_wrap_def)

lemmas ext_script2_defs = ext_script2_def ext_and_v_def ext_and_b_def ext_and_n_def ext_or_b_def
  ext_or_c_def ext_or_d_def ext_or_i_def

lemmas ext_wrapper_defs = ext_wrapper_def ext_a_def ext_s_n_def ext_c_def ext_d_def ext_t_def ext_v_def
  ext_j_wrap_def ext_l_u_def

lemma s_sound_script2: "s_sound x P \<Longrightarrow> s_sound y Q \<Longrightarrow> s_sound (ext_script2 t x y) (script2_paths t P Q)"
  by (cases t) (auto simp: s_sound_def ext_script2_defs script2_paths_def Let_def intro: signed_both)

lemma s_sound_wrapper:
  "s_sound x P \<Longrightarrow> w = Tok_C \<longrightarrow> all_signed (fst P) \<Longrightarrow> s_sound (ext_wrapper w x) (wrapper_paths w P)"
  by (cases w) (auto simp: s_sound_def ext_wrapper_defs wrapper_paths_def Let_def intro: signed_both)

lemma s_sound_andor:
  "s_sound x (paths nx) \<Longrightarrow> s_sound y (paths ny) \<Longrightarrow> s_sound z (paths nz) \<Longrightarrow>
   s_sound (ext_andor x y z) (paths (With_script3 f nx ny nz))"
  by (auto simp: s_sound_def ext_andor_def intro: signed_both)

lemma s_sound_leaf:
  "s_sound (ext_constant t) (paths (Constant t f))"
  "s_sound (ext_uint32 u n) (paths (With_uint32 u f n))"
  "s_sound ext_hash256 P" "s_sound ext_hash160 P"
  "ext_key ctx kt = Some i \<Longrightarrow> s_sound i (paths (With_key kt f key))"
  "ext_multi mt k (length ks) = Some i \<Longrightarrow> 1 \<le> k \<Longrightarrow> s_sound i (paths (Multisig mt f k ks))"
  by (cases t; simp add: s_sound_def ext_constant_def)
    (auto simp: s_sound_def ext_uint32_def ext_hash256_def ext_hash160_def ext_key_def ext_multi_def
      Let_def split: uint_tok.splits key_tok.splits multi_tok.splits)

lemma thresh_locks_sf [simp]:
  "ext_s (thresh_locks k ts out) = ext_s out" "ext_f (thresh_locks k ts out) = ext_f out"
  by (induction k ts out rule: thresh_locks.induct) (simp_all add: Let_def)

lemma ext_thresh_flags:
  assumes "ext_thresh k ts = Some i"
  shows "ext_s i \<longleftrightarrow> int (length (filter (\<lambda>t. \<not> ext_s t) ts)) \<le> int k - 1" "\<not> ext_f i"
    and "ext_k i = ext_k (thresh_locks k ts ext_init)"
    and "ext_g i = ext_g (thresh_locks k ts ext_init)" "ext_h i = ext_h (thresh_locks k ts ext_init)"
    and "ext_i i = ext_i (thresh_locks k ts ext_init)" "ext_j i = ext_j (thresh_locks k ts ext_init)"
  using assms sum_length_filter_compl [of ext_s ts]
  by (auto simp: ext_thresh_def Let_def elim!: bind_SomeE)

lemma s_sound_thresh:
  assumes "list_all2 s_sound ts Ps" "ext_thresh k ts = Some i"
  shows "s_sound i (choose_paths k Ps, Qs)"
proof -
  have "all_signed (choose_paths k Ps)" if "length (filter Not (map ext_s ts)) < k"
    using assms(1) that
    by (intro choose_signed [where ss = "map ext_s ts"]) (auto simp: list_all2_conv_all_nth s_sound_def)
  with ext_thresh_flags [OF assms(2)] show ?thesis
    by (auto simp: s_sound_def filter_map comp_def)
qed

lemma ext_info_s_sound:
  "compute_miniscript_policy_ext_info ctx x = Some t \<Longrightarrow> counts_ok x \<Longrightarrow> well_typed tr x \<Longrightarrow>
   s_sound t (paths x)"
proof (induction ctx x arbitrary: t rule: compute_miniscript_policy_ext_info.induct)
  case (9 ctx f k xs)
  from "9.prems" obtain ts where ts: "list_all2 (\<lambda>x t. compute_miniscript_policy_ext_info ctx x = Some t) xs ts"
    and t: "ext_thresh k ts = Some t" and f: "f \<noteq> None"
    by (auto simp: those_map_Some split: if_splits elim!: bind_SomeE)
  have "list_all2 s_sound ts (map paths xs)"
    using ts "9.IH" [OF f] "9.prems"(2,3)
    by (auto simp: list_all2_conv_all_nth list_all_length)
  then show ?case
    using s_sound_thresh [OF _ t] by simp
next
  case (10 ctx w f nx)
  then obtain x X where "compute_miniscript_policy_ext_info ctx nx = Some x" "t = ext_wrapper w x"
    "infer_flags tr nx = Some X" "wrapper_flags tr w X \<noteq> None" "f \<noteq> None"
    by (auto split: if_splits elim!: bind_SomeE)
  moreover from this have "w = Tok_C \<longrightarrow> all_signed (fst (paths nx))"
    using type_K_signed [of tr nx X] by (auto simp: wrapper_flags_def split: if_splits)
  ultimately show ?case
    using 10 by (auto intro: s_sound_wrapper)
qed (auto simp del: paths.simps(1,2,3,6,7) simp: s_sound_leaf split: if_splits elim!: bind_SomeE
    intro: s_sound_andor s_sound_script2)

section \<open>Timelocks\<close>

definition mixes :: "lock set \<Rightarrow> bool" where
  "mixes L \<longleftrightarrow> Rel_time \<in> L \<and> Rel_height \<in> L \<or> Abs_time \<in> L \<and> Abs_height \<in> L"

definition lock_flags :: "policy_node_ext_info \<Rightarrow> lock set" where
  "lock_flags t =
     (if ext_g t then {Rel_time} else {}) \<union> (if ext_h t then {Rel_height} else {})
     \<union> (if ext_i t then {Abs_time} else {}) \<union> (if ext_j t then {Abs_height} else {})"

lemma lock_flags_iff [simp]:
  "Rel_time \<in> lock_flags t \<longleftrightarrow> ext_g t" "Rel_height \<in> lock_flags t \<longleftrightarrow> ext_h t"
  "Abs_time \<in> lock_flags t \<longleftrightarrow> ext_i t" "Abs_height \<in> lock_flags t \<longleftrightarrow> ext_j t"
  by (auto simp: lock_flags_def)

lemma lock_set_eqI:
  assumes "Rel_time \<in> A \<longleftrightarrow> Rel_time \<in> B" "Rel_height \<in> A \<longleftrightarrow> Rel_height \<in> B"
    "Abs_time \<in> A \<longleftrightarrow> Abs_time \<in> B" "Abs_height \<in> A \<longleftrightarrow> Abs_height \<in> B"
  shows "A = B"
proof (rule set_eqI)
  show "l \<in> A \<longleftrightarrow> l \<in> B" for l
    using assms by (cases l) simp_all
qed

lemma mixes_mono: "mixes A \<Longrightarrow> A \<subseteq> B \<Longrightarrow> mixes B"
  by (auto simp: mixes_def)

lemma not_mixes_Un:
  "\<not> mixes A \<Longrightarrow> \<not> mixes B \<Longrightarrow> A \<subseteq> lock_flags x \<Longrightarrow> B \<subseteq> lock_flags y \<Longrightarrow> \<not> mixed_locks x y \<Longrightarrow>
   \<not> mixes (A \<union> B)"
  unfolding mixes_def mixed_locks_def using lock_flags_iff by blast

text \<open>No canonical way to dissatisfy a script uses a timelock.\<close>

definition lock_free :: "path list \<Rightarrow> bool" where
  "lock_free ps \<longleftrightarrow> (\<forall>p\<in>set ps. locks p = {})"

lemma lock_free_simps [simp]:
  "lock_free []" "lock_free (p # ps) \<longleftrightarrow> locks p = {} \<and> lock_free ps"
  "lock_free (ps @ qs) \<longleftrightarrow> lock_free ps \<and> lock_free qs"
  by (auto simp: lock_free_def)

lemma lock_free_both [simp]: "lock_free ps \<Longrightarrow> lock_free qs \<Longrightarrow> lock_free (both ps qs)"
  by (auto simp: lock_free_def sumset_iff)

lemma lock_free_choose: "list_all (\<lambda>c. lock_free (snd c)) cs \<Longrightarrow> lock_free (choose_paths 0 cs)"
  by (induction cs) auto

lemma dissatisfaction_lock_free: "lock_free (snd (paths x))"
proof (induction x rule: paths.induct)
  case (8 t f x y)
  then show ?case
    by (cases t) (simp_all add: script2_paths_def Let_def)
next
  case (10 w f x)
  then show ?case
    by (cases w) (simp_all add: wrapper_paths_def Let_def)
next
  case (9 f k xs)
  then show ?case
    by (simp add: lock_free_choose list_all_iff)
qed auto

text \<open>The locks of the ways are among \<open>L\<close> and, if \<open>b\<close>, not mixed.\<close>

definition locks_within :: "lock set \<Rightarrow> bool \<Rightarrow> path list \<Rightarrow> bool" where
  "locks_within L b ps \<longleftrightarrow> (\<forall>p\<in>set ps. locks p \<subseteq> L \<and> (b \<longrightarrow> \<not> mixes (locks p)))"

lemma locks_within_simps [simp]:
  "locks_within L b []" "locks_within L b (ps @ qs) \<longleftrightarrow> locks_within L b ps \<and> locks_within L b qs"
  by (auto simp: locks_within_def)

lemma locks_within_weaken:
  "locks_within L b ps \<Longrightarrow> L \<subseteq> L' \<Longrightarrow> b' \<longrightarrow> b \<Longrightarrow> locks_within L' b' ps"
  by (fastforce simp: locks_within_def)

lemma locks_within_free:
  assumes "lock_free ps" "locks_within L b qs"
  shows "locks_within L b (both ps qs)" "locks_within L b (both qs ps)"
proof -
  have "locks (p + q) = locks q" "locks (q + p) = locks q" if "p \<in> set ps" for p q
    using assms(1) that by (simp_all add: lock_free_def)
  with assms(2) show "locks_within L b (both ps qs)" "locks_within L b (both qs ps)"
    unfolding locks_within_def set_both Ball_def sumset_iff subset_iff by (auto simp del: path_plus)
qed

lemma locks_within_both:
  assumes "locks_within (lock_flags x) b ps" "locks_within (lock_flags y) c qs"
  shows "locks_within (lock_flags x \<union> lock_flags y) (b \<and> c \<and> \<not> mixed_locks x y) (both ps qs)"
  unfolding locks_within_def set_both
proof (intro ballI conjI impI)
  fix r
  assume "r \<in> sumset (set ps) (set qs)"
  then obtain p q where r: "p \<in> set ps" "q \<in> set qs" "r = p + q"
    by (auto simp: sumset_iff)
  then have "locks p \<subseteq> lock_flags x" "locks q \<subseteq> lock_flags y"
    and "b \<and> c \<Longrightarrow> \<not> mixes (locks p) \<and> \<not> mixes (locks q)"
    using assms by (auto simp: locks_within_def)
  note pq = this
  show "locks r \<subseteq> lock_flags x \<union> lock_flags y"
    using pq(1,2) r(3) by auto
  show "\<not> mixes (locks r)" if "b \<and> c \<and> \<not> mixed_locks x y"
    using pq not_mixes_Un [of "locks p" "locks q" x y] r(3) that by auto
qed

definition k_sound :: "policy_node_ext_info \<Rightarrow> path list \<times> path list \<Rightarrow> bool" where
  "k_sound t P \<longleftrightarrow> lock_free (snd P) \<and> locks_within (lock_flags t) (ext_k t) (fst P)"

lemma lock_flags_ext [simp]:
  "lock_flags (set_ss a b t) = lock_flags t" "lock_flags (set_ops c a b t) = lock_flags t"
  "lock_flags (ext_wrap t) = lock_flags t"
  by (simp_all add: lock_flags_def)

lemma lock_flags_set_locks: "lock_flags (set_locks x y t) = lock_flags x \<union> lock_flags y"
  by (rule lock_set_eqI) (simp_all add: set_locks_def)

lemma lock_flags_update [simp]:
  "lock_flags (t\<lparr>ext_s := b\<rparr>) = lock_flags t" "lock_flags (t\<lparr>ext_f := b\<rparr>) = lock_flags t"
  "lock_flags (t\<lparr>ext_e := b\<rparr>) = lock_flags t" "lock_flags (t\<lparr>ext_m := b\<rparr>) = lock_flags t"
  "lock_flags (t\<lparr>ext_k := b\<rparr>) = lock_flags t" "lock_flags (t\<lparr>ext_x := b\<rparr>) = lock_flags t"
  "lock_flags (t\<lparr>script_size := n\<rparr>) = lock_flags t"
  by (simp_all add: lock_flags_def)

lemma not_mixes_empty [simp]: "\<not> mixes {}"
  by (simp add: mixes_def)

lemma k_sound_script2:
  assumes "k_sound x P" "k_sound y Q"
  shows "k_sound (ext_script2 t x y) (script2_paths t P Q)"
proof -
  have x: "locks_within (lock_flags x \<union> lock_flags y) (ext_k x \<and> ext_k y) (fst P)"
    and y: "locks_within (lock_flags x \<union> lock_flags y) (ext_k x \<and> ext_k y) (fst Q)"
    using assms by (auto simp: k_sound_def elim: locks_within_weaken)
  show ?thesis
    using assms x y locks_within_both [of x "ext_k x" "fst P" y "ext_k y" "fst Q"]
    by (cases t)
      (auto simp: k_sound_def ext_script2_defs script2_paths_def Let_def lock_flags_set_locks
        intro: locks_within_free)
qed

lemma k_sound_wrapper: "k_sound x P \<Longrightarrow> k_sound (ext_wrapper w x) (wrapper_paths w P)"
  by (cases w)
    (auto simp: k_sound_def ext_wrapper_defs wrapper_paths_def Let_def intro: locks_within_free)

lemma k_sound_andor:
  assumes "k_sound x (paths nx)" "k_sound y (paths ny)" "k_sound z (paths nz)"
  shows "k_sound (ext_andor x y z) (paths (With_script3 f nx ny nz))"
proof -
  have L: "lock_flags (ext_andor x y z) = lock_flags x \<union> lock_flags y \<union> lock_flags z"
    by (rule lock_set_eqI) (auto simp: ext_andor_def)
  have k: "ext_k (ext_andor x y z) \<longleftrightarrow> (ext_k x \<and> ext_k y \<and> \<not> mixed_locks x y) \<and> ext_k z"
    by (auto simp: ext_andor_def)
  have "locks_within (lock_flags (ext_andor x y z)) (ext_k (ext_andor x y z))
      (both (fst (paths nx)) (fst (paths ny)))"
    by (rule locks_within_weaken [OF locks_within_both [of x "ext_k x" _ y "ext_k y"]])
      (use assms in \<open>auto simp: L k k_sound_def\<close>)
  moreover have "locks_within (lock_flags (ext_andor x y z)) (ext_k (ext_andor x y z))
      (both (snd (paths nx)) (fst (paths nz)))"
    by (rule locks_within_weaken [OF locks_within_free(1) [of _ "lock_flags z" "ext_k z"]])
      (use assms in \<open>auto simp: L k k_sound_def\<close>)
  ultimately show ?thesis
    using assms by (simp add: k_sound_def)
qed

lemma k_sound_leaf:
  "k_sound (ext_constant t) (paths (Constant t f))"
  "k_sound (ext_uint32 u n) (paths (With_uint32 u f n))"
  "k_sound ext_hash256 ([elem], [])" "k_sound ext_hash160 ([elem], [])"
  "k_sound i (paths (With_key kt f key))"
  "k_sound i (paths (Multisig mt f k ks))"
proof -
  have "n AND SEQUENCE_LOCKTIME_TYPE_FLAG \<noteq> 0 \<longleftrightarrow> bit n 22"
    by (simp only: bit_iff_and_push_bit_not_eq_0)
  then show "k_sound (ext_uint32 u n) (paths (With_uint32 u f n))"
    unfolding ext_uint32_def
    by (cases u)
      (simp_all only: uint_tok.case, simp_all add: k_sound_def locks_within_def uint32_lock_def mixes_def
        word_le_nat_alt)
qed (auto simp: k_sound_def locks_within_def)

text \<open>With a threshold of at least 2 the children together have no mix, with a threshold of 1 a single
  child is satisfied.\<close>

lemma mixed_locks_update [simp]: "mixed_locks t (u\<lparr>ext_k := b\<rparr>) = mixed_locks t u"
  by (simp add: mixed_locks_def)

lemma thresh_locks_Cons:
  "thresh_locks k (t # ts) out =
     thresh_locks k ts (set_locks out t out
       \<lparr>ext_k := ext_k out \<and> ext_k t \<and> \<not> (2 \<le> k \<and> mixed_locks t (set_locks out t out))\<rparr>)"
  by (simp add: Let_def)

lemma lock_flags_thresh: "lock_flags (thresh_locks k ts out) = lock_flags out \<union> (\<Union>t\<in>set ts. lock_flags t)"
  by (induction ts arbitrary: out)
    (simp_all add: thresh_locks_Cons lock_flags_set_locks Un_assoc del: thresh_locks.simps(2))

lemma thresh_locks_k: "ext_k (thresh_locks k ts out) \<Longrightarrow> ext_k out \<and> list_all ext_k ts"
proof (induction ts arbitrary: out)
  case (Cons t ts)
  from Cons.IH [OF Cons.prems [unfolded thresh_locks_Cons]] show ?case
    by simp
qed simp

lemma mixes_step:
  "\<not> mixes (lock_flags out) \<Longrightarrow> \<not> mixed_locks t (set_locks out t out) \<Longrightarrow>
   \<not> mixes (lock_flags (set_locks out t out))"
  by (auto simp: mixes_def mixed_locks_def set_locks_def)

lemma thresh_locks_not_mixed:
  "2 \<le> k \<Longrightarrow> ext_k (thresh_locks k ts out) \<Longrightarrow> \<not> mixes (lock_flags out) \<Longrightarrow>
   \<not> mixes (lock_flags (thresh_locks k ts out))"
proof (induction ts arbitrary: out)
  case (Cons t ts)
  have "\<not> mixed_locks t (set_locks out t out)"
    using thresh_locks_k [OF Cons.prems(2) [unfolded thresh_locks_Cons]] Cons.prems(1) by simp
  then show ?case
    using Cons.IH [OF Cons.prems(1) Cons.prems(2) [unfolded thresh_locks_Cons]] Cons.prems(3)
      mixes_step [of out t]
    by (simp add: thresh_locks_Cons del: thresh_locks.simps(2))
qed simp

lemma choose_zero_free: "list_all2 k_sound ts Ps \<Longrightarrow> lock_free (choose_paths 0 Ps)"
  by (rule lock_free_choose) (auto simp: list_all2_conv_all_nth list_all_length k_sound_def)

lemma lock_free_within: "lock_free ps \<Longrightarrow> locks_within L b ps"
  by (simp add: lock_free_def locks_within_def)

lemma locks_within_both_any:
  "locks_within L False ps \<Longrightarrow> locks_within M False qs \<Longrightarrow> locks_within (L \<union> M) False (both ps qs)"
  by (auto simp: locks_within_def sumset_iff subset_iff)

lemma locks_choose_within:
  "list_all2 k_sound ts Ps \<Longrightarrow> locks_within (\<Union>t\<in>set ts. lock_flags t) False (choose_paths k Ps)"
proof (induction k Ps arbitrary: ts rule: choose_paths.induct)
  case (4 k c cs)
  then obtain t ts' where ts: "ts = t # ts'" "k_sound t c" "list_all2 k_sound ts' cs"
    by (auto simp: list_all2_Cons2)
  have "locks_within (lock_flags t) False (fst c)" "locks_within (lock_flags t) False (snd c)"
    using ts(2) by (auto simp: k_sound_def lock_free_within elim: locks_within_weaken)
  then show ?case
    using locks_within_both_any [OF _ "4.IH"(1) [OF ts(3)]] locks_within_both_any [OF _ "4.IH"(2) [OF ts(3)]]
    by (auto simp: ts(1) elim: locks_within_weaken)
qed (auto intro: lock_free_within choose_zero_free simp del: choose_paths.simps(3))

lemma locks_choose_one:
  "list_all2 k_sound ts Ps \<Longrightarrow> list_all ext_k ts \<Longrightarrow> k \<le> 1 \<Longrightarrow> locks_within UNIV True (choose_paths k Ps)"
proof (induction k Ps arbitrary: ts rule: choose_paths.induct)
  case (4 k c cs)
  then obtain t ts' where ts: "ts = t # ts'" "k_sound t c" "ext_k t" "list_all2 k_sound ts' cs" "list_all ext_k ts'"
    by (auto simp: list_all2_Cons2)
  have "locks_within UNIV True (fst c)"
    using ts(2,3) by (auto simp: k_sound_def elim: locks_within_weaken)
  moreover have "lock_free (snd c)"
    using ts(2) by (simp add: k_sound_def)
  moreover have "k = 0"
    using "4.prems"(3) by simp
  ultimately show ?case
    using "4.IH"(1) [OF ts(4,5)] choose_zero_free [OF ts(4)] by (simp add: locks_within_free)
qed (auto intro: lock_free_within choose_zero_free simp del: choose_paths.simps(3))

lemma k_sound_thresh:
  assumes ts: "list_all2 k_sound ts Ps" and i: "ext_thresh k ts = Some i"
  shows "k_sound i (choose_paths k Ps, choose_paths 0 Ps)"
proof -
  have L: "lock_flags i = (\<Union>t\<in>set ts. lock_flags t)"
    using lock_flags_thresh [of k ts ext_init] ext_thresh_flags [OF i]
    by (simp add: lock_flags_def)
  have "lock_free (choose_paths 0 Ps)"
    using ts by (intro lock_free_choose) (auto simp: list_all2_conv_all_nth list_all_length k_sound_def)
  moreover have "locks_within UNIV (ext_k i) (choose_paths k Ps)"
  proof (cases "k \<le> 1 \<or> \<not> ext_k i")
    case True
    then show ?thesis
      using locks_choose_one [OF ts] ext_thresh_flags(3) [OF i] thresh_locks_k [of k ts ext_init]
      by (auto simp: locks_within_def)
  next
    case False
    then have "\<not> mixes (lock_flags i)"
      using thresh_locks_not_mixed [of k ts ext_init] ext_thresh_flags [OF i]
      by (simp add: lock_flags_def)
    then show ?thesis
      using locks_choose_within [OF ts, of k] unfolding L locks_within_def by (metis mixes_mono subset_UNIV)
  qed
  ultimately show ?thesis
    using locks_choose_within [OF ts, of k] by (auto simp: k_sound_def locks_within_def L)
qed

lemma ext_info_k_sound: "compute_miniscript_policy_ext_info ctx x = Some t \<Longrightarrow> k_sound t (paths x)"
proof (induction ctx x arbitrary: t rule: compute_miniscript_policy_ext_info.induct)
  case (9 ctx f k xs)
  from "9.prems" obtain ts where ts: "list_all2 (\<lambda>x t. compute_miniscript_policy_ext_info ctx x = Some t) xs ts"
    and t: "ext_thresh k ts = Some t" and f: "f \<noteq> None"
    by (auto simp: those_map_Some split: if_splits elim!: bind_SomeE)
  have "list_all2 k_sound ts (map paths xs)"
    using ts "9.IH" [OF f] by (auto simp: list_all2_conv_all_nth)
  then show ?case
    using k_sound_thresh [OF _ t] by simp
qed (auto simp del: paths.simps(1,2,3,6,7) simp: k_sound_leaf split: if_splits elim!: bind_SomeE
    intro: k_sound_andor k_sound_script2 k_sound_wrapper)

section \<open>When the analysis answers\<close>

text \<open>The limits of the implementation on \<open>thresh\<close>: the number of children that the arrays have room
  for, and the threshold with which they are indexed.\<close>

fun thresh_limits :: "policy_node \<Rightarrow> bool" where
  "thresh_limits (Thresh _ k xs) \<longleftrightarrow> length xs \<le> 128 \<and> k < 130 \<and> list_all thresh_limits xs"
| "thresh_limits (With_script3 _ x y z) \<longleftrightarrow> thresh_limits x \<and> thresh_limits y \<and> thresh_limits z"
| "thresh_limits (With_script2 _ _ x y) \<longleftrightarrow> thresh_limits x \<and> thresh_limits y"
| "thresh_limits (With_wrapper _ _ x) \<longleftrightarrow> thresh_limits x"
| "thresh_limits _ \<longleftrightarrow> True"

lemma length_next_sats: "sats \<noteq> [] \<Longrightarrow> length (next_sats a b sats) = Suc (length sats)"
  by (cases sats) (simp_all add: next_sats_def del: upt_Suc)

lemma length_thresh_sats: "sats \<noteq> [] \<Longrightarrow> length (thresh_sats cs sats) = length cs + length sats"
proof (induction cs arbitrary: sats)
  case (Cons c cs)
  moreover have "next_sats (fst c) (snd c) sats \<noteq> []"
    by (simp add: next_sats_def)
  ultimately show ?case
    by (simp add: length_next_sats)
qed simp

lemma ext_thresh_Some_iff: "ext_thresh k ts \<noteq> None \<longleftrightarrow> length ts \<le> 128 \<and> unat (word_of_nat k :: u32) < 130"
  by (auto simp: ext_thresh_def compute_thresh_ops_def compute_thresh_stacksize_def sats_array_def Let_def
      rd_def length_thresh_sats)

lemma ext_info_answers:
  "well_typed tr x \<Longrightarrow> node_flags x \<noteq> None \<Longrightarrow> thresh_limits x \<Longrightarrow>
   compute_miniscript_policy_ext_info ctx x \<noteq> None"
proof (induction ctx x rule: compute_miniscript_policy_ext_info.induct)
  case (9 ctx f k xs)
  have "node_flags x \<noteq> None" if "x \<in> set xs" for x
  proof -
    from "9.prems" obtain fs where "those (map (infer_flags tr) xs) = Some fs"
      by (auto elim!: bind_SomeE)
    with that have "infer_flags tr x \<noteq> None"
      by (auto simp: those_map_Some list_all2_conv_all_nth in_set_conv_nth)
    with that "9.prems"(1) show ?thesis
      using well_typed_flags [of tr x] by (simp add: list_all_iff)
  qed
  then have "\<exists>ts. those (map (compute_miniscript_policy_ext_info ctx) xs) = Some ts \<and> length ts = length xs"
    using 9 by (intro those_map_total) (auto simp: list_all_iff)
  then show ?case
    using "9.prems" ext_thresh_Some_iff [of k] by (auto simp: unat_of_nat_u32)
next
  case (2 ctx t f k)
  then show ?case
    by (cases t) (simp_all add: ext_key_def typing_defs Let_def)
next
  case (3 ctx t f k ks)
  then show ?case
    by (cases t) (simp_all add: ext_multi_def typing_defs)
next
  case (7 ctx f nx ny nz)
  then have "node_flags nx \<noteq> None" "node_flags ny \<noteq> None" "node_flags nz \<noteq> None" "f \<noteq> None"
    by (auto dest!: well_typed_flags elim!: bind_SomeE)
  with 7 show ?case
    by (cases "compute_miniscript_policy_ext_info ctx nx"; cases "compute_miniscript_policy_ext_info ctx ny";
        cases "compute_miniscript_policy_ext_info ctx nz") (simp_all, blast)
qed (auto dest!: well_typed_flags elim!: bind_SomeE)

section \<open>Abbreviated fragments\<close>

text \<open>The range of the \<open>int16_t\<close> fields.\<close>

definition info_range :: "policy_node_ext_info \<Rightarrow> bool" where
  "info_range t \<longleftrightarrow> - 1 \<le> ops_sat t \<and> ops_sat t \<le> 32767 \<and> - 1 \<le> ops_dsat t \<and> ops_dsat t \<le> 32767
     \<and> - 1 \<le> ss_sat t \<and> ss_sat t \<le> 32767 \<and> - 1 \<le> ss_dsat t \<and> ss_dsat t \<le> 32767"

lemmas ext_info_unfold = set_ss_def set_ops_def set_locks_def ext_init_def ext_wrap_def ext_constant_def
  mixed_locks_def sumcheck_def maxcheck_def

lemma ext_t_abbreviates: "info_range x \<Longrightarrow> ext_t x = ext_and_v x (ext_constant Tok_1)"
  by (auto simp: ext_t_def ext_and_v_def ext_info_unfold info_range_def)

lemma ext_l_abbreviates:
  "info_range x \<Longrightarrow> ext_or_i (ext_constant Tok_0) x = ext_l_u x\<lparr>ops_dsat := max 0 (ops_dsat x)\<rparr>"
  by (auto simp: ext_l_u_def ext_or_i_def ext_info_unfold info_range_def)

lemma ext_u_abbreviates:
  "info_range x \<Longrightarrow> ext_or_i x (ext_constant Tok_0) = ext_l_u x\<lparr>ops_dsat := max 0 (ops_dsat x)\<rparr>"
  by (auto simp: ext_l_u_def ext_or_i_def ext_info_unfold info_range_def)

lemma ext_and_n_abbreviates:
  "info_range x \<Longrightarrow> info_range y \<Longrightarrow>
   ext_andor x y (ext_constant Tok_0)
     = ext_and_n x y\<lparr>ops_sat := sumcheck (ops_sat y) (ops_sat x), ext_m := ext_m x \<and> ext_m y \<and> ext_e x\<rparr>"
  by (auto simp: ext_and_n_def ext_andor_def ext_info_unfold info_range_def)

lemma ext_pk_abbreviates:
  "ext_key ctx Tok_PK = map_option ext_c (ext_key ctx Tok_PK_K)"
  "ext_key ctx Tok_PKH = map_option ext_c (ext_key ctx Tok_PK_H)"
  by (simp_all add: ext_key_def ext_c_def ext_info_unfold Let_def)

section \<open>Examples\<close>

definition example_key :: "nat \<Rightarrow> policy_node" where
  "example_key i = With_key Tok_PK (Some (mk_flags MINISCRIPT_TYPE_B False True True True True))
     \<lparr>num_first = 0, num_second = 1, key_kind = KEY_EXPRESSION_NORMAL i, keyexpr_index = word_of_nat i\<rparr>"

text \<open>\<^verbatim>\<open>thresh(2,pk(@0/**),s:pk(@1/**),s:pk(@2/**))\<close> and \<^verbatim>\<open>andor(pk(@0/**),older(1000),pk(@1/**))\<close>\<close>

definition example_thresh :: policy_node where
  "example_thresh = Thresh (Some (mk_flags MINISCRIPT_TYPE_B False False False True True)) 2
     [example_key 0,
      With_wrapper Tok_S (Some (mk_flags MINISCRIPT_TYPE_W False False False True True)) (example_key 1),
      With_wrapper Tok_S (Some (mk_flags MINISCRIPT_TYPE_W False False False True True)) (example_key 2)]"

definition example_andor :: policy_node where
  "example_andor = With_script3 (Some (mk_flags MINISCRIPT_TYPE_B False False False True False))
     (example_key 0) (With_uint32 Tok_OLDER (Some (mk_flags MINISCRIPT_TYPE_B True False False False False)) 1000)
     (example_key 1)"

section \<open>Properties\<close>

text \<open>C10: The stack sizes that the analysis computes are exactly the largest numbers of witness elements
  of any way to satisfy and of any canonical way to dissatisfy the script (-1 when there is none, and
  saturated at 32767); in particular, for \<open>thresh\<close>, the rolling arrays of
  \<open>compute_thresh_stacksize\<close> maximise over all choices of exactly \<open>k\<close> children.\<close>

theorem ext_info_stack_size:
  assumes "compute_miniscript_policy_ext_info ctx x = Some t" and "counts_ok x"
  shows "ss_sat t = best elems (fst (paths x)) \<and> ss_dsat t = best elems (snd (paths x))"
  using ext_info_ss_best [OF assms] by (simp add: ss_best_def)

theorem ext_info_stack_size_witness:
  "\<exists>t. compute_miniscript_policy_ext_info MINISCRIPT_CONTEXT_P2WSH example_thresh = Some t
     \<and> counts_ok example_thresh \<and> ss_sat t = 3 \<and> best elems (fst (paths example_thresh)) = 3"
proof -
  have c: "counts_ok example_thresh"
    by code_simp
  have "map_option ss_sat (compute_miniscript_policy_ext_info MINISCRIPT_CONTEXT_P2WSH example_thresh) = Some 3"
    by code_simp
  then obtain t where t: "compute_miniscript_policy_ext_info MINISCRIPT_CONTEXT_P2WSH example_thresh = Some t"
    and "ss_sat t = 3"
    by auto
  with c ext_info_stack_size [OF t c] show ?thesis
    by auto
qed

text \<open>C8: If the analysis of a well-typed script gives the flag \<open>s\<close>, then every way to satisfy the script
  needs a signature; if it gives \<open>f\<close>, then so does every canonical way to dissatisfy it.\<close>

theorem ext_info_signature:
  assumes "compute_miniscript_policy_ext_info ctx x = Some t" and "counts_ok x" and "well_typed tr x"
  shows "(ext_s t \<longrightarrow> (\<forall>p\<in>set (fst (paths x)). 0 < sigs p)) \<and>
    (ext_f t \<longrightarrow> (\<forall>p\<in>set (snd (paths x)). 0 < sigs p))"
  using ext_info_s_sound [OF assms] by (simp add: s_sound_def all_signed_def)

theorem ext_info_signature_witness:
  "\<exists>t. compute_miniscript_policy_ext_info MINISCRIPT_CONTEXT_P2WSH example_thresh = Some t
     \<and> counts_ok example_thresh \<and> well_typed False example_thresh \<and> ext_s t
     \<and> (\<forall>p\<in>set (fst (paths example_thresh)). 0 < sigs p)"
proof -
  have c: "counts_ok example_thresh" and w: "well_typed False example_thresh"
    by code_simp+
  have "map_option ext_s (compute_miniscript_policy_ext_info MINISCRIPT_CONTEXT_P2WSH example_thresh) = Some True"
    by code_simp
  then obtain t where t: "compute_miniscript_policy_ext_info MINISCRIPT_CONTEXT_P2WSH example_thresh = Some t"
    and "ext_s t"
    by auto
  with c w ext_info_signature [OF t c w] show ?thesis
    by blast
qed

text \<open>C9: If the analysis gives the flag \<open>k\<close>, then no way to satisfy the script needs both a timelock in
  blocks and a timelock in seconds of the same kind (relative or absolute).\<close>

theorem ext_info_timelock:
  assumes "compute_miniscript_policy_ext_info ctx x = Some t" and "ext_k t" and "p \<in> set (fst (paths x))"
  shows "\<not> (Rel_time \<in> locks p \<and> Rel_height \<in> locks p) \<and> \<not> (Abs_time \<in> locks p \<and> Abs_height \<in> locks p)"
  using ext_info_k_sound [OF assms(1)] assms(2,3) by (auto simp: k_sound_def locks_within_def mixes_def)

theorem ext_info_timelock_witness:
  "\<exists>t p. compute_miniscript_policy_ext_info MINISCRIPT_CONTEXT_P2WSH example_andor = Some t \<and> ext_k t
     \<and> p \<in> set (fst (paths example_andor)) \<and> Rel_height \<in> locks p \<and> Rel_time \<notin> locks p"
proof -
  have "map_option ext_k (compute_miniscript_policy_ext_info MINISCRIPT_CONTEXT_P2WSH example_andor) = Some True"
    by code_simp
  then obtain t where t: "compute_miniscript_policy_ext_info MINISCRIPT_CONTEXT_P2WSH example_andor = Some t"
    and k: "ext_k t"
    by auto
  have p: "sig_path + lock_path Rel_height \<in> set (fst (paths example_andor))"
    by (simp add: example_andor_def example_key_def uint32_lock_def both_def)
  show ?thesis
    using t k p ext_info_timelock [OF t k p] by auto
qed

text \<open>C15: The analysis answers for every well-typed miniscript within the limits on \<open>thresh\<close>.\<close>

theorem ext_info_total:
  assumes "well_typed tr x" and "node_flags x \<noteq> None" and "thresh_limits x"
  shows "\<exists>t. compute_miniscript_policy_ext_info ctx x = Some t"
  using ext_info_answers [OF assms] by auto

theorem ext_info_total_witness:
  "well_typed False example_thresh \<and> node_flags example_thresh \<noteq> None \<and> thresh_limits example_thresh
     \<and> (\<exists>t. compute_miniscript_policy_ext_info MINISCRIPT_CONTEXT_P2WSH example_thresh = Some t)"
proof -
  have "well_typed False example_thresh" "node_flags example_thresh \<noteq> None" "thresh_limits example_thresh"
    by code_simp+
  then show ?thesis
    using ext_info_total by blast
qed

text \<open>C16: The abbreviated fragments have the information of what they abbreviate: \<open>t:X\<close> is
  \<open>and_v(X,1)\<close>, \<open>pk\<close> and \<open>pkh\<close> are \<open>c:pk_k\<close> and \<open>c:pk_h\<close>, exactly; \<open>l:X\<close> and \<open>u:X\<close> are \<open>or_i(0,X)\<close> and
  \<open>or_i(X,0)\<close> except for the number of keys to dissatisfy, where the code gives -1 ("impossible")
  instead of 0 when \<open>X\<close> itself cannot be dissatisfied; and \<open>and_n(X,Y)\<close> is \<open>andor(X,Y,0)\<close> except for the
  number of keys to satisfy and for \<open>m\<close>, which the code gives more sparingly.\<close>

theorem ext_info_abbreviations:
  assumes "info_range x" and "info_range y"
  shows "ext_t x = ext_and_v x (ext_constant Tok_1)
    \<and> ext_key ctx Tok_PK = map_option ext_c (ext_key ctx Tok_PK_K)
    \<and> ext_key ctx Tok_PKH = map_option ext_c (ext_key ctx Tok_PK_H)
    \<and> ext_or_i (ext_constant Tok_0) x = ext_l_u x\<lparr>ops_dsat := max 0 (ops_dsat x)\<rparr>
    \<and> ext_or_i x (ext_constant Tok_0) = ext_l_u x\<lparr>ops_dsat := max 0 (ops_dsat x)\<rparr>
    \<and> ext_andor x y (ext_constant Tok_0)
       = ext_and_n x y\<lparr>ops_sat := sumcheck (ops_sat y) (ops_sat x), ext_m := ext_m x \<and> ext_m y \<and> ext_e x\<rparr>"
  using assms ext_pk_abbreviates
  by (simp add: ext_t_abbreviates ext_l_abbreviates ext_u_abbreviates ext_and_n_abbreviates)

theorem ext_info_abbreviations_witness:
  "info_range ext_hash256 \<and> ext_or_i (ext_constant Tok_0) ext_hash256 = ext_l_u ext_hash256\<lparr>ops_dsat := 0\<rparr>
     \<and> ops_dsat (ext_l_u ext_hash256) = - 1"
proof -
  have r: "info_range ext_hash256" and d: "ops_dsat ext_hash256 = - 1"
    by code_simp+
  then show ?thesis
    using ext_info_abbreviations [OF r r] by (simp add: ext_l_u_def set_ss_def set_ops_def)
qed

text \<open>C17: A \<open>thresh\<close> that asks for more children than it has, which the parser accepts, cannot be
  satisfied, but up to 129 the analysis reports satisfactions without keys and without witness
  elements, from the zeros after the used part of the array; above, the array is indexed out of
  bounds (\<open>None\<close>).\<close>

theorem ext_info_thresh_too_many:
  assumes "length ts < k" and "k < 4294967296" and "length ts \<le> 128" and "length xs = length ts"
  shows "choose_paths k (map paths xs) = [] \<and>
    (if k < 130 then \<exists>i. ext_thresh k ts = Some i \<and> ops_sat i = 0 \<and> ss_sat i = 0
     else ext_thresh k ts = None)"
  using assms choose_too_many [of "map paths xs" k]
  by (auto simp: ext_thresh_def compute_thresh_ops_def compute_thresh_stacksize_def sats_array_def Let_def
      rd_def length_thresh_sats nth_append unat_of_nat_u32 set_ss_def set_ops_def)

theorem ext_info_thresh_too_many_witness:
  "(\<exists>i. ext_thresh 2 [ext_hash256] = Some i \<and> ss_sat i = 0) \<and> fst (paths (Thresh None 2 [example_key 0])) = []"
  using ext_info_thresh_too_many [of "[ext_hash256]" 2 "[example_key 0]"] by auto


end
