(* ===== verification/Policy_Sanity.thy ===== *)
theory Policy_Sanity
  imports Key_Info Parser_Fuel Miniscript_Paths
begin

text \<open>
  What the sanity checks of \<^verbatim>\<open>src/src/handler/lib/policy.c\<close> guarantee for a policy that the parser
  accepts, by the types that the parser assigns and the soundness of the static analysis.
\<close>












section \<open>Comparison of the keys\<close>






end
