(* ===== verification/Client_Proofs.thy ===== *)
theory Client_Proofs
  imports Client
begin

text \<open>
  What the device can rely on after it has asked the host for data: a successful run of a command
  of theory \<open>Client\<close> has checked a proof.  The results hold for every host.  SHA-256 is only
  assumed to have digests of 32 bytes; instead of assuming that it has no collisions, which no
  function with such digests satisfies, the theorems exhibit a collision between
  byte strings that have been hashed.
\<close>

section \<open>Proofs received from the host\<close>

text \<open>\<open>c\<close> of \<open>p\<close> steps have been checked: \<open>cur\<close> is computed from the leaf hash \<open>h\<close> and the siblings \<open>ss\<close>
  received so far.\<close>

declare unat_ucast_up [simp]

definition partial_proof ::
    "(bytes \<Rightarrow> bytes) \<Rightarrow> bool list \<Rightarrow> nat \<Rightarrow> bytes \<Rightarrow> nat \<Rightarrow> bytes list \<Rightarrow> bytes \<Rightarrow> bytes list \<Rightarrow> bool" where
  "partial_proof sha256 ds p h c ss cur hs \<longleftrightarrow>
     length ss = c \<and> digests ss \<and> c \<le> p \<and> (0 < c \<longrightarrow> p \<le> length ds)
     \<and> cur = climb sha256 (drop (p - c) (take p ds)) ss h
     \<and> set (climb_inputs sha256 (drop (p - c) (take p ds)) ss h) \<subseteq> set hs"

lemma partial_proof_step:
  assumes "partial_proof sha256 ds p h c ss cur hs" and "p - c - 1 < length ds" and "c < p"
    and "length s = 32" and "d = ds ! (p - c - 1)"
  shows "partial_proof sha256 ds p h (Suc c) (s # ss) (sha256 (node_input d s cur)) (node_input d s cur # hs)"
proof -
  have le: "p \<le> length ds"
    using assms(1-3) by (cases "c = 0") (auto simp: partial_proof_def)
  have "p - Suc c < length (take p ds)"
    using assms(3) le by simp
  then have "drop (p - Suc c) (take p ds) = d # drop (Suc (p - Suc c)) (take p ds)"
    using assms(3,5) by (simp flip: Cons_nth_drop_Suc)
  moreover have "Suc (p - Suc c) = p - c"
    using assms(3) by simp
  ultimately show ?thesis
    using assms le by (auto simp: partial_proof_def)
qed

lemma unat_direction_index:
  assumes "c < unat (p :: u8)"
  shows "unat (ucast p - word_of_nat c - 1 :: u32) = unat p - c - 1"
proof -
  have "unat p < 256"
    by (rule unat_u8_bound)
  moreover have "unat (ucast p :: u32) = unat p"
    by (simp add: unsigned_ucast_eq take_bit_nat_eq_self less_trans [OF unat_u8_bound])
  moreover have "unat (word_of_nat c :: u32) = c"
    using assms calculation(1) by (intro unat_of_nat_u32) simp
  ultimately show ?thesis
    using assms by (simp add: unat_sub word_le_nat_alt)
qed

lemma proof_steps_Ok:
  assumes "proof_steps sha256 sz idx p n c cur dc = (Ok cur', dc')"
    and "unat sz \<le> 2 ^ 31" and "unat idx < unat sz" and "c + n \<le> unat p"
    and "partial_proof sha256 (path (unat sz) (unat idx)) (unat p) h c ss cur (hashed dc)"
  shows "(\<exists>ss'. partial_proof sha256 (path (unat sz) (unat idx)) (unat p) h (c + n) ss' cur' (hashed dc'))
    \<and> set (hashed dc) \<subseteq> set (hashed dc')"
  using assms
proof (induction n arbitrary: c cur ss dc)
  case 0
  then show ?case
    by auto
next
  case (Suc n)
  let ?ds = "path (unat sz) (unat idx)"
  let ?i = "unat p - c - 1"
  have c: "c < unat p"
    using Suc.prems(4) by simp
  let ?dc1 = "\<lambda>s. dc\<lparr>hashed := node_input (?ds ! ?i) s cur # hashed dc,
      read_buffer := advance (read_buffer dc) 32\<rparr>"
  obtain s where dir: "?i < length ?ds" and s: "length s = 32"
    and run: "proof_steps sha256 sz idx p n (Suc c) (sha256 (node_input (?ds ! ?i) s cur)) (?dc1 s) = (Ok cur', dc')"
    using Suc.prems(1) merkle_get_ith_direction [OF Suc.prems(2,3)] unat_direction_index [OF c]
    by (auto simp: direction_of_def cur_bytes_def combine_hashes_def note_hashed_def node_input_def
        merkle_combine_hashes_def elim!: and_thenE split: option.splits if_splits dest!: mem_read_length)
  from partial_proof_step [OF Suc.prems(5) dir c s refl]
  have "partial_proof sha256 ?ds (unat p) h (Suc c) (s # ss) (sha256 (node_input (?ds ! ?i) s cur))
      (hashed (?dc1 s))"
    by simp
  from Suc.IH [OF run Suc.prems(2,3) _ this] Suc.prems(4) show ?case
    by auto
qed

lemma more_proof_elements_Ok:
  assumes "more_proof_elements p c dc = (Ok n, dc')"
  shows "c + unat n \<le> unat p \<and> hashed dc' = hashed dc"
  using assms by (auto simp: more_proof_elements_def can_read_def elim!: and_thenE
      dest!: SET_RESPONSE_keeps process_interruption_keeps)

lemma proof_loop_Ok:
  assumes "proof_loop sha256 sz idx p n c cur dc = (Ok cur', dc')"
    and "unat sz \<le> 2 ^ 31" and "unat idx < unat sz" and "c + unat n \<le> unat p"
    and "partial_proof sha256 (path (unat sz) (unat idx)) (unat p) h c ss cur (hashed dc)"
  shows "(\<exists>ss'. partial_proof sha256 (path (unat sz) (unat idx)) (unat p) h (unat p) ss' cur' (hashed dc'))
    \<and> set (hashed dc) \<subseteq> set (hashed dc')"
  using assms
proof (induction sha256 sz idx p n c cur dc arbitrary: ss rule: proof_loop.induct)
  case (1 sha256 sz idx p n c cur dc)
  let ?inv = "\<lambda>c ss cur dc. partial_proof sha256 (path (unat sz) (unat idx)) (unat p) h c ss cur (hashed dc)"
  obtain cur1 dc1 where st: "proof_steps sha256 sz idx p (unat n) c cur dc = (Ok cur1, dc1)"
    using "1.prems"(1) by (subst (asm) proof_loop.simps) (auto split: prod.splits reply.splits)
  from proof_steps_Ok [OF st "1.prems"(2-5)] obtain ss1 where inv1: "?inv (c + unat n) ss1 cur1 dc1"
    and sub1: "set (hashed dc) \<subseteq> set (hashed dc1)"
    by blast
  show ?case
  proof (cases "c + unat n = unat p")
    case True
    then have "cur' = cur1 \<and> dc' = dc1"
      using "1.prems"(1) st by (subst (asm) proof_loop.simps) simp
    then show ?thesis
      using inv1 sub1 True by auto
  next
    case False
    then obtain m dc2 where more: "more_proof_elements p (c + unat n) dc1 = (Ok m, dc2)"
      and run: "proof_loop sha256 sz idx p m (c + unat n) cur1 dc2 = (Ok cur', dc')"
      using "1.prems"(1) st by (subst (asm) proof_loop.simps) (auto split: prod.splits reply.splits)
    note mo = more_proof_elements_Ok [OF more]
    from 1(1) [OF st [symmetric] refl False more [symmetric] refl run "1.prems"(2,3), of ss1]
    show ?thesis
      using mo inv1 sub1 by auto
  qed
qed

text \<open>The node at the end of the first \<open>length ss\<close> turns of the path has the hash \<open>h\<close>.\<close>

definition leaf_proof ::
    "(bytes \<Rightarrow> bytes) \<Rightarrow> bytes \<Rightarrow> bool list \<Rightarrow> bytes list \<Rightarrow> bytes \<Rightarrow> bytes list \<Rightarrow> bool" where
  "leaf_proof sha256 root ds ss h hs \<longleftrightarrow>
     length ss \<le> length ds \<and> digests ss \<and> length h = 32
     \<and> climb sha256 (take (length ss) ds) ss h = root
     \<and> set (climb_inputs sha256 (take (length ss) ds) ss h) \<subseteq> set hs"

lemma call_get_merkle_leaf_hash_Ok:
  assumes "call_get_merkle_leaf_hash sha256 root sz idx dc = (Ok h, dc')"
    and "unat sz \<le> 2 ^ 31" and "unat idx < unat sz"
  shows "(\<exists>ss. leaf_proof sha256 root (path (unat sz) (unat idx)) ss h (hashed dc'))
    \<and> set (hashed dc) \<subseteq> set (hashed dc')"
proof -
  from assms(1) obtain p n dc1 cur where loop: "proof_loop sha256 sz idx p n 0 h dc1 = (Ok cur, dc')"
    and n: "n \<le> p" and root: "cur = root" and h: "length h = 32" and dc1: "hashed dc1 = hashed dc"
    unfolding call_get_merkle_leaf_hash_def can_read_def
    by (auto elim!: and_thenE dest!: add_to_response_keeps finalize_response_keeps
        process_interruption_keeps buffer_read_bytes_length)
  have "partial_proof sha256 (path (unat sz) (unat idx)) (unat p) h 0 [] h (hashed dc1)"
    by (simp add: partial_proof_def)
  from proof_loop_Ok [OF loop assms(2,3) _ this] n dc1 obtain ss
    where "partial_proof sha256 (path (unat sz) (unat idx)) (unat p) h (unat p) ss cur (hashed dc')"
      and sub: "set (hashed dc) \<subseteq> set (hashed dc')"
    by (auto simp: word_le_nat_alt)
  then have "leaf_proof sha256 root (path (unat sz) (unat idx)) ss h (hashed dc')"
    using h root by (cases "unat p = 0") (auto simp: partial_proof_def leaf_proof_def)
  with sub show ?thesis
    by blast
qed

section \<open>Binding\<close>

text \<open>The hash of an inner node, with what is hashed for it in \<open>A\<close>.\<close>

definition inner_node :: "(bytes \<Rightarrow> bytes) \<Rightarrow> bytes set \<Rightarrow> bytes \<Rightarrow> bool" where
  "inner_node sha256 A h \<longleftrightarrow> (\<exists>l r. length l = 32 \<and> length r = 32 \<and> 0x01 # l @ r \<in> A
     \<and> h = merkle_combine_hashes sha256 l r)"

lemma inner_node_node_input:
  "length s = 32 \<Longrightarrow> length c = 32 \<Longrightarrow> node_input d s c \<in> A \<Longrightarrow> inner_node sha256 A (sha256 (node_input d s c))"
  unfolding inner_node_def node_input_def merkle_combine_hashes_def by (cases d) auto

lemma climb_inner_node:
  assumes "digest_size sha256" and "length h = 32" and "digests ss" and "length ss = length ds" and "ds \<noteq> []"
    and "set (climb_inputs sha256 ds ss h) \<subseteq> A"
  shows "inner_node sha256 A (climb sha256 ds ss h)"
proof -
  obtain d ds' s ss' where "ds = d # ds'" "ss = s # ss'"
    using assms(4,5) by (cases ds; cases ss) auto
  then show ?thesis
    using assms(1-3,6) length_climb [of sha256 h ds' ss'] by (simp add: inner_node_node_input)
qed

lemma climb_inputs_append:
  "length ds \<le> length ss \<Longrightarrow>
     set (climb_inputs sha256 ds' (drop (length ds) ss) h) \<subseteq> set (climb_inputs sha256 (ds @ ds') ss h)"
proof (induction ds arbitrary: ss)
  case (Cons d ds)
  then show ?case
    by (cases ss) auto
qed simp

lemma digests_drop: "digests ss \<Longrightarrow> digests (drop n ss)"
  by (auto simp: digests_def list_all_iff dest: in_set_dropD)

text \<open>A shorter proof for the same path proves an inner node.\<close>

lemma leaf_proof_binding:
  assumes "digest_size sha256" and "leaf_proof sha256 root ds ss h hs" and "leaf_proof sha256 root ds ss' h' hs'"
    and "length ss \<le> length ss'" and "\<not> collision sha256 (set hs) (set hs')"
  shows "if length ss = length ss' then h = h' else inner_node sha256 (set hs') h"
proof -
  let ?d = "take (length ss) ds" and ?d' = "drop (length ss) (take (length ss') ds)"
  have ds: "?d @ ?d' = take (length ss') ds"
    using assms(4) by (metis append_take_drop_id take_take min.absorb1)
  have l: "length ss \<le> length ds" "length ss' \<le> length ds" "length h = 32" "length h' = 32" "digests ss" "digests ss'"
    using assms(2,3) by (simp_all add: leaf_proof_def)
  have sub: "set (climb_inputs sha256 (?d @ ?d') ss' h') \<subseteq> set hs'"
    using assms(3) by (simp add: leaf_proof_def ds)
  have "climb sha256 ?d ss h = climb sha256 (?d @ ?d') ss' h'"
    using assms(2,3) by (simp add: leaf_proof_def ds)
  moreover have "\<not> collision sha256 (set (climb_inputs sha256 ?d ss h)) (set (climb_inputs sha256 (?d @ ?d') ss' h'))"
    using assms(2,5) sub unfolding leaf_proof_def by (meson collision_mono)
  ultimately have h: "h = climb sha256 ?d' (drop (length ?d) ss') h'"
    using assms(1,4) l by (intro climb_binding) (simp_all add: ds)
  moreover have "length (drop (length ?d) ss') = length ?d'"
    using l assms(4) by simp
  moreover have "set (climb_inputs sha256 ?d' (drop (length ?d) ss') h') \<subseteq> set hs'"
    using climb_inputs_append [of ?d ss' sha256 ?d' h'] sub l assms(4) by simp
  ultimately show ?thesis
    using climb_inner_node [OF assms(1) l(4) digests_drop [OF l(6)], of "length ?d" ?d'] l assms(4)
    by (cases "length ss = length ss'") auto
qed

text \<open>The proof of leaf \<open>i\<close> of the tree over the elements \<open>xs\<close>, and all that is hashed for it.\<close>

definition element_inputs :: "(bytes \<Rightarrow> bytes) \<Rightarrow> bytes list \<Rightarrow> nat \<Rightarrow> bytes list" where
  "element_inputs sha256 xs i = (0x00 # xs ! i) #
     climb_inputs sha256 (path (length xs) i) (siblings sha256 (map (merkle_compute_element_hash sha256) xs) i)
       (merkle_compute_element_hash sha256 (xs ! i))"

lemma element_leaf_proof:
  assumes "digest_size sha256" and "i < length xs"
  shows "leaf_proof sha256 (tree_root sha256 (map (merkle_compute_element_hash sha256) xs)) (path (length xs) i)
    (siblings sha256 (map (merkle_compute_element_hash sha256) xs) i) (merkle_compute_element_hash sha256 (xs ! i))
    (element_inputs sha256 xs i)"
proof -
  let ?hs = "map (merkle_compute_element_hash sha256) xs"
  have "digests ?hs"
    using assms(1) by (auto simp: digests_def list_all_iff merkle_compute_element_hash_def)
  then show ?thesis
    using assms climb_siblings [of i ?hs sha256] length_siblings [of i ?hs sha256] digests_siblings [of sha256 ?hs i]
    by (auto simp: leaf_proof_def element_inputs_def merkle_compute_element_hash_def)
qed

lemma inner_node_element_collision:
  assumes "inner_node sha256 A (merkle_compute_element_hash sha256 x)" and "0x00 # x \<in> B"
  shows "collision sha256 B A"
proof -
  from assms(1) obtain l r where "0x01 # l @ r \<in> A" and "sha256 (0x00 # x) = sha256 (0x01 # l @ r)"
    by (auto simp: inner_node_def merkle_combine_hashes_def merkle_compute_element_hash_def)
  with assms(2) show ?thesis
    by (intro collisionI [of "0x00 # x" B "0x01 # l @ r"]) simp_all
qed

lemma element_proof_binding:
  assumes "digest_size sha256" and "i < length xs"
    and "leaf_proof sha256 (tree_root sha256 (map (merkle_compute_element_hash sha256) xs)) (path (length xs) i) ss h hs"
    and "\<not> collision sha256 (set hs) (set (element_inputs sha256 xs i))"
  shows "h = merkle_compute_element_hash sha256 (xs ! i) \<or> inner_node sha256 (set (element_inputs sha256 xs i)) h"
proof -
  have "length ss \<le> length (path (length xs) i)"
    using assms(3) by (simp add: leaf_proof_def)
  also have "\<dots> = length (siblings sha256 (map (merkle_compute_element_hash sha256) xs) i)"
    using assms(2) length_siblings [of i "map (merkle_compute_element_hash sha256) xs" sha256] by simp
  finally show ?thesis
    using leaf_proof_binding [OF assms(1,3) element_leaf_proof [OF assms(1,2)] _ assms(4)]
    by (auto split: if_splits)
qed

section \<open>The index of a leaf\<close>

lemma proof_steps_out_of_range:
  assumes "proof_steps sha256 sz idx p n c cur dc = (Ok cur', dc')" and "sz \<le> idx"
  shows "n = 0 \<and> cur' = cur \<and> dc' = dc"
  using assms by (cases n) (auto simp: merkle_get_ith_direction_def elim!: and_thenE)

lemma proof_loop_out_of_range:
  assumes "proof_loop sha256 sz idx p n c cur dc = (Ok cur', dc')" and "sz \<le> idx"
  shows "cur' = cur \<and> hashed dc' = hashed dc"
  using assms
proof (induction sha256 sz idx p n c cur dc rule: proof_loop.induct)
  case (1 sha256 sz idx p n c cur dc)
  obtain cur1 dc1 where st: "proof_steps sha256 sz idx p (unat n) c cur dc = (Ok cur1, dc1)"
    using "1.prems"(1) by (subst (asm) proof_loop.simps) (auto split: prod.splits reply.splits)
  note same = proof_steps_out_of_range [OF st "1.prems"(2)]
  show ?case
  proof (cases "c + unat n = unat p")
    case True
    then show ?thesis
      using "1.prems"(1) st same by (subst (asm) proof_loop.simps) (simp add: value_of_def)
  next
    case False
    then obtain m dc2 where more: "more_proof_elements p (c + unat n) dc1 = (Ok m, dc2)"
      and run: "proof_loop sha256 sz idx p m (c + unat n) cur1 dc2 = (Ok cur', dc')"
      using "1.prems"(1) st by (subst (asm) proof_loop.simps) (auto split: prod.splits reply.splits)
    from 1(1) [OF st [symmetric] refl False more [symmetric] refl run "1.prems"(2)]
    show ?thesis
      using same more_proof_elements_Ok [OF more] by simp
  qed
qed

lemma call_get_merkle_leaf_hash_out_of_range:
  assumes "call_get_merkle_leaf_hash sha256 root sz idx dc = (Ok h, dc')" and "sz \<le> idx"
  shows "h = root \<and> hashed dc' = hashed dc"
proof -
  from assms(1) obtain p n dc1 where loop: "proof_loop sha256 sz idx p n 0 h dc1 = (Ok root, dc')"
    and dc1: "hashed dc1 = hashed dc"
    unfolding call_get_merkle_leaf_hash_def can_read_def
    by (auto elim!: and_thenE dest!: add_to_response_keeps finalize_response_keeps process_interruption_keeps)
  from proof_loop_out_of_range [OF loop assms(2)] dc1 show ?thesis
    by simp
qed

lemma as_int_Ok:
  assumes "as_int v dc = (Ok i, dc')"
  shows "unat (ucast v :: u32) = i \<and> dc' = dc"
proof -
  let ?w = "ucast v :: u32"
  have "0 \<le> sint ?w" "i = nat (sint ?w)" "dc' = dc"
    using assms by (auto simp: as_int_def Let_def split: if_splits)
  moreover from this(1) have "sint ?w = uint ?w"
    using sint_less [of ?w] by (simp add: uint_sint take_bit_int_eq_self)
  ultimately show ?thesis
    by (simp add: nat_uint_eq)
qed

lemma element_hash_eq:
  assumes "merkle_compute_element_hash sha256 x = merkle_compute_element_hash sha256 y"
    and "0x00 # x \<in> A" and "0x00 # y \<in> B"
  shows "x = y \<or> collision sha256 A B"
  using assms collisionI [of "0x00 # x" A "0x00 # y" B sha256]
  by (cases "x = y") (simp_all add: merkle_compute_element_hash_def)

lemma tree_root_inner_node:
  assumes "digest_size sha256" and "1 < length xs"
  shows "inner_node sha256 (set (element_inputs sha256 xs 0)) (tree_root sha256 (map (merkle_compute_element_hash sha256) xs))"
proof -
  let ?ss = "siblings sha256 (map (merkle_compute_element_hash sha256) xs) 0"
  have "path (length xs) 0 \<noteq> []"
    using assms(2) half_pos [of "length xs"] by (simp add: path.simps [of "length xs"])
  moreover have "0 < length xs"
    using assms(2) by linarith
  moreover from this have "length ?ss = length (path (length xs) 0)"
    using length_siblings [of 0 "map (merkle_compute_element_hash sha256) xs" sha256] by simp
  ultimately show ?thesis
    using element_leaf_proof [of sha256 0 xs] climb_inner_node [of sha256 "merkle_compute_element_hash sha256 (xs ! 0)" ?ss "path (length xs) 0"] assms(1)
    by (simp add: leaf_proof_def)
qed

text \<open>The index that the host gives for a leaf is checked, unless the tree has one leaf only.\<close>

lemma call_get_merkle_leaf_index_Ok:
  assumes "call_get_merkle_leaf_index sha256 sz (tree_root sha256 (map (merkle_compute_element_hash sha256) xs))
      (merkle_compute_element_hash sha256 x) dc = (Ok i, dc')"
    and "digest_size sha256" and "unat sz = length xs" and "0 < length xs" and "length xs \<le> 2 ^ 31"
    and "0x00 # x \<in> set (hashed dc)"
  shows "(i < length xs \<and> xs ! i = x \<or> xs = [x]
    \<or> (\<exists>j<length xs. collision sha256 (set (hashed dc')) (set (element_inputs sha256 xs j))))
    \<and> set (hashed dc) \<subseteq> set (hashed dc')"
proof -
  let ?hs = "map (merkle_compute_element_hash sha256) xs" and ?h = "merkle_compute_element_hash sha256 x"
  from assms(1) obtain v :: u64 and dc1 where run: "call_get_merkle_leaf_hash sha256 (tree_root sha256 ?hs) sz (ucast v) dc1 = (Ok ?h, dc')"
    and v: "unat (ucast v :: u32) = i" and dc1: "hashed dc1 = hashed dc"
    unfolding call_get_merkle_leaf_index_def
    by (auto elim!: and_thenE dest!: SET_RESPONSE_keeps process_interruption_keeps as_int_Ok)
  show ?thesis
  proof (cases "i < length xs")
    case True
    from call_get_merkle_leaf_hash_Ok [OF run] v True assms(3,5) dc1 obtain ss
      where p: "leaf_proof sha256 (tree_root sha256 ?hs) (path (length xs) i) ss ?h (hashed dc')"
        and sub: "set (hashed dc) \<subseteq> set (hashed dc')"
      by auto
    have x: "0x00 # x \<in> set (hashed dc')" "0x00 # xs ! i \<in> set (element_inputs sha256 xs i)"
      using assms(6) sub by (auto simp: element_inputs_def)
    from element_proof_binding [OF assms(2) True p] x
    have "x = xs ! i \<or> collision sha256 (set (hashed dc')) (set (element_inputs sha256 xs i))"
      using element_hash_eq inner_node_element_collision by blast
    with True sub show ?thesis
      by auto
  next
    case False
    then have "sz \<le> ucast v"
      using v assms(3) by (simp add: word_le_nat_alt)
    from call_get_merkle_leaf_hash_out_of_range [OF run this] dc1
    have r: "?h = tree_root sha256 ?hs" "hashed dc' = hashed dc"
      by simp_all
    have "xs = [x] \<or> collision sha256 (set (hashed dc')) (set (element_inputs sha256 xs 0))"
    proof (cases "length xs = 1")
      case True
      then obtain y where y: "xs = [y]"
        by (auto simp: length_Suc_conv)
      with r assms(6) element_hash_eq [of sha256 x y "set (hashed dc')" "set (element_inputs sha256 xs 0)"]
      show ?thesis
        by (auto simp: element_inputs_def)
    next
      case False
      then have "1 < length xs"
        using assms(4) by linarith
      from tree_root_inner_node [OF assms(2) this] r assms(6) show ?thesis
        by (metis inner_node_element_collision)
    qed
    then show ?thesis
      using r(2) assms(4) by auto
  qed
qed

section \<open>Lookups in a map\<close>

text \<open>\<open>m\<close> commits to the map with keys \<open>ks\<close> and values \<open>vs\<close>.\<close>

definition commits :: "(bytes \<Rightarrow> bytes) \<Rightarrow> merkleized_map_commitment_t \<Rightarrow> bytes list \<Rightarrow> bytes list \<Rightarrow> bool" where
  "commits sha256 m ks vs \<longleftrightarrow>
     length ks = length vs \<and> 0 < length ks \<and> length ks \<le> 2 ^ 31 \<and> map_size m = word_of_nat (length ks)
     \<and> keys_root m = tree_root sha256 (map (merkle_compute_element_hash sha256) ks)
     \<and> values_root m = tree_root sha256 (map (merkle_compute_element_hash sha256) vs)"

lemma commits_size: "commits sha256 m ks vs \<Longrightarrow> unat (ucast (map_size m) :: u32) = length ks"
  by (simp add: commits_def unsigned_ucast_eq unat_of_nat take_bit_nat_eq_self)

lemma key_index_Ok:
  assumes "key_index sha256 m k dc = (Ok i, dc')" and "digest_size sha256" and "commits sha256 m ks vs"
  shows "(i < length ks \<and> ks ! i = k \<or> ks = [k]
    \<or> (\<exists>j<length ks. collision sha256 (set (hashed dc')) (set (element_inputs sha256 ks j))))"
    and "i < 2 ^ 32"
proof -
  let ?dc = "note_hashed (0x00 # k) dc"
  have run: "call_get_merkle_leaf_index sha256 (ucast (map_size m))
      (tree_root sha256 (map (merkle_compute_element_hash sha256) ks)) (merkle_compute_element_hash sha256 k) ?dc = (Ok i, dc')"
    using assms(1,3) by (auto simp: key_index_def commits_def elim!: and_thenE)
  show "i < length ks \<and> ks ! i = k \<or> ks = [k]
    \<or> (\<exists>j<length ks. collision sha256 (set (hashed dc')) (set (element_inputs sha256 ks j)))"
    using call_get_merkle_leaf_index_Ok [OF run assms(2) commits_size [OF assms(3)]] assms(3)
    by (simp add: commits_def note_hashed_def)
  from run obtain v :: u64 and dc1 where "as_int v dc1 = (Ok i, dc')"
    unfolding call_get_merkle_leaf_index_def by (auto elim!: and_thenE)
  then show "i < 2 ^ 32"
    using as_int_Ok unat_u32_bound [of "ucast v"] by fastforce
qed

lemma leaf_hash_of_element:
  assumes "call_get_merkle_leaf_hash sha256 (tree_root sha256 (map (merkle_compute_element_hash sha256) xs)) sz i dc = (Ok h, dc')"
    and "digest_size sha256" and "unat sz = length xs" and "length xs \<le> 2 ^ 31" and "unat i < length xs"
  shows "h = merkle_compute_element_hash sha256 (xs ! unat i) \<or> inner_node sha256 (set (element_inputs sha256 xs (unat i))) h
    \<or> collision sha256 (set (hashed dc')) (set (element_inputs sha256 xs (unat i)))"
  using call_get_merkle_leaf_hash_Ok [OF assms(1)] element_proof_binding [OF assms(2,5)] assms(3-5) by fastforce

lemma leaf_hash_hashed:
  assumes "call_get_merkle_leaf_hash sha256 root sz i dc = (Ok h, dc')" and "unat sz \<le> 2 ^ 31"
  shows "set (hashed dc) \<subseteq> set (hashed dc')"
  using call_get_merkle_leaf_hash_Ok [OF assms(1,2)] call_get_merkle_leaf_hash_out_of_range [OF assms(1)]
  by (cases "unat i < unat sz") (auto simp: word_le_nat_alt)

lemma map_value_hash_Ok:
  assumes "call_get_merkleized_map_value_hash sha256 m k dc = (Ok h, dc')"
    and "digest_size sha256" and "commits sha256 m ks vs"
  shows "(\<exists>i<length ks. ks ! i = k \<and> (h = merkle_compute_element_hash sha256 (vs ! i)
          \<or> inner_node sha256 (set (element_inputs sha256 vs i)) h))
    \<or> (\<exists>xs\<in>{ks, vs}. \<exists>j<length xs. collision sha256 (set (hashed dc')) (set (element_inputs sha256 xs j)))"
proof -
  let ?sz = "ucast (map_size m) :: u32"
  note c = commits_size [OF assms(3)]
  have l: "length ks = length vs" "length vs \<le> 2 ^ 31"
    "values_root m = tree_root sha256 (map (merkle_compute_element_hash sha256) vs)"
    using assms(3) by (simp_all add: commits_def)
  from assms(1) obtain i dc1 where i: "key_index sha256 m k dc = (Ok i, dc1)"
    and run: "call_get_merkle_leaf_hash sha256 (values_root m) ?sz (word_of_nat i) dc1 = (Ok h, dc')"
    by (auto simp: call_get_merkleized_map_value_hash_def elim!: and_thenE)
  have u: "unat (word_of_nat i :: u32) = i"
    using key_index_Ok(2) [OF i assms(2,3)] by (intro unat_of_nat_u32) simp
  have sub: "set (hashed dc1) \<subseteq> set (hashed dc')"
    using leaf_hash_hashed [OF run] c l by simp
  consider "i < length ks" "ks ! i = k" | "ks = [k]" "\<not> i < length ks"
    | j where "j < length ks" "collision sha256 (set (hashed dc1)) (set (element_inputs sha256 ks j))"
    using key_index_Ok(1) [OF i assms(2,3)] by (cases "i < length ks") auto
  then show ?thesis
  proof cases
    case 1
    then show ?thesis
      using leaf_hash_of_element [of sha256 vs ?sz "word_of_nat i" dc1 h dc'] run assms(2) c l u by auto
  next
    case 2
    then have "h = tree_root sha256 (map (merkle_compute_element_hash sha256) vs)"
      using call_get_merkle_leaf_hash_out_of_range [OF run] c u l by (simp add: word_le_nat_alt)
    moreover obtain v where "vs = [v]"
      using 2(1) l(1) by (cases vs) auto
    ultimately show ?thesis
      using 2(1) by simp
  next
    case 3
    then show ?thesis
      using sub collision_mono by blast
  qed
qed

section \<open>Preimages\<close>

lemma next_chunk_Ok:
  assumes "next_chunk e r dc = (Ok n, dc')"
  shows "unat n \<le> unat r \<and> hashed dc' = hashed dc \<and> buffer_ok (read_buffer dc') \<and> unat n \<le> length (buf_rest (read_buffer dc'))"
proof -
  from assms obtain dc1 b1 b2 where 1: "buffer_ok (read_buffer dc1)" "hashed dc1 = hashed dc"
    "buffer_read_u8 (read_buffer dc1) = Some (n, b1)" "buffer_read_u8 b1 = Some (1, b2)"
    "dc' = dc1\<lparr>read_buffer := b2\<rparr>" "buffer_can_read b2 (ucast n)" "ucast n \<le> r"
    unfolding next_chunk_def can_read_def
    by (auto elim!: and_thenE dest!: SET_RESPONSE_keeps process_interruption_keeps)
  have ok1: "buffer_ok b1"
    using 1(1,3) advance_ok(3) [of "read_buffer dc1" 1] by (auto simp: buffer_read_u8_rest split: list.splits)
  then have "buffer_ok b2"
    using 1(4) advance_ok(3) [of b1 1] by (auto simp: buffer_read_u8_rest split: list.splits)
  with 1 show ?thesis
    by (simp add: buffer_can_read_iff word_le_nat_alt)
qed

lemma chunk_loop_inv:
  assumes "chunk_loop e view consume r ctxt s dc = (Ok (ctxt', s'), dc')" and "R r ctxt s"
    and "\<And>n dc r ctxt s x v s'. R r ctxt s \<Longrightarrow> buffer_ok (read_buffer dc) \<Longrightarrow> unat n \<le> length (buf_rest (read_buffer dc)) \<Longrightarrow>
      unat n \<le> unat r \<Longrightarrow> x = take (unat n) (buf_rest (read_buffer dc)) \<Longrightarrow> view n dc = Some v \<Longrightarrow> consume v s = Some s' \<Longrightarrow>
      R (r - ucast n) (ctxt @ x) s'"
  shows "R 0 ctxt' s' \<and> hashed dc' = hashed dc"
  using assms
proof (induction e view consume r ctxt s dc rule: chunk_loop.induct)
  case (1 e view consume r ctxt s dc)
  show ?case
  proof (cases "0 < r")
    case False
    then have "r = 0"
      by (simp add: word_greater_zero_iff)
    then show ?thesis
      using "1.prems"(1,2) by (subst (asm) chunk_loop.simps) simp
  next
    case True
    then obtain n dc1 x v s1 where c: "next_chunk e r dc = (Ok n, dc1)"
      and x: "mem_read (buffer_get_cur (read_buffer dc1)) 0 (ucast n) = Some x"
      and v: "view n dc1 = Some v" "consume v s = Some s1"
      and run: "chunk_loop e view consume (r - ucast n) (ctxt @ x) s1 dc1 = (Ok (ctxt', s'), dc')"
      using "1.prems"(1) by (subst (asm) chunk_loop.simps)
        (auto split: prod.splits reply.splits option.splits if_splits elim!: bind_SomeE)
    note n = next_chunk_Ok [OF c]
    then have x': "x = take (unat n) (buf_rest (read_buffer dc1))"
      using x by (simp add: mem_read_cur)
    have "R (r - ucast n) (ctxt @ x) s1"
      using "1.prems"(3) [OF "1.prems"(2) _ _ _ x' v] n by simp
    then show ?thesis
      using "1.IH" [OF True c [symmetric] refl refl x, of s1] run "1.prems"(3) v n by simp
  qed
qed

text \<open>A callback that reads all of its buffer, and nothing outside of it.\<close>

definition collect :: "buffer_t \<Rightarrow> bytes \<Rightarrow> bytes option" where
  "collect b s = (if buffer_ok b then Some (s @ buf_rest b) else None)"

lemma cur_view:
  fixes n :: u8
  assumes "buffer_ok b" and "unat n \<le> length (buf_rest b)"
  shows "buf_rest (buffer_create p (buffer_get_cur b) (ucast n)) = take (unat n) (buf_rest b)"
  using take_cur [of b "ucast n"] buf_rest_create [of "ucast n" "buffer_get_cur b" p] assms by simp

lemma stream_chunks:
  assumes "chunk_loop e (\<lambda>n dc. Some (buffer_create 0 (buffer_get_cur (read_buffer dc)) (ucast n))) collect r ctxt s dc
      = (Ok (ctxt', s'), dc')" and "ctxt = p # s"
  shows "ctxt' = p # s' \<and> length ctxt' = length ctxt + unat r \<and> hashed dc' = hashed dc"
proof -
  have "(ctxt' = p # s' \<and> length ctxt' + unat (0 :: size_t) = length ctxt + unat r) \<and> hashed dc' = hashed dc"
    by (rule chunk_loop_inv [OF assms(1), where R = "\<lambda>r' c s. c = p # s \<and> length c + unat r' = length ctxt + unat r"])
      (auto simp: assms(2) collect_def cur_view unat_sub word_le_nat_alt split: if_splits)
  then show ?thesis
    by auto
qed

lemma request_preimage_Ok:
  assumes "request_preimage h dc = (Ok u, dc')"
  shows "hashed dc' = hashed dc \<and> buffer_ok (read_buffer dc')
    \<and> (length (apdu_buffer dc) = 260 \<longrightarrow> length (buf_mem (read_buffer dc')) \<le> 255)"
  using assms by (auto simp: request_preimage_def elim!: and_thenE
      dest!: add_to_response_keeps finalize_response_keeps process_interruption_keeps)

lemma preimage_header_Ok:
  assumes "preimage_header dc = (Ok (l, n), dc')" and "buffer_ok (read_buffer dc)"
  shows "hashed dc' = hashed dc \<and> buffer_ok (read_buffer dc') \<and> unat n \<le> length (buf_rest (read_buffer dc'))
    \<and> buf_mem (read_buffer dc') = buf_mem (read_buffer dc)"
proof -
  from assms(1) obtain b1 b2 where b: "buffer_read_varint (read_buffer dc) = Some (l, b1)"
    "buffer_read_u8 b1 = Some (n, b2)" "dc' = dc\<lparr>read_buffer := b2\<rparr>" "buffer_can_read b2 (ucast n)"
    by (auto simp: preimage_header_def can_read_def elim!: and_thenE)
  note b1 = buffer_read_varint_ok [OF b(1) assms(2)]
  note b2 = buffer_read_u8_ok [OF b(2)]
  from b1 b2 b show ?thesis
    by (simp add: buffer_can_read_iff same_array_def)
qed

lemma check_digest_Ok [simp]:
  "check_digest sha256 c h e dc = (Ok u, dc') \<longleftrightarrow> sha256 c = h \<and> dc' = note_hashed c dc"
  by (auto simp: check_digest_def and_then_def require_def)

lemma first_chunk:
  assumes "buffer_ok b" and "unat n \<le> length (buf_rest b)" and "length (buf_mem b) \<le> 255"
    and "collect (buffer_create 0 (drop 1 (buffer_get_cur b)) (ucast (n :: u8) - 1)) [] = Some s"
  shows "\<exists>p. take (unat n) (buf_rest b) = p # s"
proof -
  have n: "n \<noteq> 0"
  proof
    assume "n = 0"
    then have "unat (ucast n - 1 :: u32) = 4294967295"
      by (simp add: unsigned_minus_1_eq_mask mask_eq_exp_minus_1)
    then have "\<not> buffer_ok (buffer_create 0 (drop 1 (buffer_get_cur b)) (ucast n - 1))"
      using assms(3) by (simp add: buffer_ok_def buffer_create_def buffer_get_cur_def)
    with assms(4) show False
      by (simp add: collect_def)
  qed
  then have u: "unat (ucast n - 1 :: u32) = unat n - 1"
    by (simp add: unat_sub word_le_nat_alt Suc_leI unat_gt_0)
  have t: "unat n \<le> length (buffer_get_cur b)" "take (unat n) (buffer_get_cur b) = take (unat n) (buf_rest b)"
    using take_cur [of b "ucast n"] assms(1,2) by simp_all
  have "s = take (unat n - 1) (drop 1 (buffer_get_cur b))"
    using assms(4) buf_rest_create [of "ucast n - 1" "drop 1 (buffer_get_cur b)" 0] u t(1)
    by (auto simp: collect_def split: if_splits)
  then have "s = drop 1 (take (unat n) (buf_rest b))"
    by (simp add: drop_take flip: t(2))
  moreover have "take (unat n) (buf_rest b) \<noteq> []"
    using n assms(2) by (auto simp: unat_eq_zero)
  ultimately show ?thesis
    by (cases "take (unat n) (buf_rest b)") auto
qed

lemma stream_preimage_Ok:
  assumes "call_stream_preimage sha256 h None collect [] dc = (Ok (n, out), dc')"
    and "length (apdu_buffer dc) = 260"
  shows "\<exists>p. sha256 (p # out) = h \<and> p # out \<in> set (hashed dc') \<and> length out = n"
proof -
  from assms(1) obtain dc1 dc2 dc3 and l :: u64 and k s data ctxt where 1: "request_preimage h dc = (Ok (), dc1)"
    and 2: "preimage_header dc1 = (Ok (l, k), dc2)" and k: "ucast k \<le> (ucast l :: u32)"
    and d: "mem_read (buffer_get_cur (read_buffer dc2)) 0 (ucast k) = Some data"
    and c: "collect (buffer_create 0 (drop 1 (buffer_get_cur (read_buffer dc2))) (ucast k - 1)) [] = Some s"
    and loop: "chunk_loop (- 5) (\<lambda>n dc. Some (buffer_create 0 (buffer_get_cur (read_buffer dc)) (ucast n))) collect
      (ucast l - ucast k) data s dc2 = (Ok (ctxt, out), dc3)"
    and h: "sha256 ctxt = h" "dc' = note_hashed ctxt dc3"
    and n: "unat (ucast (ucast (ucast l - 1 :: u32) :: u64) :: u32) = n"
    by (auto simp: call_stream_preimage_def cur_bytes_def Let_def elim!: and_thenE
        split: option.splits prod.splits dest!: as_int_Ok)
  note 1 = request_preimage_Ok [OF 1]
  note 2 = preimage_header_Ok [OF 2 conjunct1 [OF conjunct2 [OF 1]]]
  have data: "data = take (unat k) (buf_rest (read_buffer dc2))"
    using d 2 mem_read_cur [of "read_buffer dc2" "ucast k"] by simp
  obtain p where p: "data = p # s"
    using first_chunk [OF _ _ _ c] 1 2 assms(2) data by auto
  from stream_chunks [OF loop p] have ctxt: "ctxt = p # out"
    "length ctxt = length data + unat (ucast l - ucast k :: u32)"
    by blast+
  have "length data = unat k" "unat (ucast l - ucast k :: u32) = unat (ucast l :: u32) - unat k"
    using data 2 k by (simp_all add: unat_sub word_le_nat_alt)
  then have "length out = unat (ucast l :: u32) - 1" "1 \<le> (ucast l :: u32)"
    using ctxt k p by (auto simp: word_le_nat_alt)
  moreover have "(ucast (ucast (ucast l - 1 :: u32) :: u64) :: u32) = ucast l - 1"
    by (rule bit_word_eqI) (auto simp: bit_simps)
  ultimately have "length out = n"
    using n by (simp add: unat_sub)
  with ctxt h show ?thesis
    by (auto simp: note_hashed_def)
qed

section \<open>Properties\<close>

declare io_add_to_response.simps [code] ceil_lg_loop.simps [code] direction_loop.simps [code]

text \<open>A hash function for the examples, and the device in front of a host that sends \<open>apdus\<close>.\<close>

definition example_hash :: "bytes \<Rightarrow> bytes" where
  "example_hash x = replicate 32 (sum_list x + word_of_nat (length x))"

definition example_device :: "bytes list \<Rightarrow> dispatcher_context_t" where
  "example_device apdus = \<lparr>apdu_buffer = replicate 260 0, output_len = 0, status_word = 0,
     read_buffer = buffer_create 0 [] 0, incoming = apdus, sent = [], hashed = []\<rparr>"

lemma example_hash_size [simp]: "digest_size example_hash"
  by (simp add: digest_size_def example_hash_def)

text \<open>C19: The hash of a leaf that the device accepts from the host is determined by the root: two
  accepted hashes for the same root, size and index are equal, or the shorter of the two proofs
  stops at an inner node of the tree, or two different byte strings that the device hashed have
  the same SHA-256 hash.\<close>

theorem merkle_leaf_binding:
  assumes "call_get_merkle_leaf_hash sha256 root tree_size leaf_index dc1 = (Ok h1, dc1')"
    and "call_get_merkle_leaf_hash sha256 root tree_size leaf_index dc2 = (Ok h2, dc2')"
    and "digest_size sha256" and "unat tree_size \<le> 2 ^ 31"
  shows "h1 = h2 \<or> inner_node sha256 (set (hashed dc2')) h1 \<or> inner_node sha256 (set (hashed dc1')) h2
    \<or> collision sha256 (set (hashed dc1')) (set (hashed dc2'))"
proof (cases "unat leaf_index < unat tree_size")
  case True
  from call_get_merkle_leaf_hash_Ok [OF assms(1,4) True] obtain ss1
    where 1: "leaf_proof sha256 root (path (unat tree_size) (unat leaf_index)) ss1 h1 (hashed dc1')"
    by blast
  from call_get_merkle_leaf_hash_Ok [OF assms(2,4) True] obtain ss2
    where 2: "leaf_proof sha256 root (path (unat tree_size) (unat leaf_index)) ss2 h2 (hashed dc2')"
    by blast
  show ?thesis
    using leaf_proof_binding [OF assms(3) 1 2] leaf_proof_binding [OF assms(3) 2 1] collision_sym
    by (cases "length ss1 \<le> length ss2") (force split: if_splits)+
next
  case False
  then have "tree_size \<le> leaf_index"
    by (simp add: word_le_nat_alt)
  then show ?thesis
    using call_get_merkle_leaf_hash_out_of_range assms(1,2) by metis
qed

text \<open>Two runs on a tree with two leaves: one with the proof of leaf 0, one with an empty proof.\<close>

definition example_root :: bytes where
  "example_root = merkle_combine_hashes example_hash (replicate 32 1) (replicate 32 2)"

definition example_device1 :: dispatcher_context_t where
  "example_device1 = example_device [[0xF8, 0x01, 0, 0, 66] @ replicate 32 1 @ [1, 1] @ replicate 32 2]"

definition example_device2 :: dispatcher_context_t where
  "example_device2 = example_device [[0xF8, 0x01, 0, 0, 34] @ example_root @ [0, 0]]"

lemma fst_eqE: "fst p = x \<Longrightarrow> (\<And>y. p = (x, y) \<Longrightarrow> P) \<Longrightarrow> P"
  by (cases p) simp

theorem merkle_leaf_binding_witness:
  "\<exists>h1 dc1 h2 dc2. call_get_merkle_leaf_hash example_hash example_root 2 0 example_device1 = (Ok h1, dc1)
     \<and> call_get_merkle_leaf_hash example_hash example_root 2 0 example_device2 = (Ok h2, dc2)
     \<and> (h1 = h2 \<or> inner_node example_hash (set (hashed dc2)) h1 \<or> inner_node example_hash (set (hashed dc1)) h2
        \<or> collision example_hash (set (hashed dc1)) (set (hashed dc2)))"
proof -
  have "fst (call_get_merkle_leaf_hash example_hash example_root 2 0 example_device1) = Ok (replicate 32 1)"
    "fst (call_get_merkle_leaf_hash example_hash example_root 2 0 example_device2) = Ok example_root"
    by code_simp+
  then obtain dc1 dc2 where
    r: "call_get_merkle_leaf_hash example_hash example_root 2 0 example_device1 = (Ok (replicate 32 1), dc1)"
      "call_get_merkle_leaf_hash example_hash example_root 2 0 example_device2 = (Ok example_root, dc2)"
    by (elim fst_eqE)
  show ?thesis
    by (intro exI conjI, rule r, rule r, rule merkle_leaf_binding [OF r]) simp_all
qed

text \<open>C20: Looking up a key in a map that the host has committed to: the hash that the device accepts
  is the one of the value of that key, unless the host stopped the proof at an inner node of the
  tree of the values or two different byte strings that were hashed collide.\<close>

theorem map_lookup_sound:
  assumes "call_get_merkleized_map_value_hash sha256 m k dc = (Ok h, dc')"
    and "digest_size sha256" and "commits sha256 m ks vs"
  shows "(\<exists>i<length ks. ks ! i = k \<and> (h = merkle_compute_element_hash sha256 (vs ! i)
          \<or> inner_node sha256 (set (element_inputs sha256 vs i)) h))
    \<or> (\<exists>xs\<in>{ks, vs}. \<exists>j<length xs. collision sha256 (set (hashed dc')) (set (element_inputs sha256 xs j)))"
  using assms by (rule map_value_hash_Ok)

text \<open>A map with one key, and the answers of the host to a lookup.\<close>

definition example_map :: merkleized_map_commitment_t where
  "example_map = \<lparr>map_size = 1, keys_root = merkle_compute_element_hash example_hash [3],
     values_root = merkle_compute_element_hash example_hash [4]\<rparr>"

definition example_device3 :: dispatcher_context_t where
  "example_device3 = example_device [[0xF8, 0x01, 0, 0, 2, 1, 0],
     [0xF8, 0x01, 0, 0, 34] @ keys_root example_map @ [0, 0], [0xF8, 0x01, 0, 0, 34] @ values_root example_map @ [0, 0]]"

theorem map_lookup_sound_witness:
  "\<exists>h dc'. call_get_merkleized_map_value_hash example_hash example_map [3] example_device3 = (Ok h, dc')
     \<and> ((\<exists>i<length [[3 :: u8]]. [[3]] ! i = [3 :: u8] \<and> (h = merkle_compute_element_hash example_hash ([[4]] ! i)
           \<or> inner_node example_hash (set (element_inputs example_hash [[4]] i)) h))
        \<or> (\<exists>xs\<in>{[[3]], [[4]]}. \<exists>j<length xs. collision example_hash (set (hashed dc')) (set (element_inputs example_hash xs j))))"
proof -
  have "fst (call_get_merkleized_map_value_hash example_hash example_map [3] example_device3) = Ok (values_root example_map)"
    by code_simp
  then obtain dc' where r: "call_get_merkleized_map_value_hash example_hash example_map [3] example_device3 = (Ok (values_root example_map), dc')"
    by (rule fst_eqE)
  have c: "commits example_hash example_map [[3]] [[4]]"
    by (simp add: commits_def example_map_def)
  show ?thesis
    by (intro exI conjI, rule r, rule map_lookup_sound [OF r example_hash_size c])
qed

text \<open>C21: The bytes that the commands reading a hashed value pass on to their callback are authentic:
  together with one byte in front of them, the prefix, they hash to the hash asked for.\<close>

theorem stream_preimage_authentic:
  assumes "call_stream_preimage sha256 h None collect [] dc = (Ok (n, out), dc')"
    and "length (apdu_buffer dc) = IO_APDU_BUFFER_SIZE"
  shows "length out = n \<and> (\<exists>prefix. sha256 (prefix # out) = h)"
  using stream_preimage_Ok [OF assms] by blast

theorem stream_preimage_authentic_witness:
  "length [7 :: u8, 8] = 2 \<and> (\<exists>prefix. example_hash (prefix # [7, 8]) = example_hash [0, 7, 8])"
proof -
  let ?dc = "example_device [[0xF8, 0x01, 0, 0, 4] @ [3, 2, 0, 7], [0xF8, 0x01, 0, 0, 3] @ [1, 1, 8]]"
  have "fst (call_stream_preimage example_hash (example_hash [0, 7, 8]) None collect [] ?dc) = Ok (2, [7, 8])"
    by code_simp
  then obtain dc' where "call_stream_preimage example_hash (example_hash [0, 7, 8]) None collect [] ?dc = (Ok (2, [7, 8]), dc')"
    by (rule fst_eqE)
  from stream_preimage_authentic [OF this] show ?thesis
    by (simp add: example_device_def)
qed

end
