(* ===== verification/Client_Runs.thy ===== *)
theory Client_Runs
  imports Client_Proofs
begin

text \<open>
  Runs of the commands of theory \<open>Client\<close> against given hosts.  An honest host can always prove its
  leaves, in any number of responses.  The last sections show what a dishonest host can do:
  stop a proof at an inner node, and replace the preimage of a leaf.
\<close>

section \<open>Running the commands\<close>

definition continue_apdu :: "bytes \<Rightarrow> bytes" where
  "continue_apdu data = [CLA_FRAMEWORK, INS_CONTINUE, 0, 0, word_of_nat (length data)] @ data"

text \<open>The response buffer is in order, and \<open>n\<close> bytes of a response have been written to it.\<close>

definition pending :: "nat \<Rightarrow> dispatcher_context_t \<Rightarrow> bool" where
  "pending n dc \<longleftrightarrow> length (apdu_buffer dc) = IO_APDU_BUFFER_SIZE \<and> unat (output_len dc) = n"

lemma add_to_response_runs:
  assumes "pending n dc" and "n + length rdata \<le> 257"
  obtains dc' where "add_to_response rdata dc = (Ok (), dc')" and "pending (n + length rdata) dc'"
    and "incoming dc' = incoming dc" and "hashed dc' = hashed dc"
proof -
  have n: "unat (output_len dc) = n" "length (apdu_buffer dc) = 260" "n \<le> 257"
    using assms by (simp_all add: pending_def)
  have l: "unat (word_of_nat (length rdata) :: u32) = length rdata"
    using assms(2) by (intro unat_of_nat_u32) simp
  have s: "unat (ucast (output_len dc) + word_of_nat (length rdata) :: u32) = n + length rdata"
    using n(1) l assms(2) by (subst unat_add_lem_le) simp_all
  let ?m = "take n (apdu_buffer dc) @ rdata @ drop (n + length rdata) (apdu_buffer dc)"
  let ?dc = "dc\<lparr>apdu_buffer := ?m, output_len := output_len dc + ucast (word_of_nat (length rdata) :: u32)\<rparr>"
  have o: "unat (output_len dc + ucast (word_of_nat (length rdata) :: u32)) = n + length rdata"
    using n(1) assms(2) l by (subst unat_add_lem_le) (simp_all add: unsigned_ucast_eq take_bit_nat_eq_self unat_of_nat)
  have "io_add_to_response rdata (word_of_nat (length rdata)) dc = Some ?dc"
    using n s l assms(2)
    by (subst io_add_to_response.simps)
      (simp add: word_le_nat_alt word_less_nat_alt mem_read_def mem_write_def)
  then have "add_to_response rdata dc = (Ok (), ?dc)"
    by (simp add: add_to_response_def effect_def)
  moreover have "pending (n + length rdata) ?dc"
    using n assms(2) o by (simp add: pending_def)
  ultimately show thesis
    by (rule that) simp_all
qed

lemma finalize_response_runs:
  assumes "pending n dc" and "n \<le> 257"
  obtains dc' where "finalize_response sw dc = (Ok (), dc')" and "pending (n + 2) dc'"
    and "incoming dc' = incoming dc" and "hashed dc' = hashed dc"
proof -
  have n: "unat (output_len dc) = n" "length (apdu_buffer dc) = 260"
    using assms by (simp_all add: pending_def)
  obtain m where m: "write_u16_be (apdu_buffer dc) (ucast (output_len dc)) sw = Some m" "length m = 260"
    using n assms(2) unat_add_lem_le [of "ucast (output_len dc) :: u32" 1]
    by (auto simp: bytes_defs wr_def)
  have "io_finalize_response sw (dc\<lparr>status_word := sw\<rparr>) =
      Some (dc\<lparr>status_word := sw, apdu_buffer := m, output_len := output_len dc + 2\<rparr>)"
    using n m assms(2) by (simp add: io_finalize_response_def word_le_nat_alt)
  moreover have "unat (output_len dc + 2) = n + 2"
    using n assms(2) by (subst unat_add_lem_le) simp_all
  ultimately show thesis
    using m(2) that [of "dc\<lparr>status_word := sw, apdu_buffer := m, output_len := output_len dc + 2\<rparr>"]
    by (simp add: finalize_response_def effect_def pending_def)
qed

lemma SET_RESPONSE_runs:
  assumes "pending n dc" and "n + length rdata \<le> 257"
  obtains dc' where "SET_RESPONSE rdata sw dc = (Ok (), dc')" and "pending (n + length rdata + 2) dc'"
    and "incoming dc' = incoming dc" and "hashed dc' = hashed dc"
proof -
  obtain dc1 where 1: "add_to_response rdata dc = (Ok (), dc1)" "pending (n + length rdata) dc1"
    "incoming dc1 = incoming dc" "hashed dc1 = hashed dc"
    using assms by (rule add_to_response_runs)
  obtain dc2 where 2: "finalize_response sw dc1 = (Ok (), dc2)" "pending (n + length rdata + 2) dc2"
    "incoming dc2 = incoming dc1" "hashed dc2 = hashed dc1"
    using 1(2) assms(2) by (rule finalize_response_runs)
  from 1 2 show thesis
    by (intro that [of dc2]) (simp_all add: SET_RESPONSE_def and_then_def)
qed

text \<open>The bytes left in the read buffer, and the place of the cursor.\<close>

definition reading :: "bytes \<Rightarrow> nat \<Rightarrow> dispatcher_context_t \<Rightarrow> bool" where
  "reading data off dc \<longleftrightarrow> buffer_ok (read_buffer dc) \<and> buf_rest (read_buffer dc) = data
     \<and> unat (buf_offset (read_buffer dc)) = off"

lemma process_interruption_runs:
  assumes "incoming dc = continue_apdu data # rest" and "length data \<le> 255"
    and "length (apdu_buffer dc) = IO_APDU_BUFFER_SIZE"
  obtains dc' where "process_interruption dc = (Ok (), dc')" and "incoming dc' = rest" and "pending 0 dc'"
    and "hashed dc' = hashed dc" and "reading data 0 dc'" and "take (length data) (drop 5 (apdu_buffer dc')) = data"
proof -
  let ?buf = "continue_apdu data @ drop (length (continue_apdu data)) (apdu_buffer dc)"
  have len: "length (continue_apdu data) = 5 + length data" "take 260 (continue_apdu data) = continue_apdu data"
    using assms(2) by (simp_all add: continue_apdu_def)
  have "unat (word_of_nat (5 + length data) :: u32) = 5 + length data"
    using assms(2) by (intro unat_of_nat_u32) simp
  moreover have "unat (word_of_nat (length data) :: u8) = length data"
    using assms(2) by (simp add: unat_of_nat)
  ultimately have l: "unat (word_of_nat (5 + length data) :: u32) = 5 + length data"
    "unat (word_of_nat (length data) :: u8) = length data"
    by simp_all
  have rd: "rd ?buf 0 = Some CLA_FRAMEWORK" "rd ?buf 1 = Some INS_CONTINUE" "rd ?buf 2 = Some 0"
    "rd ?buf 3 = Some 0" "rd ?buf 4 = Some (word_of_nat (length data))"
    by (simp_all add: rd_def continue_apdu_def)
  have "word_of_nat (5 + length data) - 5 = (ucast (word_of_nat (length data) :: u8) :: u32)"
    using l unat_of_nat_u32 [of "length data"] assms(2) by (simp add: word_unat_eq_iff)
  then obtain cmd where cmd: "apdu_parser ?buf (word_of_nat (5 + length data)) = Some cmd"
    "cmd_cla cmd = CLA_FRAMEWORK" "cmd_ins cmd = INS_CONTINUE"
    using l rd by (simp add: apdu_parser_def word_less_nat_alt)
  obtain dc' where run: "process_interruption dc = (Ok (), dc')"
    using cmd assms(1) len
    by (auto simp: process_interruption_def io_exchange_def and_then_def Let_def)
  show thesis
  proof (rule process_interruption_Ok [OF run])
    fix apdu rest'
    assume a: "incoming dc = apdu # rest'" "incoming dc' = rest'" "hashed dc' = hashed dc"
      "output_len dc' = 0" "buffer_ok (read_buffer dc')" "buf_offset (read_buffer dc') = 0"
      "buf_rest (read_buffer dc') = drop 5 (take 260 apdu)"
      "apdu_buffer dc' = take 260 apdu @ drop (length (take 260 apdu)) (apdu_buffer dc)"
    then have "apdu = continue_apdu data" "rest' = rest"
      using assms(1) by simp_all
    with a assms(3) len show thesis
      by (intro that [OF run]) (simp_all add: pending_def reading_def continue_apdu_def)
  qed
qed

definition move_reader :: "nat \<Rightarrow> dispatcher_context_t \<Rightarrow> dispatcher_context_t" where
  "move_reader n dc = dc\<lparr>read_buffer := advance (read_buffer dc) (word_of_nat n)\<rparr>"

lemma move_reader_simps [simp]:
  "incoming (move_reader n dc) = incoming dc" "hashed (move_reader n dc) = hashed dc"
  "apdu_buffer (move_reader n dc) = apdu_buffer dc" "pending m (move_reader n dc) = pending m dc"
  by (simp_all add: move_reader_def pending_def)

lemma reading_move:
  assumes "reading data off dc" and "n \<le> length data"
  shows "reading (drop n data) (off + n) (move_reader n dc)"
proof -
  have "length data < 4294967296"
    using assms(1) length_buf_rest [of "read_buffer dc"] unat_u32_bound [of "buf_size (read_buffer dc)"]
    by (auto simp: reading_def)
  then have "unat (word_of_nat n :: u32) = n"
    using assms(2) by (intro unat_of_nat_u32) simp
  then show ?thesis
    using assms advance_ok [of "read_buffer dc" "word_of_nat n"] by (simp add: reading_def move_reader_def)
qed

lemma read_u8_runs:
  "reading (x # data) off dc \<Longrightarrow> with_read_buffer buffer_read_u8 dc = (Ok x, move_reader 1 dc)"
  by (simp add: reading_def with_read_buffer_def buffer_read_u8_rest move_reader_def)

lemma can_read_runs:
  "reading data off dc \<Longrightarrow> unat n \<le> length data \<Longrightarrow> can_read n e dc = (Ok (), dc)"
  by (simp add: reading_def can_read_def require_def buffer_can_read_iff)

lemma or_return_Ok: "m dc = (Ok x, dc') \<Longrightarrow> or_return m e dc = (Ok x, dc')"
  by simp

lemma require_runs: "b \<Longrightarrow> require b e dc = (Ok (), dc)"
  by (simp add: require_def)

lemma next_chunk_runs:
  assumes "pending 0 dc" and inc: "incoming dc = continue_apdu (n # 1 # data) # rest"
    and n: "unat n \<le> length data" "unat n \<le> unat r" and data: "length data \<le> 253"
  obtains dc' where "next_chunk e r dc = (Ok n, dc')" and "pending 0 dc'" and "incoming dc' = rest"
    and "hashed dc' = hashed dc" and "reading data 2 dc'"
    and "take (2 + length data) (drop 5 (apdu_buffer dc')) = n # 1 # data"
proof -
  obtain dc1 where 1: "SET_RESPONSE [CCMD_GET_MORE_ELEMENTS] SW_INTERRUPTED_EXECUTION dc = (Ok (), dc1)"
    "pending (0 + length [CCMD_GET_MORE_ELEMENTS] + 2) dc1" "incoming dc1 = incoming dc" "hashed dc1 = hashed dc"
    by (rule SET_RESPONSE_runs [OF assms(1), of "[CCMD_GET_MORE_ELEMENTS]"]) simp_all
  obtain dc2 where 2: "process_interruption dc1 = (Ok (), dc2)" "incoming dc2 = rest" "pending 0 dc2"
    "hashed dc2 = hashed dc1" "reading (n # 1 # data) 0 dc2"
    "take (length (n # 1 # data)) (drop 5 (apdu_buffer dc2)) = n # 1 # data"
    by (rule process_interruption_runs [of dc1 "n # 1 # data" rest])
      (use 1(2,3) inc data in \<open>simp_all add: pending_def\<close>)
  let ?dc3 = "move_reader 1 dc2"
  let ?dc4 = "move_reader 1 ?dc3"
  have 3: "reading (1 # data) 1 ?dc3"
    using reading_move [OF 2(5), of 1] by simp
  have 4: "reading data 2 ?dc4"
    using reading_move [OF 3, of 1] by (simp add: numeral_2_eq_2)
  have u: "unat (ucast n * ucast (1 :: u8) :: u32) = unat n"
    by simp
  have "next_chunk e r dc = (Ok n, ?dc4)"
    using n can_read_runs [OF 4] unfolding next_chunk_def
    by (simp add: and_then_def or_return_def 1(1) 2(1) read_u8_runs [OF 2(5)] read_u8_runs [OF 3]
      require_def value_of_def word_le_nat_alt del: One_nat_def)
  then show thesis
    using 2 4 1(4) by (intro that [of ?dc4]) simp_all
qed

text \<open>The output buffer over the memory \<open>out\<close>, after \<open>ys\<close> has been written to it.\<close>

definition out_buffer :: "bytes \<Rightarrow> bytes \<Rightarrow> buffer_t" where
  "out_buffer out ys = \<lparr>buf_ptr = 0, buf_mem = ys @ drop (length ys) out,
     buf_size = word_of_nat (length out), buf_offset = word_of_nat (length ys)\<rparr>"

lemma out_buffer_create: "buffer_create 0 out (word_of_nat (length out)) = out_buffer out []"
  by (simp add: buffer_create_def out_buffer_def)

lemma out_buffer_write:
  assumes "length ys + length data \<le> length out" and "length out < 2 ^ 32"
  shows "write_out data (out_buffer out ys) = out_buffer out (ys @ data)"
proof -
  let ?b = "out_buffer out ys"
  have u: "unat (word_of_nat (length out) :: u32) = length out" "unat (word_of_nat (length ys) :: u32) = length ys"
    "unat (word_of_nat (length data) :: u32) = length data"
    using assms by (auto intro!: unat_of_nat_u32)
  have s: "unat (word_of_nat (length out) - word_of_nat (length ys) :: u32) = length out - length ys"
    using u assms by (simp add: unat_sub word_le_nat_alt)
  have m: "mem_write (buf_mem ?b) (buf_offset ?b) data = Some (ys @ data @ drop (length ys + length data) out)"
    using u assms by (simp add: mem_write_def out_buffer_def add.commute)
  have o: "unat (word_of_nat (length ys) + word_of_nat (length data) :: u32) = length ys + length data"
    using u assms by (subst unat_add_lem_le) simp_all
  show ?thesis
    using m u s o assms le_diff_conv2 [of "length ys" "length out" "length data"]
    by (simp add: write_out_def buffer_write_bytes_def buffer_can_read_def out_buffer_def advance_def
        buffer_seek_cur_def word_le_nat_alt word_less_nat_alt)
qed

lemma request_preimage_runs:
  assumes "pending 0 dc" and "length h = 32" and "incoming dc = continue_apdu data # rest" and "length data \<le> 255"
  obtains dc' where "request_preimage h dc = (Ok (), dc')" and "incoming dc' = rest" and "pending 0 dc'"
    and "hashed dc' = hashed dc" and "reading data 0 dc'" and "take (length data) (drop 5 (apdu_buffer dc')) = data"
proof -
  obtain dc1 where 1: "add_to_response [CCMD_GET_PREIMAGE] dc = (Ok (), dc1)" "pending (0 + length [CCMD_GET_PREIMAGE]) dc1"
    "incoming dc1 = incoming dc" "hashed dc1 = hashed dc"
    by (rule add_to_response_runs [OF assms(1), of "[CCMD_GET_PREIMAGE]"]) simp_all
  obtain dc2 where 2: "add_to_response [0] dc1 = (Ok (), dc2)" "pending (0 + length [CCMD_GET_PREIMAGE] + length [0::u8]) dc2"
    "incoming dc2 = incoming dc1" "hashed dc2 = hashed dc1"
    by (rule add_to_response_runs [OF 1(2), of "[0]"]) simp_all
  obtain dc3 where 3: "add_to_response h dc2 = (Ok (), dc3)"
    "pending (0 + length [CCMD_GET_PREIMAGE] + length [0::u8] + length h) dc3" "incoming dc3 = incoming dc2" "hashed dc3 = hashed dc2"
    by (rule add_to_response_runs [OF 2(2), of h]) (use assms(2) in simp_all)
  obtain dc4 where 4: "finalize_response SW_INTERRUPTED_EXECUTION dc3 = (Ok (), dc4)" "pending 36 dc4"
    "incoming dc4 = incoming dc3" "hashed dc4 = hashed dc3"
    by (rule finalize_response_runs [OF 3(2), of SW_INTERRUPTED_EXECUTION]) (use assms(2) in simp_all)
  obtain dc5 where 5: "process_interruption dc4 = (Ok (), dc5)" "incoming dc5 = rest" "pending 0 dc5"
    "hashed dc5 = hashed dc4" "reading data 0 dc5" "take (length data) (drop 5 (apdu_buffer dc5)) = data"
    by (rule process_interruption_runs [of dc4 data rest])
      (use 4(2,3) 1(3) 2(3) 3(3) assms(3,4) in \<open>simp_all add: pending_def\<close>)
  show thesis
    by (rule that [of dc5])
      (use 1 2 3 4 5 in \<open>simp_all add: request_preimage_def and_then_def or_return_def\<close>)
qed

lemma varint_read_u16:
  fixes v :: u16
  assumes "buf = 0xFD # ucast v # ucast (drop_bit 8 v) # rest" and "3 \<le> unat l"
  shows "varint_read buf l = Some (3, ucast v)"
  using u16_bytes [of v] assms by (simp add: varint_read_def bytes_defs rd_def word_less_nat_alt)

lemma preimage_header_u16_runs:
  fixes v :: u16
  assumes "reading (0xFD # ucast v # ucast (drop_bit 8 v) # n # data) 0 dc" and "unat n \<le> length data"
  shows "preimage_header dc = (Ok (ucast v, n), move_reader 1 (move_reader 3 dc))"
    and "reading data 4 (move_reader 1 (move_reader 3 dc))"
proof -
  have b: "buffer_ok (read_buffer dc)" "length (buf_rest (read_buffer dc)) < 2 ^ 32"
    using assms(1) length_buf_rest [of "read_buffer dc"] unat_u32_bound [of "buf_size (read_buffer dc)"]
    by (auto simp: reading_def)
  have "unat (word_of_nat (length (buf_rest (read_buffer dc))) :: u32) = length (buf_rest (read_buffer dc))"
    using b(2) by (intro unat_of_nat_u32) simp
  then have "buffer_read_varint (read_buffer dc) = Some (ucast v, advance (read_buffer dc) 3)"
    using b(1) assms(1) varint_read_u16 [of "buf_rest (read_buffer dc)" v "n # data"]
    by (simp add: buffer_read_varint_rest reading_def)
  then have vi: "with_read_buffer buffer_read_varint dc = (Ok (ucast v), move_reader 3 dc)"
    by (simp add: with_read_buffer_def move_reader_def)
  have 1: "reading (n # data) 3 (move_reader 3 dc)"
    using reading_move [OF assms(1), of 3] by simp
  show 2: "reading data 4 (move_reader 1 (move_reader 3 dc))"
    using reading_move [OF 1, of 1] by simp
  show "preimage_header dc = (Ok (ucast v, n), move_reader 1 (move_reader 3 dc))"
    using can_read_runs [OF 2, of "ucast n"] assms(2)
    by (simp add: preimage_header_def and_then_def or_return_def vi read_u8_runs [OF 1] value_of_def
        del: One_nat_def)
qed

section \<open>Proofs of an honest host\<close>

text \<open>The proof is sent from the leaf up, in pieces.\<close>

definition proof_response :: "bytes \<Rightarrow> nat \<Rightarrow> bytes list \<Rightarrow> bytes" where
  "proof_response h p ss = continue_apdu (h @ [word_of_nat p, word_of_nat (length ss)] @ concat ss)"

definition more_response :: "bytes list \<Rightarrow> bytes" where
  "more_response ss = continue_apdu ([word_of_nat (length ss), 32] @ concat ss)"

lemma length_concat_digests: "digests ss \<Longrightarrow> length (concat ss) = 32 * length ss"
  by (induction ss) simp_all

lemma cur_bytes_runs:
  "reading (x @ data) off dc \<Longrightarrow> length x = 32 \<Longrightarrow> cur_bytes 32 dc = (Ok x, dc)"
  using mem_read_cur [of "read_buffer dc" 32] by (simp add: cur_bytes_def reading_def)

lemma reading_hashed [simp]: "reading data off (dc\<lparr>hashed := hs\<rparr>) = reading data off dc"
  by (simp add: reading_def)

lemma proof_steps_runs:
  assumes "unat sz \<le> 2 ^ 31" and "unat idx < unat sz" and ds: "ds = path (unat sz) (unat idx)"
    and p: "unat p = length ds" "length ss = length ds" and "digests bs" and "c + length bs \<le> length ds"
    and "take (length bs) (drop c (rev ss)) = bs" and "reading (concat bs @ data) off dc"
  shows "\<exists>dc' off'. proof_steps sha256 sz idx p (length bs) c (climb sha256 (drop (length ds - c) ds) (drop (length ds - c) ss) h) dc =
      (Ok (climb sha256 (drop (length ds - (c + length bs)) ds) (drop (length ds - (c + length bs)) ss) h), dc')
    \<and> incoming dc' = incoming dc \<and> (pending n dc \<longrightarrow> pending n dc')"
  using assms(6-)
proof (induction bs arbitrary: c off dc)
  case Nil
  then show ?case
    by (simp add: value_of_def)
next
  case (Cons b bs)
  let ?i = "length ds - c - 1"
  have c: "c < length ds"
    using Cons.prems(2) by simp
  have b: "ss ! ?i = b"
  proof -
    have "rev ss ! c = b"
      using Cons.prems(3) c p by (cases "drop c (rev ss)") (auto simp: nth_via_drop)
    then show ?thesis
      using c p by (simp add: rev_nth)
  qed
  let ?cur = "climb sha256 (drop (length ds - c) ds) (drop (length ds - c) ss) h"
  have step: "climb sha256 (drop (length ds - Suc c) ds) (drop (length ds - Suc c) ss) h = sha256 (node_input (ds ! ?i) b ?cur)"
  proof -
    have "drop (length ds - Suc c) ds = ds ! ?i # drop (length ds - c) ds" "drop (length ds - Suc c) ss = b # drop (length ds - c) ss"
      using c p b Cons_nth_drop_Suc [of "length ds - Suc c" ds] Cons_nth_drop_Suc [of "length ds - Suc c" ss] by (simp_all add: Suc_diff_Suc)
    then show ?thesis
      by simp
  qed
  have dir: "merkle_get_ith_direction sz idx (ucast p - word_of_nat c - 1) = Some (if ds ! ?i then 1 else 0)"
    using merkle_get_ith_direction [OF assms(1,2)] unat_direction_index [of c p] c p by (simp add: direction_of_def ds)
  let ?dc1 = "move_reader 32 (note_hashed (node_input (ds ! ?i) b ?cur) dc)"
  have r1: "reading (concat bs @ data) (off + 32) ?dc1"
    using reading_move [of "b @ concat bs @ data" off "note_hashed (node_input (ds ! ?i) b ?cur) dc" 32] Cons.prems(1,4)
    by (simp add: note_hashed_def)
  have t: "take (length bs) (drop (Suc c) (rev ss)) = bs"
  proof -
    have "drop (Suc c) (rev ss) = tl (drop c (rev ss))"
      by (simp add: drop_Suc tl_drop)
    then show ?thesis
      using Cons.prems(3) by (cases "drop c (rev ss)") auto
  qed
  from Cons.IH [OF _ _ t r1] Cons.prems(1,2) obtain dc' where
    run: "proof_steps sha256 sz idx p (length bs) (Suc c) (sha256 (node_input (ds ! ?i) b ?cur)) ?dc1 =
      (Ok (climb sha256 (drop (length ds - (Suc c + length bs)) ds) (drop (length ds - (Suc c + length bs)) ss) h), dc')"
    and dc': "incoming dc' = incoming ?dc1" "pending n ?dc1 \<longrightarrow> pending n dc'"
    by (auto simp: step)
  have "cur_bytes 32 dc = (Ok b, dc)"
    using Cons.prems(1,4) by (intro cur_bytes_runs [of b "concat bs @ data" off]) simp_all
  then show ?case
    using run dir dc'
    by (auto simp: and_then_def require_def combine_hashes_def merkle_combine_hashes_def node_input_def
        note_hashed_def move_reader_def pending_def)
qed

lemma more_proof_elements_runs:
  assumes "pending 0 dc" and "incoming dc = more_response bs # rest" and "digests bs" and "length bs \<le> 7"
    and "c + length bs \<le> unat p"
  obtains dc' where "more_proof_elements p c dc = (Ok (word_of_nat (length bs)), dc')" and "pending 0 dc'"
    and "incoming dc' = rest" and "reading (concat bs) 2 dc'"
proof -
  let ?data = "[word_of_nat (length bs), 32] @ concat bs"
  have n: "unat (word_of_nat (length bs) :: u8) = length bs"
    using assms(4) by (simp add: unat_of_nat)
  obtain dc1 where 1: "SET_RESPONSE [CCMD_GET_MORE_ELEMENTS] SW_INTERRUPTED_EXECUTION dc = (Ok (), dc1)"
    "pending (0 + length [CCMD_GET_MORE_ELEMENTS] + 2) dc1" "incoming dc1 = incoming dc"
    by (rule SET_RESPONSE_runs [OF assms(1), of "[CCMD_GET_MORE_ELEMENTS]"]) simp_all
  obtain dc2 where 2: "process_interruption dc1 = (Ok (), dc2)" "incoming dc2 = rest" "pending 0 dc2" "reading ?data 0 dc2"
    by (rule process_interruption_runs [of dc1 ?data rest])
      (use 1(2,3) assms(2-4) in \<open>simp_all add: pending_def more_response_def length_concat_digests\<close>)
  let ?dc3 = "move_reader 1 dc2"
  let ?dc4 = "move_reader 1 ?dc3"
  have 3: "reading (32 # concat bs) 1 ?dc3"
    using reading_move [OF 2(4), of 1] by simp
  have 4: "reading (concat bs) 2 ?dc4"
    using reading_move [OF 3, of 1] by (simp add: numeral_2_eq_2)
  have "unat (ucast (word_of_nat (length bs) :: u8) * ucast (32 :: u8) :: u32) \<le> length (concat bs)"
    using n assms(3,4) by (simp add: unat_word_ariths length_concat_digests)
  note can_read_runs [OF 4 this]
  then have "more_proof_elements p c dc = (Ok (word_of_nat (length bs)), ?dc4)"
    using assms(5) n unfolding more_proof_elements_def
    by (simp add: and_then_def or_return_def 1(1) 2(1) read_u8_runs [OF 2(4) [simplified]] read_u8_runs [OF 3]
      require_def value_of_def del: One_nat_def)
  then show thesis
    using 2 4 by (intro that [of ?dc4]) simp_all
qed

lemma proof_loop_runs:
  assumes "unat sz \<le> 2 ^ 31" and "unat idx < unat sz" and ds: "ds = path (unat sz) (unat idx)"
    and p: "unat p = length ds" "length ss = length ds"
    and "drop c (rev ss) = bs @ concat bss" and "list_all digests (bs # bss)"
    and "list_all (\<lambda>bs. length bs \<le> 7) (bs # bss)" and "c \<le> length ds"
    and "reading (concat bs) off dc" and "pending 0 dc" and "incoming dc = map more_response bss"
  shows "\<exists>dc'. proof_loop sha256 sz idx p (word_of_nat (length bs)) c
      (climb sha256 (drop (length ds - c) ds) (drop (length ds - c) ss) h) dc = (Ok (climb sha256 ds ss h), dc')"
  using assms(6-)
proof (induction bss arbitrary: bs c off dc)
  case (Nil bs c off dc)
  note prems = Nil.prems
  have l: "c + length bs = length ds"
    using arg_cong [OF prems(1), of length] p prems(4) by simp
  have n: "unat (word_of_nat (length bs) :: u8) = length bs"
    using prems(3) by (simp add: unat_of_nat)
  obtain dc1 where "proof_steps sha256 sz idx p (length bs) c (climb sha256 (drop (length ds - c) ds) (drop (length ds - c) ss) h) dc =
      (Ok (climb sha256 ds ss h), dc1)"
    using proof_steps_runs [OF assms(1,2) ds p, of bs c "[]" off dc sha256 h 0] prems l by auto
  then show ?case
    using n l p by (subst proof_loop.simps) simp
next
  case (Cons b bss bs c off dc)
  note prems = Cons.prems
  have l: "c + length bs + length b + length (concat bss) = length ds"
    using arg_cong [OF prems(1), of length] p prems(4) by simp
  have n: "unat (word_of_nat (length bs) :: u8) = length bs"
    using prems(3) by (simp add: unat_of_nat)
  let ?cur = "climb sha256 (drop (length ds - (c + length bs)) ds) (drop (length ds - (c + length bs)) ss) h"
  obtain dc1 where 1: "proof_steps sha256 sz idx p (length bs) c (climb sha256 (drop (length ds - c) ds) (drop (length ds - c) ss) h) dc =
      (Ok ?cur, dc1)" "incoming dc1 = incoming dc" "pending 0 dc1"
    using proof_steps_runs [OF assms(1,2) ds p, of bs c "[]" off dc sha256 h 0] prems l by auto
  show ?case
  proof (cases "c + length bs = length ds")
    case True
    then show ?thesis
      using n 1 p by (subst proof_loop.simps) simp
  next
    case False
    obtain dc2 where 2: "more_proof_elements p (c + length bs) dc1 = (Ok (word_of_nat (length b)), dc2)" "pending 0 dc2"
      "incoming dc2 = map more_response bss" "reading (concat b) 2 dc2"
      by (rule more_proof_elements_runs [of dc1 b "map more_response bss" "c + length bs" p])
        (use 1 prems l p in simp_all)
    have "drop (c + length bs) (rev ss) = drop (length bs) (drop c (rev ss))"
      by (simp add: add.commute)
    also have "\<dots> = b @ concat bss"
      using prems(1) by simp
    finally obtain dc' where "proof_loop sha256 sz idx p (word_of_nat (length b)) (c + length bs) ?cur dc2 = (Ok (climb sha256 ds ss h), dc')"
      using Cons.IH [of "c + length bs" b 2 dc2] 2 prems l by auto
    then show ?thesis
      using n 1 2 p False by (subst proof_loop.simps) simp
  qed
qed

lemma length_varint_bytes: "length (varint_bytes v) \<le> 9"
  by (auto simp: varint_bytes_def varint_write_def bytes_defs Let_def split: option.splits if_splits
      elim!: bind_SomeE dest!: length_wr)

lemma read_bytes_runs:
  assumes "reading (x @ data) off dc" and "length x = 32"
  shows "with_read_buffer (\<lambda>b. buffer_read_bytes b 32) dc = (Ok x, move_reader 32 dc)"
  using assms by (simp add: reading_def with_read_buffer_def buffer_read_bytes_rest move_reader_def)

text \<open>The request, and the header of the response.\<close>

lemma leaf_proof_header_runs:
  assumes "pending 0 dc" and "length root = 32" and "incoming dc = continue_apdu (h @ [p, n] @ data) # rest"
    and "length h = 32" and "n \<le> p" and "32 * unat n \<le> length data" and "length data \<le> 221"
  obtains dc' where "call_get_merkle_leaf_hash sha256 root sz idx dc =
      and_then (proof_loop sha256 sz idx p n 0 h) (\<lambda>computed. and_then (require (root = computed) (- 1)) (\<lambda>_. value_of h)) dc'"
    and "reading data 34 dc'" and "pending 0 dc'" and "incoming dc' = rest"
proof -
  let ?v1 = "varint_bytes (ucast sz)" and ?v2 = "varint_bytes (ucast idx)"
  note v = length_varint_bytes [of "ucast sz"] length_varint_bytes [of "ucast idx"]
  obtain dc1 where 1: "add_to_response [CCMD_GET_MERKLE_LEAF_PROOF] dc = (Ok (), dc1)"
    "pending (0 + length [CCMD_GET_MERKLE_LEAF_PROOF]) dc1" "incoming dc1 = incoming dc"
    by (rule add_to_response_runs [OF assms(1), of "[CCMD_GET_MERKLE_LEAF_PROOF]"]) simp_all
  obtain dc2 where 2: "add_to_response root dc1 = (Ok (), dc2)"
    "pending (0 + length [CCMD_GET_MERKLE_LEAF_PROOF] + length root) dc2" "incoming dc2 = incoming dc1"
    by (rule add_to_response_runs [OF 1(2), of root]) (use assms(2) in simp_all)
  obtain dc3 where 3: "add_to_response ?v1 dc2 = (Ok (), dc3)"
    "pending (0 + length [CCMD_GET_MERKLE_LEAF_PROOF] + length root + length ?v1) dc3" "incoming dc3 = incoming dc2"
    by (rule add_to_response_runs [OF 2(2), of ?v1]) (use assms(2) v in simp_all)
  obtain dc4 where 4: "add_to_response ?v2 dc3 = (Ok (), dc4)"
    "pending (0 + length [CCMD_GET_MERKLE_LEAF_PROOF] + length root + length ?v1 + length ?v2) dc4" "incoming dc4 = incoming dc3"
    by (rule add_to_response_runs [OF 3(2), of ?v2]) (use assms(2) v in simp_all)
  obtain dc5 where 5: "finalize_response SW_INTERRUPTED_EXECUTION dc4 = (Ok (), dc5)" "incoming dc5 = incoming dc4"
    "length (apdu_buffer dc5) = 260"
    by (rule finalize_response_runs [OF 4(2), of SW_INTERRUPTED_EXECUTION]) (use assms(2) v in \<open>simp_all add: pending_def\<close>)
  obtain dc6 where 6: "process_interruption dc5 = (Ok (), dc6)" "incoming dc6 = rest" "pending 0 dc6"
    "reading (h @ [p, n] @ data) 0 dc6"
    by (rule process_interruption_runs [of dc5 "h @ [p, n] @ data" rest])
      (use 5(2,3) 4(3) 3(3) 2(3) 1(3) assms(3,4,7) in simp_all)
  let ?dc7 = "move_reader 32 dc6" let ?dc8 = "move_reader 1 ?dc7" let ?dc9 = "move_reader 1 ?dc8"
  have 7: "reading (p # n # data) 32 ?dc7"
    using reading_move [OF 6(4), of 32] assms(4) by simp
  have 8: "reading (n # data) 33 ?dc8"
    using reading_move [OF 7, of 1] by simp
  have 9: "reading data 34 ?dc9"
    using reading_move [OF 8, of 1] by simp
  have "unat (32 * ucast n :: u32) \<le> length data"
    using assms(6) unat_u8_bound [of n] by (simp add: unat_word_ariths)
  note can_read_runs [OF 9 this]
  then have "call_get_merkle_leaf_hash sha256 root sz idx dc =
      and_then (proof_loop sha256 sz idx p n 0 h) (\<lambda>computed. and_then (require (root = computed) (- 1)) (\<lambda>_. value_of h)) ?dc9"
    using assms(5) unfolding call_get_merkle_leaf_hash_def
    by (simp add: and_then_def or_return_def 1(1) 2(1) 3(1) 4(1) 5(1) 6(1) read_bytes_runs [OF 6(4) assms(4)]
        read_u8_runs [OF 7] read_u8_runs [OF 8] require_def del: One_nat_def)
  then show thesis
    using 9 6 by (intro that [of ?dc9]) simp_all
qed

lemma honest_leaf_runs:
  assumes "digest_size sha256" and "digests hs" and "i < length hs" and "length hs \<le> 2 ^ 31"
    and "concat (bs # bss) = rev (siblings sha256 hs i)" and "length bs \<le> 6" and "list_all (\<lambda>bs. length bs \<le> 7) bss"
    and "pending 0 dc"
    and "incoming dc = proof_response (hs ! i) (length (siblings sha256 hs i)) bs # map more_response bss"
  shows "fst (call_get_merkle_leaf_hash sha256 (tree_root sha256 hs) (word_of_nat (length hs)) (word_of_nat i) dc) = Ok (hs ! i)"
proof -
  let ?ss = "siblings sha256 hs i" and ?ds = "path (length hs) i"
  have u: "unat (word_of_nat (length hs) :: u32) = length hs" "unat (word_of_nat i :: u32) = i"
    using assms(3,4) by (auto intro!: unat_of_nat_u32)
  have ls: "length ?ss = length ?ds" "length ?ds \<le> 31"
    using assms(3,4) length_siblings [of i hs sha256] path_length [of "length hs" 31 i] by simp_all
  then have p: "unat (word_of_nat (length ?ss) :: u8) = length ?ds" "unat (word_of_nat (length bs) :: u8) = length bs"
    using assms(6) by (simp_all add: unat_of_nat)
  have dig: "digests (concat (bs # bss))"
    unfolding assms(5) using digests_siblings [OF assms(1,2), of i] by simp
  then have digs: "list_all digests (bs # bss)"
    by (auto simp: digests_def list_all_iff)
  have len: "length bs \<le> length ?ss"
    using arg_cong [OF assms(5), of length] by simp
  have h: "length (hs ! i) = 32"
    using assms(2,3) by (simp add: digests_def list_all_length)
  obtain dc1 where 1: "call_get_merkle_leaf_hash sha256 (tree_root sha256 hs) (word_of_nat (length hs)) (word_of_nat i) dc =
      and_then (proof_loop sha256 (word_of_nat (length hs)) (word_of_nat i) (word_of_nat (length ?ss)) (word_of_nat (length bs)) 0 (hs ! i))
        (\<lambda>computed. and_then (require (tree_root sha256 hs = computed) (- 1)) (\<lambda>_. value_of (hs ! i))) dc1"
    "reading (concat bs) 34 dc1" "pending 0 dc1" "incoming dc1 = map more_response bss"
    by (rule leaf_proof_header_runs [OF assms(8), of "tree_root sha256 hs" "hs ! i" "word_of_nat (length ?ss)" "word_of_nat (length bs)"
          "concat bs" "map more_response bss" sha256 "word_of_nat (length hs)" "word_of_nat i"])
      (use assms(1,2,6,9) digs h p len ls in \<open>simp_all add: proof_response_def word_le_nat_alt length_concat_digests\<close>)
  obtain dc' where "proof_loop sha256 (word_of_nat (length hs)) (word_of_nat i) (word_of_nat (length ?ss)) (word_of_nat (length bs)) 0
      (hs ! i) dc1 = (Ok (climb sha256 ?ds ?ss (hs ! i)), dc')"
    using proof_loop_runs [of "word_of_nat (length hs)" "word_of_nat i" ?ds "word_of_nat (length ?ss)" ?ss 0 bs bss 34 dc1 sha256 "hs ! i"]
      u p(1) ls assms(3-7) digs 1 by (auto simp: list_all_iff)
  then show ?thesis
    unfolding 1(1) using climb_siblings [OF assms(3)] by (simp add: and_then_def require_def value_of_def)
qed

section \<open>Forging the preimage of a leaf\<close>

text \<open>A response with one byte of the preimage, \<open>x\<close>, and the byte \<open>y\<close> two places behind.\<close>

definition forged_chunk :: "u8 \<times> u8 \<Rightarrow> bytes" where
  "forged_chunk xy = continue_apdu [1, 1, fst xy, 0, snd xy]"

lemma forged_chunk_loop:
  assumes "length xs = length ys" and "pending 0 dc"
    and "incoming dc = map forged_chunk (zip xs ys) @ rest"
    and "length zs + length ys \<le> length out" and "length out < 2 ^ 32"
  shows "\<exists>dc'. chunk_loop (- 6) (\<lambda>n dc. mem_read (apdu_buffer dc) 9 (ucast n)) (\<lambda>x b. Some (write_out x b))
      (word_of_nat (length xs)) ctxt (out_buffer out zs) dc = (Ok (ctxt @ xs, out_buffer out (zs @ ys)), dc')"
  using assms
proof (induction xs ys arbitrary: ctxt zs dc rule: list_induct2)
  case Nil
  then show ?case
    by (simp add: chunk_loop.simps)
next
  case (Cons x xs y ys)
  have l: "unat (word_of_nat (length (x # xs)) :: u32) = length (x # xs)"
    using Cons.hyps Cons.prems by (intro unat_of_nat_u32) simp
  have one: "unat (1 :: u8) \<le> unat (word_of_nat (length (x # xs)) :: u32)"
    unfolding l by simp
  obtain dc1 where 1: "next_chunk (- 6) (word_of_nat (length (x # xs))) dc = (Ok 1, dc1)" "pending 0 dc1"
    "incoming dc1 = map forged_chunk (zip xs ys) @ rest" "reading [x, 0, y] 2 dc1"
    "take (2 + length [x, 0, y]) (drop 5 (apdu_buffer dc1)) = 1 # 1 # [x, 0, y]"
    by (rule next_chunk_runs [OF Cons.prems(1), of 1 "[x, 0, y]" "map forged_chunk (zip xs ys) @ rest", OF _ _ one])
      (simp_all add: Cons.prems(2) forged_chunk_def)
  have cur: "mem_read (buffer_get_cur (read_buffer dc1)) 0 1 = Some [x]"
    using 1(4) mem_read_cur [of "read_buffer dc1" 1] by (simp add: reading_def)
  have "take 5 (drop 5 (apdu_buffer dc1)) ! 4 = y"
    using 1(5) by simp
  then have stale: "mem_read (apdu_buffer dc1) 9 1 = Some [y]"
    using 1(2) by (simp add: mem_read_def pending_def take_Suc_conv_app_nth take_Suc hd_drop_conv_nth)
  have "word_of_nat (length (x # xs)) - 1 = (word_of_nat (length xs) :: u32)"
    by simp
  moreover have "0 < (word_of_nat (length (x # xs)) :: u32)"
    using l by (simp add: word_less_nat_alt)
  moreover have "write_out [y] (out_buffer out zs) = out_buffer out (zs @ [y])"
    using Cons.prems by (intro out_buffer_write) simp_all
  moreover note Cons.IH [OF 1(2,3), of "zs @ [y]" "ctxt @ [x]"] Cons.prems
  ultimately show ?case
    using 1(1) cur stale by (subst chunk_loop.simps) simp
qed

definition forged_header :: "u16 \<Rightarrow> bytes" where
  "forged_header v = continue_apdu [0xFD, ucast v, ucast (drop_bit 8 v), 1, 0]"

lemma as_int_runs:
  assumes "unat v = n" and "n < 2 ^ 31"
  shows "as_int v dc = (Ok n, dc)"
proof -
  have "unat (ucast v :: u32) = n"
    using assms by (simp add: unsigned_ucast_eq take_bit_nat_eq_self)
  then have "uint (ucast v :: u32) = int n"
    by (metis uint_nat)
  then have "sint (ucast v :: u32) = int n"
    using assms(2) by (simp add: sint_uint signed_take_bit_int_eq_self)
  then show ?thesis
    by (simp add: as_int_def value_of_def)
qed

lemma forged_preimage_runs:
  fixes v :: u16
  assumes "length ys = length xs" and "unat v = Suc (length xs)" and "length xs \<le> length out" and "length out < 2 ^ 31"
    and "length h = 32" and "pending 0 dc" and "sha256 (0x00 # xs) = h"
    and "incoming dc = forged_header v # map forged_chunk (zip xs ys)"
  shows "fst (call_get_merkle_preimage sha256 h out dc) = Ok (length xs, ys @ drop (length ys) out)"
proof -
  obtain dc1 where 1: "request_preimage h dc = (Ok (), dc1)" "incoming dc1 = map forged_chunk (zip xs ys)"
    "pending 0 dc1" "reading [0xFD, ucast v, ucast (drop_bit 8 v), 1, 0] 0 dc1"
    by (rule request_preimage_runs [OF assms(6,5), of "[0xFD, ucast v, ucast (drop_bit 8 v), 1, 0]"
          "map forged_chunk (zip xs ys)"])
      (use assms(8) in \<open>simp_all add: forged_header_def\<close>)
  let ?dc2 = "move_reader 1 (move_reader 3 dc1)"
  have 2: "preimage_header dc1 = (Ok (ucast v, 1), ?dc2)" "reading [0] 4 ?dc2"
    using preimage_header_u16_runs [OF 1(4)] by simp_all
  have u: "unat (ucast v :: u64) = Suc (length xs)"
    using assms(2) by simp
  then have u1: "unat (ucast v - 1 :: u64) = length xs"
    by (simp add: unat_sub word_le_nat_alt)
  have lo: "unat (word_of_nat (length out) :: u64) = length out"
    using assms(4) by (simp add: unat_of_nat)
  have g: "(ucast v :: u64) \<noteq> 0" "(ucast v - 1 :: u64) \<le> word_of_nat (length out)" "(1 :: u64) \<le> ucast v"
    using u u1 lo assms(3) by (simp_all add: word_le_nat_alt word_unat_eq_iff)
  have "unat (ucast v - 1 :: u32) = length xs"
    using assms(2) by (simp add: unat_sub word_le_nat_alt)
  then have "ucast v - 1 = (word_of_nat (length xs) :: u32)"
    by (simp flip: \<open>unat (ucast v - 1 :: u32) = length xs\<close>)
  moreover have "ucast (ucast v :: u64) = (ucast v :: u32)"
    by (rule bit_word_eqI) (auto simp: bit_simps)
  ultimately have r: "ucast (ucast v :: u64) - 1 = (word_of_nat (length xs) :: u32)"
    by simp
  have ptr: "5 + buf_offset (read_buffer ?dc2) = 9"
    using 2(2) by (simp add: reading_def word_unat_eq_iff unat_word_ariths)
  have cur: "cur_bytes 1 ?dc2 = (Ok [0], ?dc2)"
    using 2(2) mem_read_cur [of "read_buffer ?dc2" 1] by (simp add: cur_bytes_def reading_def)
  obtain dc3 where 3: "chunk_loop (- 6) (\<lambda>n dc. mem_read (apdu_buffer dc) 9 (ucast n)) (\<lambda>x b. Some (write_out x b))
      (word_of_nat (length xs)) [0] (out_buffer out []) ?dc2 = (Ok (0 # xs, out_buffer out ys), dc3)"
    using forged_chunk_loop [of xs ys ?dc2 "[]" "[]" out "[0]"] 1(2,3) assms(1,3,4) by auto
  have w: "write_out [] (out_buffer out []) = out_buffer out []"
    using out_buffer_write [of "[]" "[]" out] assms(4) by simp
  show ?thesis
    using 1(1) 2(1) g r ptr cur 3 w assms(7) as_int_runs [OF u1] assms(3,4)
    by (simp add: call_get_merkle_preimage_def and_then_def require_def value_of_def check_digest_def
        out_buffer_create del: One_nat_def) (simp add: out_buffer_def)
qed

section \<open>Properties\<close>

lemma example_device_simps [simp]:
  "pending 0 (example_device apdus)" "incoming (example_device apdus) = apdus"
  "example_device apdus\<lparr>incoming := apdus'\<rparr> = example_device apdus'"
  by (simp_all add: example_device_def pending_def)

text \<open>C22: An honest host is always believed: for every list of hashes and every index, the hash at
  that index is accepted, in whatever pieces the host sends the proof, as long as each fits into
  a response.\<close>

theorem honest_leaf_accepted:
  assumes "digest_size sha256" and "digests hs" and "i < length hs" and "length hs \<le> 2 ^ 31"
    and "concat (bs # bss) = rev (siblings sha256 hs i)" and "length bs \<le> 6" and "list_all (\<lambda>bs. length bs \<le> 7) bss"
    and "pending 0 dc"
    and "incoming dc = proof_response (hs ! i) (length (siblings sha256 hs i)) bs # map more_response bss"
  shows "fst (call_get_merkle_leaf_hash sha256 (tree_root sha256 hs) (word_of_nat (length hs)) (word_of_nat i) dc) = Ok (hs ! i)"
  using assms by (rule honest_leaf_runs)

lemma two_leaves: "siblings sha256 [a, b] 0 = [b]" "tree_root sha256 [a, b] = merkle_combine_hashes sha256 a b"
  by (simp_all add: siblings.simps [of sha256 "[a, b]"] siblings.simps [of sha256 "[a]"] tree_root_split
      half.simps [of 2] half.simps [of "Suc (Suc 0)"])

theorem honest_leaf_accepted_witness:
  "fst (call_get_merkle_leaf_hash example_hash example_root 2 0
     (example_device [proof_response (replicate 32 1) 1 [], more_response [replicate 32 2]])) = Ok (replicate 32 1)"
proof -
  let ?hs = "[replicate 32 1, replicate 32 2] :: bytes list"
  have s: "siblings example_hash ?hs 0 = [replicate 32 2]" "tree_root example_hash ?hs = example_root"
    by (simp_all add: two_leaves example_root_def)
  show ?thesis
    using honest_leaf_accepted [of example_hash ?hs 0 "[]" "[[replicate 32 2]]"
        "example_device [proof_response (replicate 32 1) 1 [], more_response [replicate 32 2]]"] s
    by simp
qed

text \<open>C25: The length of a proof is not checked: for every tree and every index, the host can have the
  hash of the root itself accepted as the hash of the leaf, with an empty proof.\<close>

theorem merkle_root_accepted_as_leaf:
  assumes "length root = 32" and "pending 0 dc" and "incoming dc = [continue_apdu (root @ [0, 0])]"
  shows "fst (call_get_merkle_leaf_hash sha256 root tree_size leaf_index dc) = Ok root"
proof -
  obtain dc1 where "call_get_merkle_leaf_hash sha256 root tree_size leaf_index dc =
      and_then (proof_loop sha256 tree_size leaf_index 0 0 0 root)
        (\<lambda>computed. and_then (require (root = computed) (- 1)) (\<lambda>_. value_of root)) dc1"
    by (rule leaf_proof_header_runs [OF assms(2,1), of root 0 0 "[]" "[]" sha256 tree_size leaf_index])
      (use assms in simp_all)
  moreover have "proof_loop sha256 tree_size leaf_index 0 0 0 root dc1 = (Ok root, dc1)"
    by (subst proof_loop.simps) (simp add: value_of_def)
  ultimately show ?thesis
    by (simp add: value_of_def and_then_def require_def)
qed

theorem merkle_root_accepted_as_leaf_witness:
  "fst (call_get_merkle_leaf_hash example_hash example_root 2 1 (example_device [continue_apdu (example_root @ [0, 0])])) =
     Ok example_root"
proof -
  have "length example_root = 32"
    by (simp add: example_root_def merkle_combine_hashes_def)
  then show ?thesis
    by (rule merkle_root_accepted_as_leaf) simp_all
qed

text \<open>C24: The contents of a leaf are not authenticated: whatever the leaf \<open>xs\<close> is, a host that knows
  it can have \<open>call_get_merkle_preimage\<close> answer any \<open>ys\<close> of the same length instead.  The hash
  is computed over the bytes received, but from the second response on the bytes written to the
  output are those at the place where the data of the first response was.\<close>

theorem merkle_preimage_forgery:
  assumes "length ys = length xs" and "length xs < 65535" and "length xs \<le> length out" and "length out < 2 ^ 31"
    and "digest_size sha256" and "pending 0 dc"
  shows "\<exists>apdus. fst (call_get_merkle_preimage sha256 (merkle_compute_element_hash sha256 xs) out (dc\<lparr>incoming := apdus\<rparr>)) =
    Ok (length xs, ys @ drop (length ys) out)"
proof
  let ?v = "word_of_nat (Suc (length xs)) :: u16"
  have "unat ?v = Suc (length xs)"
    using assms(2) by (simp add: unat_of_nat del: of_nat_Suc)
  then show "fst (call_get_merkle_preimage sha256 (merkle_compute_element_hash sha256 xs) out
      (dc\<lparr>incoming := forged_header ?v # map forged_chunk (zip xs ys)\<rparr>)) = Ok (length xs, ys @ drop (length ys) out)"
    using assms by (intro forged_preimage_runs) (simp_all add: merkle_compute_element_hash_def pending_def)
qed

theorem merkle_preimage_forgery_witness:
  "\<exists>apdus. fst (call_get_merkle_preimage example_hash (merkle_compute_element_hash example_hash [1, 2]) [0, 0, 0]
      (example_device apdus)) = Ok (length [1, 2 :: u8], [8, 9, 0])"
  using merkle_preimage_forgery [of "[8, 9]" "[1, 2]" "[0, 0, 0]" example_hash "example_device []"]
  by simp

end
