(* ===== verification/Musig.thy ===== *)
theory Musig
  imports Crypto
begin

text \<open>
  MuSig2 aggregation and signing, \<^verbatim>\<open>src/src/musig/musig.c\<close> (BIP-327).  A \<open>point_t\<close> is its array \<open>raw\<close> of 65
  bytes: a prefix, which is 0 for the point at infinity, and the two coordinates.  \<open>None\<close> is the
  refusal of a function and the failure of an assertion.
\<close>

section \<open>Points\<close>

definition point_x :: "bytes \<Rightarrow> bytes" where "point_x P = take 32 (drop 1 P)"
definition point_y :: "bytes \<Rightarrow> bytes" where "point_y P = take 32 (drop 33 P)"

definition is_point_infinite :: "bytes \<Rightarrow> bool" where
  "is_point_infinite P \<longleftrightarrow> P ! 0 = 0"

definition set_point_infinite :: bytes where
  "set_point_infinite = replicate 65 0"

definition point_add :: "platform \<Rightarrow> bytes \<Rightarrow> bytes \<Rightarrow> bytes option" where
  "point_add cx P1 P2 =
     (if is_point_infinite P1 then Some P2
      else if is_point_infinite P2 then Some P1
      else if point_x P1 = point_x P2 \<and> point_y P1 \<noteq> point_y P2 then Some set_point_infinite
      else (case cx_ecfp_add_point cx P1 P2 of
          CX_OK P \<Rightarrow> Some P | CX_EC_INFINITE_POINT \<Rightarrow> Some set_point_infinite | CX_ERROR \<Rightarrow> None))"

definition point_mul :: "platform \<Rightarrow> bytes \<Rightarrow> bytes \<Rightarrow> bytes option" where
  "point_mul cx P scalar =
     (if is_point_infinite P then Some set_point_infinite
      else (case cx_ecfp_scalar_mult cx P scalar of
          CX_OK Q \<Rightarrow> Some Q | CX_EC_INFINITE_POINT \<Rightarrow> Some set_point_infinite | CX_ERROR \<Rightarrow> None))"

definition point_negate :: "platform \<Rightarrow> bytes \<Rightarrow> bytes option" where
  "point_negate cx P =
     (if is_point_infinite P then Some set_point_infinite
      else do { y \<leftarrow> cx_math_sub cx secp256k1_p (point_y P); Some (4 # point_x P @ y) })"

definition has_even_y :: "bytes \<Rightarrow> bool option" where
  "has_even_y P = (if is_point_infinite P then None else Some (point_y P ! 31 mod 2 = 0))"

text \<open>A failure of \<open>crypto_tr_lift_x\<close> is noticed only if the array happens to begin with 0.\<close>

definition cpoint :: "platform \<Rightarrow> bytes \<Rightarrow> bytes option" where
  "cpoint cx x =
     (let P = (case crypto_tr_lift_x cx (take 32 (drop 1 x)) of None \<Rightarrow> uninitialised cx 65 | Some P \<Rightarrow> P) in
      if is_point_infinite P then None
      else if x ! 0 = 2 then Some P
      else if x ! 0 = 3 then point_negate cx P
      else None)"

definition is_array_zero :: "bytes \<Rightarrow> bool" where
  "is_array_zero b \<longleftrightarrow> foldl (OR) 0 b = 0"

definition cpoint_ext :: "platform \<Rightarrow> bytes \<Rightarrow> bytes option" where
  "cpoint_ext cx x = (if is_array_zero x then Some set_point_infinite else cpoint cx x)"

section \<open>Key aggregation\<close>

definition musig_get_second_key :: "bytes list \<Rightarrow> bytes" where
  "musig_get_second_key pubkeys = (case find (\<lambda>k. pubkeys ! 0 \<noteq> k) pubkeys of
      None \<Rightarrow> replicate 33 0 | Some k \<Rightarrow> k)"

definition musig_hash_keys :: "platform \<Rightarrow> bytes list \<Rightarrow> bytes" where
  "musig_hash_keys cx pubkeys =
     cx_hash_sha256 cx (crypto_tr_tagged_hash_init cx (ascii_string ''KeyAgg list'') @ concat pubkeys)"

definition musig_key_agg_coeff_internal :: "platform \<Rightarrow> bytes list \<Rightarrow> bytes \<Rightarrow> bytes \<Rightarrow> bytes option" where
  "musig_key_agg_coeff_internal cx pubkeys pk pk2 =
     (let L = musig_hash_keys cx pubkeys in
      if pk = pk2 then Some (replicate 31 0 @ [1])
      else cx_math_modm cx (crypto_tr_tagged_hash cx (ascii_string ''KeyAgg coefficient'') L pk) secp256k1_n)"

definition musig_key_agg_coeff :: "platform \<Rightarrow> bytes list \<Rightarrow> bytes \<Rightarrow> bytes option" where
  "musig_key_agg_coeff cx pubkeys pk =
     musig_key_agg_coeff_internal cx pubkeys pk (musig_get_second_key pubkeys)"

record musig_keyagg_context_t =
  agg_Q :: bytes
  agg_gacc :: bytes
  agg_tacc :: bytes

text \<open>The result of the addition is not checked.\<close>

fun key_agg_loop :: "platform \<Rightarrow> bytes list \<Rightarrow> bytes \<Rightarrow> bytes list \<Rightarrow> bytes \<Rightarrow> bytes option" where
  "key_agg_loop cx pubkeys pk2 [] Q = Some Q"
| "key_agg_loop cx pubkeys pk2 (k # ks) Q =
     do {
       P \<leftarrow> cpoint cx k;
       a_i \<leftarrow> musig_key_agg_coeff_internal cx pubkeys k pk2;
       P \<leftarrow> point_mul cx P a_i;
       key_agg_loop cx pubkeys pk2 ks (case point_add cx Q P of None \<Rightarrow> uninitialised cx 65 | Some Q \<Rightarrow> Q) }"

definition musig_key_agg :: "platform \<Rightarrow> bytes list \<Rightarrow> musig_keyagg_context_t option" where
  "musig_key_agg cx pubkeys =
     do {
       Q \<leftarrow> key_agg_loop cx pubkeys (musig_get_second_key pubkeys) pubkeys set_point_infinite;
       Some \<lparr>agg_Q = Q, agg_gacc = replicate 31 0 @ [1], agg_tacc = replicate 32 0\<rparr> }"

definition apply_tweak :: "platform \<Rightarrow> bytes \<Rightarrow> bool \<Rightarrow> musig_keyagg_context_t \<Rightarrow> musig_keyagg_context_t option" where
  "apply_tweak cx tweak is_xonly ctx =
     do {
       even_y \<leftarrow> (if is_xonly then has_even_y (agg_Q ctx) else Some True);
       let one = replicate 31 0 @ [1];
       g \<leftarrow> (if \<not> even_y then cx_math_sub cx secp256k1_n one else Some one);
       diff \<leftarrow> cx_math_cmp cx tweak secp256k1_n;
       if diff \<ge> 0 then None
       else do {
         gQ \<leftarrow> point_mul cx (agg_Q ctx) g;
         T \<leftarrow> point_mul cx secp256k1_generator tweak;
         let Q = (case point_add cx gQ T of None \<Rightarrow> uninitialised cx 65 | Some Q \<Rightarrow> Q);
         if is_point_infinite Q then None
         else do {
           gacc \<leftarrow> cx_math_multm cx g (agg_gacc ctx) secp256k1_n;
           tacc \<leftarrow> cx_math_multm cx g (agg_tacc ctx) secp256k1_n;
           tacc \<leftarrow> cx_math_addm cx tacc tweak secp256k1_n;
           Some \<lparr>agg_Q = Q, agg_gacc = gacc, agg_tacc = tacc\<rparr> }}}"

section \<open>Nonces\<close>

record musig_secnonce_t =
  k_1 :: bytes
  k_2 :: bytes
  nonce_pk :: bytes

record musig_pubnonce_t =
  R_s1 :: bytes
  R_s2 :: bytes

definition musig_nonce_hash :: "platform \<Rightarrow> bytes \<Rightarrow> bytes \<Rightarrow> bytes \<Rightarrow> u8 \<Rightarrow> bytes \<Rightarrow> bytes \<Rightarrow> bytes" where
  "musig_nonce_hash cx rand pk aggpk i msg_prefixed extra_in =
     cx_hash_sha256 cx (crypto_tr_tagged_hash_init cx (ascii_string ''MuSig/nonce'') @ rand
       @ 33 # pk @ 32 # aggpk @ msg_prefixed @ u32_be (word_of_nat (length extra_in)) @ extra_in @ [i])"

definition musig_nonce_gen ::
    "platform \<Rightarrow> bytes \<Rightarrow> bytes \<Rightarrow> bytes \<Rightarrow> (musig_secnonce_t \<times> musig_pubnonce_t) option" where
  "musig_nonce_gen cx rand pk aggpk =
     do {
       k1 \<leftarrow> cx_math_modm cx (musig_nonce_hash cx rand pk aggpk 0 [0] []) secp256k1_n;
       k2 \<leftarrow> cx_math_modm cx (musig_nonce_hash cx rand pk aggpk 1 [0] []) secp256k1_n;
       R1 \<leftarrow> point_mul cx secp256k1_generator k1;
       R2 \<leftarrow> point_mul cx secp256k1_generator k2;
       r1 \<leftarrow> crypto_get_compressed_pubkey R1;
       r2 \<leftarrow> crypto_get_compressed_pubkey R2;
       Some (\<lparr>k_1 = k1, k_2 = k2, nonce_pk = pk\<rparr>, \<lparr>R_s1 = r1, R_s2 = r2\<rparr>) }"

text \<open>The sum of one of the two points of all nonces; the error tells the cosigner to blame.\<close>

fun nonce_agg_loop :: "platform \<Rightarrow> bytes list \<Rightarrow> nat \<Rightarrow> bytes \<Rightarrow> int + bytes" where
  "nonce_agg_loop cx [] i R = Inr R"
| "nonce_agg_loop cx (r # rs) i R = (case cpoint cx r of
      None \<Rightarrow> Inl (- int i - 1)
    | Some R_ij \<Rightarrow>
        nonce_agg_loop cx rs (Suc i) (case point_add cx R R_ij of None \<Rightarrow> uninitialised cx 65 | Some R \<Rightarrow> R))"

definition agg_nonce_bytes :: "platform \<Rightarrow> bytes \<Rightarrow> bytes" where
  "agg_nonce_bytes cx R =
     (if is_point_infinite R then replicate 33 0
      else (case crypto_get_compressed_pubkey R of None \<Rightarrow> uninitialised cx 33 | Some k \<Rightarrow> k))"

definition musig_nonce_agg :: "platform \<Rightarrow> musig_pubnonce_t list \<Rightarrow> int + musig_pubnonce_t" where
  "musig_nonce_agg cx pubnonces = (case nonce_agg_loop cx (map R_s1 pubnonces) 0 set_point_infinite of
      Inl e \<Rightarrow> Inl e
    | Inr R1 \<Rightarrow> (case nonce_agg_loop cx (map R_s2 pubnonces) 0 set_point_infinite of
          Inl e \<Rightarrow> Inl e
        | Inr R2 \<Rightarrow> Inr \<lparr>R_s1 = agg_nonce_bytes cx R1, R_s2 = agg_nonce_bytes cx R2\<rparr>))"

section \<open>Signing\<close>

record musig_session_context_t =
  aggnonce :: musig_pubnonce_t
  session_pubkeys :: "bytes list"
  session_tweaks :: "(bytes \<times> bool) list"
  session_msg :: bytes

record session_values =
  sv_Q :: bytes
  sv_gacc :: bytes
  sv_tacc :: bytes
  sv_b :: bytes
  sv_R :: bytes
  sv_e :: bytes

fun apply_tweaks :: "platform \<Rightarrow> (bytes \<times> bool) list \<Rightarrow> musig_keyagg_context_t \<Rightarrow> musig_keyagg_context_t option" where
  "apply_tweaks cx [] ctx = Some ctx"
| "apply_tweaks cx ((tweak, is_xonly) # ts) ctx = do { ctx \<leftarrow> apply_tweak cx tweak is_xonly ctx; apply_tweaks cx ts ctx }"

text \<open>The result of the key aggregation is not checked.\<close>

definition musig_get_session_values :: "platform \<Rightarrow> musig_session_context_t \<Rightarrow> session_values option" where
  "musig_get_session_values cx s =
     do {
       let ctx = (case musig_key_agg cx (session_pubkeys s) of
                    None \<Rightarrow> \<lparr>agg_Q = uninitialised cx 65, agg_gacc = uninitialised cx 32, agg_tacc = uninitialised cx 32\<rparr>
                  | Some ctx \<Rightarrow> ctx);
       ctx \<leftarrow> apply_tweaks cx (session_tweaks s) ctx;
       let Q = agg_Q ctx;
       let b = cx_hash_sha256 cx (crypto_tr_tagged_hash_init cx (ascii_string ''MuSig/noncecoef'')
                 @ R_s1 (aggnonce s) @ R_s2 (aggnonce s) @ point_x Q @ session_msg s);
       R1 \<leftarrow> cpoint_ext cx (R_s1 (aggnonce s));
       R2 \<leftarrow> cpoint_ext cx (R_s2 (aggnonce s));
       R2 \<leftarrow> point_mul cx R2 b;
       R \<leftarrow> point_add cx R1 R2;
       let R = (if is_point_infinite R then secp256k1_generator else R);
       let e = cx_hash_sha256 cx (crypto_tr_tagged_hash_init cx (ascii_string ''BIP0340/challenge'')
                 @ point_x R @ point_x Q @ session_msg s);
       Some \<lparr>sv_Q = Q, sv_gacc = agg_gacc ctx, sv_tacc = agg_tacc ctx, sv_b = b, sv_R = R, sv_e = e\<rparr> }"

definition musig_get_session_key_agg_coeff :: "platform \<Rightarrow> musig_session_context_t \<Rightarrow> bytes \<Rightarrow> bytes option" where
  "musig_get_session_key_agg_coeff cx s P =
     (let pk = (case crypto_get_compressed_pubkey P of None \<Rightarrow> uninitialised cx 33 | Some k \<Rightarrow> k) in
      if pk \<notin> set (session_pubkeys s) then None else musig_key_agg_coeff cx (session_pubkeys s) pk)"

definition in_range :: "platform \<Rightarrow> bytes \<Rightarrow> bool" where
  "in_range cx k \<longleftrightarrow> below cx k secp256k1_n \<and> \<not> is_array_zero k"

text \<open>The computation of the partial signature, after the nonces have been copied.\<close>

definition partial_signature ::
    "platform \<Rightarrow> bytes \<Rightarrow> bytes \<Rightarrow> bytes \<Rightarrow> bytes \<Rightarrow> musig_session_context_t \<Rightarrow> session_values \<Rightarrow> bytes option" where
  "partial_signature cx k1 k2 pk sk s v =
     (if \<not> in_range cx k1 then None
      else if \<not> in_range cx k2 then None
      else do {
        even_R \<leftarrow> has_even_y (sv_R v);
        k1 \<leftarrow> (if \<not> even_R then cx_math_sub cx secp256k1_n k1 else Some k1);
        k2 \<leftarrow> (if \<not> even_R then cx_math_sub cx secp256k1_n k2 else Some k2);
        if \<not> in_range cx sk then None
        else do {
          P \<leftarrow> point_mul cx secp256k1_generator sk;
          if (case crypto_get_compressed_pubkey P of None \<Rightarrow> uninitialised cx 33 | Some k \<Rightarrow> k) \<noteq> pk then None
          else do {
            a \<leftarrow> musig_get_session_key_agg_coeff cx s P;
            even_Q \<leftarrow> has_even_y (sv_Q v);
            let one = replicate 31 0 @ [1];
            g \<leftarrow> (if \<not> even_Q then cx_math_sub cx secp256k1_n one else Some one);
            d \<leftarrow> cx_math_multm cx g (sv_gacc v) secp256k1_n;
            d \<leftarrow> cx_math_multm cx d sk secp256k1_n;
            bk_2 \<leftarrow> cx_math_multm cx (sv_b v) k2 secp256k1_n;
            ead \<leftarrow> cx_math_multm cx (sv_e v) a secp256k1_n;
            ead \<leftarrow> cx_math_multm cx ead d secp256k1_n;
            sig \<leftarrow> cx_math_addm cx k1 bk_2 secp256k1_n;
            cx_math_addm cx sig ead secp256k1_n }}})"

text \<open>The partial signature, and the secret nonce as the call leaves it.\<close>

definition musig_sign ::
    "platform \<Rightarrow> musig_secnonce_t \<Rightarrow> bytes \<Rightarrow> musig_session_context_t \<Rightarrow> bytes option \<times> musig_secnonce_t" where
  "musig_sign cx secnonce sk s = (case musig_get_session_values cx s of
      None \<Rightarrow> (None, secnonce)
    | Some v \<Rightarrow> (partial_signature cx (k_1 secnonce) (k_2 secnonce) (nonce_pk secnonce) sk s v,
                 secnonce\<lparr>k_1 := replicate 32 0, k_2 := replicate 32 0\<rparr>))"

section \<open>The equation of the partial signature\<close>

text \<open>What the modular arithmetic and the comparison of the operating system are documented to do.\<close>

definition modular :: "platform \<Rightarrow> bool" where
  "modular cx \<longleftrightarrow>
     (\<forall>a b m c. length m = 32 \<and> big_endian m \<noteq> 0 \<and> cx_math_addm cx a b m = Some c
        \<longrightarrow> big_endian c = (big_endian a + big_endian b) mod big_endian m)
     \<and> (\<forall>a b m c. length m = 32 \<and> big_endian m \<noteq> 0 \<and> cx_math_multm cx a b m = Some c
        \<longrightarrow> big_endian c = big_endian a * big_endian b mod big_endian m)
     \<and> (\<forall>a b d. cx_math_cmp cx a b = Some d \<longrightarrow> (d < 0 \<longleftrightarrow> big_endian a < big_endian b))"

abbreviation val :: "bytes \<Rightarrow> int" where
  "val x \<equiv> int (big_endian x)"

definition parity_sign :: "bytes \<Rightarrow> int" where
  "parity_sign P = (if has_even_y P = Some True then 1 else - 1)"

lemma order_nonzero: "length secp256k1_n = 32" "big_endian secp256k1_n \<noteq> 0"
  by (simp add: secp256k1_n_def) (simp add: secp256k1_n_def big_endian_def)

lemma modular_laws:
  assumes "modular cx"
  shows "cx_math_addm cx a b secp256k1_n = Some c \<Longrightarrow> val c = (val a + val b) mod val secp256k1_n"
    and "cx_math_multm cx a b secp256k1_n = Some c \<Longrightarrow> val c = val a * val b mod val secp256k1_n"
    and "in_range cx a \<Longrightarrow> val a < val secp256k1_n"
proof -
  have "cx_math_addm cx a b secp256k1_n = Some c
      \<longrightarrow> big_endian c = (big_endian a + big_endian b) mod big_endian secp256k1_n"
    using assms order_nonzero unfolding modular_def by blast
  then show "val c = (val a + val b) mod val secp256k1_n" if "cx_math_addm cx a b secp256k1_n = Some c"
    using that by (simp only: of_nat_add zmod_int simp_thms)
  have "cx_math_multm cx a b secp256k1_n = Some c
      \<longrightarrow> big_endian c = big_endian a * big_endian b mod big_endian secp256k1_n"
    using assms order_nonzero unfolding modular_def by blast
  then show "val c = val a * val b mod val secp256k1_n" if "cx_math_multm cx a b secp256k1_n = Some c"
    using that by (simp only: of_nat_mult zmod_int simp_thms)
  have "cx_math_cmp cx a secp256k1_n = Some d \<longrightarrow> (d < 0 \<longleftrightarrow> big_endian a < big_endian secp256k1_n)" for d
    using assms unfolding modular_def by blast
  then show "val a < val secp256k1_n" if "in_range cx a"
    using that unfolding in_range_def below_def by (auto split: option.splits)
qed

text \<open>Negation modulo the order, when the point has an odd \<open>y\<close>.\<close>

lemma negated_mod:
  assumes "subtracts cx" "length k = 32" "val k < val secp256k1_n"
    and "has_even_y P = Some e" "(if \<not> e then cx_math_sub cx secp256k1_n k else Some k) = Some k'"
  shows "val k' mod val secp256k1_n = parity_sign P * val k mod val secp256k1_n"
proof (cases e)
  case False
  have "length secp256k1_n = 32"
    by (simp add: secp256k1_n_def)
  then have "big_endian k' = big_endian secp256k1_n - big_endian k"
    using assms False unfolding subtracts_def by fastforce
  then have "val k' = val secp256k1_n - val k"
    using assms(3) by simp
  then show ?thesis
    using False assms(4) by (simp add: parity_sign_def mod_eq_dvd_iff)
qed (use assms in \<open>simp add: parity_sign_def\<close>)

lemma val_one: "val (replicate 31 0 @ [1]) = 1"
  by (simp add: big_endian_def)

lemma one_less_order: "val (replicate 31 0 @ [1]) < val secp256k1_n"
  by (simp add: val_one) (simp add: secp256k1_n_def big_endian_def)

lemma signature_sum:
  fixes N :: int
  assumes "k1 mod N = r * x1 mod N" "k2 mod N = r * x2 mod N" "g mod N = q mod N"
  shows "((k1 + b * k2 mod N) mod N + (e * a mod N) * ((g * c mod N) * d mod N) mod N) mod N
    = (r * (x1 + b * x2) + e * a * (q * c * d)) mod N"
proof -
  have "((k1 + b * k2 mod N) mod N + (e * a mod N) * ((g * c mod N) * d mod N) mod N) mod N
      = (k1 + b * k2 + e * a * (g * c * d)) mod N"
    by (simp add: mod_simps)
  also have "\<dots> = (r * x1 + b * (r * x2) + e * a * (q * c * d)) mod N"
    by (intro mod_add_cong mod_mult_cong assms refl)
  also have "\<dots> = (r * (x1 + b * x2) + e * a * (q * c * d)) mod N"
    by (simp add: algebra_simps)
  finally show ?thesis .
qed

section \<open>Properties\<close>

text \<open>C34: A partial signature satisfies the equation of BIP-327: modulo the order of the group it is
  \<open>k\<^sub>1 + b k\<^sub>2 + e a d\<close> with the nonces negated when the point \<open>R\<close> has an odd \<open>y\<close>, and \<open>d\<close> the
  secret key times the accumulated sign \<open>gacc\<close>, negated when the aggregate key \<open>Q\<close> has an odd \<open>y\<close>; it is only
  made for the key that the nonce was generated for, with its aggregation coefficient \<open>a\<close>; and the
  nonce is erased, so that no other signature can be made with it.\<close>

theorem musig_sign_equation:
  assumes "modular cx" and "subtracts cx" and "length (k_1 n) = 32" and "length (k_2 n) = 32"
    and "musig_sign cx n sk s = (Some psig, n')"
  shows "(\<exists>v a P. musig_get_session_values cx s = Some v \<and> point_mul cx secp256k1_generator sk = Some P
      \<and> musig_get_session_key_agg_coeff cx s P = Some a
      \<and> val psig = (parity_sign (sv_R v) * (val (k_1 n) + val (sv_b v) * val (k_2 n))
          + val (sv_e v) * val a * (parity_sign (sv_Q v) * val (sv_gacc v) * val sk)) mod val secp256k1_n)
    \<and> fst (musig_sign cx n' sk' s') = None"
proof
  let ?N = "val secp256k1_n" and ?one = "replicate 31 0 @ [1] :: bytes"
  obtain v where v: "musig_get_session_values cx s = Some v"
      "partial_signature cx (k_1 n) (k_2 n) (nonce_pk n) sk s v = Some psig"
      "n' = n\<lparr>k_1 := replicate 32 0, k_2 := replicate 32 0\<rparr>"
    using assms(5) by (auto simp: musig_sign_def split: option.splits)
  then obtain eR k1 k2 P a eQ g d0 d bk ea ead sig where
      r: "in_range cx (k_1 n)" "in_range cx (k_2 n)" "has_even_y (sv_R v) = Some eR"
      "(if \<not> eR then cx_math_sub cx secp256k1_n (k_1 n) else Some (k_1 n)) = Some k1"
      "(if \<not> eR then cx_math_sub cx secp256k1_n (k_2 n) else Some (k_2 n)) = Some k2"
      "point_mul cx secp256k1_generator sk = Some P" "musig_get_session_key_agg_coeff cx s P = Some a"
      "has_even_y (sv_Q v) = Some eQ" "(if \<not> eQ then cx_math_sub cx secp256k1_n ?one else Some ?one) = Some g"
    and m: "cx_math_multm cx g (sv_gacc v) secp256k1_n = Some d0" "cx_math_multm cx d0 sk secp256k1_n = Some d"
      "cx_math_multm cx (sv_b v) k2 secp256k1_n = Some bk" "cx_math_multm cx (sv_e v) a secp256k1_n = Some ea"
      "cx_math_multm cx ea d secp256k1_n = Some ead" "cx_math_addm cx k1 bk secp256k1_n = Some sig"
      "cx_math_addm cx sig ead secp256k1_n = Some psig"
    unfolding partial_signature_def Let_def by (auto split: if_splits elim!: bind_SomeE)
  note law = modular_laws [OF assms(1)]
  have k: "val k1 mod ?N = parity_sign (sv_R v) * val (k_1 n) mod ?N"
      "val k2 mod ?N = parity_sign (sv_R v) * val (k_2 n) mod ?N"
    using negated_mod [OF assms(2,3) law(3) [OF r(1)] r(3,4)] negated_mod [OF assms(2,4) law(3) [OF r(2)] r(3,5)]
    by simp_all
  have "val g mod ?N = parity_sign (sv_Q v) mod ?N"
    using negated_mod [OF assms(2) _ one_less_order r(8,9)] by (simp add: val_one)
  note sum = signature_sum [OF k this, of "val (sv_b v)" "val (sv_e v)" "val a" "val (sv_gacc v)" "val sk"]
  have "val psig = (parity_sign (sv_R v) * (val (k_1 n) + val (sv_b v) * val (k_2 n))
      + val (sv_e v) * val a * (parity_sign (sv_Q v) * val (sv_gacc v) * val sk)) mod ?N"
    unfolding sum [symmetric] by (simp only: law(1) [OF m(7)] law(1) [OF m(6)] law(2) [OF m(5)] law(2) [OF m(4)]
        law(2) [OF m(3)] law(2) [OF m(2)] law(2) [OF m(1)])
  then show "\<exists>v a P. musig_get_session_values cx s = Some v \<and> point_mul cx secp256k1_generator sk = Some P
      \<and> musig_get_session_key_agg_coeff cx s P = Some a
      \<and> val psig = (parity_sign (sv_R v) * (val (k_1 n) + val (sv_b v) * val (k_2 n))
          + val (sv_e v) * val a * (parity_sign (sv_Q v) * val (sv_gacc v) * val sk)) mod ?N"
    using v(1) r(6,7) by blast
  have "is_array_zero (replicate 32 0)"
    by code_simp
  then show "fst (musig_sign cx n' sk' s') = None"
    by (simp add: musig_sign_def v(3) partial_signature_def in_range_def split: option.splits)
qed

text \<open>A platform for the witness: its arithmetic is that of \<open>arithmetic_platform\<close>, and the only square root it knows is
  the one that the generator of the group needs.\<close>

definition generator_platform :: platform where
  "generator_platform = arithmetic_platform\<lparr>cx_math_powm := \<lambda>a e m.
      if e = secp256k1_sqr_exponent then Some (point_y secp256k1_generator)
      else Some (to_base 32 (big_endian a ^ big_endian e mod big_endian m))\<rparr>"

lemma generator_platform_laws: "modular generator_platform" "subtracts generator_platform"
proof -
  have "x mod big_endian m < 256 ^ 32" if "length m = 32" "big_endian m \<noteq> 0" for x m
    using big_endian_less [OF that(1)] that(2) by (meson less_trans mod_less_divisor neq0_conv)
  then show "modular generator_platform"
    unfolding modular_def by (auto simp: generator_platform_def arithmetic_platform_def big_endian_to_base)
  show "subtracts generator_platform"
    using arithmetic_platform_laws(1) by (simp add: subtracts_def generator_platform_def)
qed

lemma prime_value: "big_endian secp256k1_p = 2 ^ 256 - 2 ^ 32 - 977"
  by (simp add: secp256k1_p_def big_endian_def)

lemma generator_value:
  "big_endian (point_x secp256k1_generator) = 55066263022277343669578718895168534326250603453777594175500187360389116729240"
  "big_endian (point_y secp256k1_generator) = 32670510020758816978083085130507043184471273380659243275938904335757337482424"
  by (simp_all add: point_x_def point_y_def secp256k1_generator_def big_endian_def)

lemma lift_generator: "cpoint generator_platform (2 # point_x secp256k1_generator) = Some secp256k1_generator"
proof -
  let ?P = "big_endian secp256k1_p"
  have less: "v mod ?P < 256 ^ 32" for v
    by (rule less_trans [OF mod_less_divisor]) (simp_all add: prime_value)
  have "big_endian (point_x secp256k1_generator) ^ 3 + 7 = big_endian (point_y secp256k1_generator) ^ 2 + ?P *
      1442042049659660869506300006036683750029629333882594701370927246876626245108435922902327776681700708714008192087431130951749952236093997894375239788520937"
    unfolding generator_value prime_value by simp
  then have curve: "big_endian (point_y secp256k1_generator) ^ 2 mod ?P
      = (big_endian (point_x secp256k1_generator) ^ 3 + 7) mod ?P"
    by (simp only: mod_mult_self2)
  have small: "big_endian [3] = 3" "big_endian [2] = 2" "big_endian (replicate 31 0 @ [7]) = 7"
      "[3] \<noteq> secp256k1_sqr_exponent" "[2] \<noteq> secp256k1_sqr_exponent" "\<not> point_y secp256k1_generator ! 31 AND 1 \<noteq> 0"
    by (simp_all add: big_endian_def secp256k1_sqr_exponent_def point_y_def secp256k1_generator_def)
  have pow: "cx_math_powm generator_platform a [3] secp256k1_p = Some (to_base 32 (big_endian a ^ 3 mod ?P))"
      "cx_math_powm generator_platform a [2] secp256k1_p = Some (to_base 32 (big_endian a ^ 2 mod ?P))"
      "cx_math_powm generator_platform a secp256k1_sqr_exponent secp256k1_p = Some (point_y secp256k1_generator)" for a
    using small(1,2,4,5) by (simp_all add: generator_platform_def)
  have add: "cx_math_addm generator_platform a b m = Some (to_base 32 ((big_endian a + big_endian b) mod big_endian m))"
      "cx_math_cmp generator_platform a b = Some (val a - val b)" for a b m
    by (simp_all add: generator_platform_def arithmetic_platform_def)
  have "crypto_tr_lift_x generator_platform (point_x secp256k1_generator)
      = Some (4 # point_x secp256k1_generator @ point_y secp256k1_generator)"
    by (simp only: crypto_tr_lift_x_def curve_root_def pow add small big_endian_to_base less mod_add_left_eq curve
        bind.bind_lunit split_conv if_False diff_self simp_thms)
  then show ?thesis
    by (simp add: cpoint_def point_x_def point_y_def secp256k1_generator_def is_point_infinite_def)
qed

definition generator_session :: musig_session_context_t where
  "generator_session = (let pk = 2 # point_x secp256k1_generator in
     \<lparr>aggnonce = \<lparr>R_s1 = pk, R_s2 = pk\<rparr>, session_pubkeys = [pk], session_tweaks = [], session_msg = replicate 32 9\<rparr>)"

definition generator_nonce :: musig_secnonce_t where
  "generator_nonce = \<lparr>k_1 = replicate 31 0 @ [3], k_2 = replicate 31 0 @ [5], nonce_pk = 2 # point_x secp256k1_generator\<rparr>"

lemma foldl_or_zeros: "foldl (OR) (0 :: u8) (replicate k 0) = 0"
  by (induction k) simp_all

lemma generator_session_signs:
  "\<exists>psig n'. musig_sign generator_platform generator_nonce (replicate 31 0 @ [1]) generator_session = (Some psig, n')"
proof -
  let ?cx = generator_platform and ?G = secp256k1_generator
  have G: "\<not> is_point_infinite ?G" "has_even_y ?G = Some True" "crypto_get_compressed_pubkey ?G = Some (2 # point_x ?G)"
      "\<not> is_array_zero (2 # point_x ?G)"
    by (simp_all add: is_point_infinite_def has_even_y_def point_x_def point_y_def crypto_get_compressed_pubkey_def
        secp256k1_generator_def is_array_zero_def)
  have mul: "point_mul ?cx ?G k = Some ?G" and add: "point_add ?cx ?G ?G = Some ?G"
      "point_add ?cx set_point_infinite ?G = Some ?G" for k
    using G(1) by (simp_all add: point_mul_def point_add_def generator_platform_def arithmetic_platform_def
        is_point_infinite_def set_point_infinite_def)
  have range: "in_range ?cx (replicate 31 0 @ [1])" "in_range ?cx (replicate 31 0 @ [3])" "in_range ?cx (replicate 31 0 @ [5])"
    by (simp_all add: in_range_def below_def generator_platform_def arithmetic_platform_def is_array_zero_def
        big_endian_def secp256k1_n_def foldl_or_zeros)
  have total: "cx_math_modm ?cx a m = Some (to_base 32 (big_endian a mod big_endian m))"
      "cx_math_multm ?cx a b m = Some (to_base 32 (big_endian a * big_endian b mod big_endian m))"
      "cx_math_addm ?cx a b m = Some (to_base 32 ((big_endian a + big_endian b) mod big_endian m))" for a b m
    by (simp_all add: generator_platform_def arithmetic_platform_def)
  have differ: "2 # point_x ?G \<noteq> replicate 33 0"
    using replicate_Suc [of 32 "0 :: u8"] by simp
  obtain v where "musig_get_session_values ?cx generator_session = Some v" "sv_Q v = ?G" "sv_R v = ?G"
    by (simp add: musig_get_session_values_def generator_session_def musig_key_agg_def lift_generator mul add G
        musig_key_agg_coeff_internal_def musig_get_second_key_def cpoint_ext_def Let_def total differ)
  then show ?thesis
    by (simp add: musig_sign_def partial_signature_def generator_nonce_def range G mul musig_get_session_key_agg_coeff_def
        musig_key_agg_coeff_def musig_key_agg_coeff_internal_def generator_session_def Let_def total)
qed

theorem musig_sign_equation_witness:
  "\<exists>psig n' v a P. musig_sign generator_platform generator_nonce (replicate 31 0 @ [1]) generator_session = (Some psig, n')
     \<and> musig_get_session_values generator_platform generator_session = Some v
     \<and> musig_get_session_key_agg_coeff generator_platform generator_session P = Some a
     \<and> val psig = (parity_sign (sv_R v) * (val (replicate 31 0 @ [3]) + val (sv_b v) * val (replicate 31 0 @ [5]))
         + val (sv_e v) * val a * (parity_sign (sv_Q v) * val (sv_gacc v) * val (replicate 31 0 @ [1]))) mod val secp256k1_n"
proof -
  obtain psig n' where sign: "musig_sign generator_platform generator_nonce (replicate 31 0 @ [1]) generator_session
      = (Some psig, n')"
    using generator_session_signs by blast
  have "length (k_1 generator_nonce) = 32" "length (k_2 generator_nonce) = 32"
      "k_1 generator_nonce = replicate 31 0 @ [3]" "k_2 generator_nonce = replicate 31 0 @ [5]"
    by (simp_all add: generator_nonce_def)
  then show ?thesis
    using musig_sign_equation [OF generator_platform_laws _ _ sign] sign by metis
qed

end
