(* ===== verification/Musig_Sessions.thy ===== *)
theory Musig_Sessions
  imports Musig
begin

text \<open>
  The sessions of MuSig2, \<^verbatim>\<open>src/src/musig/musig_sessions.c\<close>: the randomness from which nonces are
  derived is created in the first round, kept in persistent storage when the signing flow is
  completed, and removed from there before it is used in the second round.

  The record \<open>device\<close> holds the persistent storage, the volatile signing state and the number of random
  values drawn so far; \<open>random\<close> gives these values (\<open>cx_get_random_bytes\<close>).  Three more fields are not
  read by the code: \<open>flow\<close> counts the signing flows, \<open>active\<close> is true from the initialization of the
  signing state to the end of the flow, and \<open>signed\<close> lists the roots of randomness handed out for
  the second round, with the flow.
\<close>

section \<open>State\<close>

abbreviation (input) MAX_N_MUSIG_SESSIONS :: nat where "MAX_N_MUSIG_SESSIONS \<equiv> 8"

record musig_psbt_session_t =
  session_id :: bytes
  rand_root :: bytes

definition zero_session :: musig_psbt_session_t where
  "zero_session = \<lparr>session_id = replicate 32 0, rand_root = replicate 32 0\<rparr>"

record musig_signing_state_t =
  round1 :: musig_psbt_session_t
  round2 :: musig_psbt_session_t

record device =
  sessions :: "musig_psbt_session_t list"
  signing :: musig_signing_state_t
  drawn :: nat
  flow :: nat
  active :: bool
  signed :: "(nat \<times> bytes) list"

section \<open>Operations\<close>

fun musigsession_pop ::
    "bytes \<Rightarrow> musig_psbt_session_t list \<Rightarrow> musig_psbt_session_t option \<times> musig_psbt_session_t list" where
  "musigsession_pop psbt_session_id [] = (None, [])"
| "musigsession_pop psbt_session_id (s # ss) =
     (if session_id s = psbt_session_id then (Some s, zero_session # ss)
      else (case musigsession_pop psbt_session_id ss of (out, ss) \<Rightarrow> (out, s # ss)))"

definition is_all_zeros :: "musig_psbt_session_t \<Rightarrow> bool" where
  "is_all_zeros s \<longleftrightarrow> s = zero_session"

text \<open>The index of the first free slot; without one, the first slot is used.\<close>

fun free_slot :: "musig_psbt_session_t list \<Rightarrow> nat option" where
  "free_slot [] = None"
| "free_slot (s # ss) = (if is_all_zeros s then Some 0 else map_option Suc (free_slot ss))"

definition musigsession_store :: "musig_psbt_session_t \<Rightarrow> musig_psbt_session_t list \<Rightarrow> musig_psbt_session_t list" where
  "musigsession_store session ss =
     (let ss = snd (musigsession_pop (session_id session) ss);
          i = (case free_slot ss of None \<Rightarrow> 0 | Some i \<Rightarrow> i)
      in ss[i := session])"

definition rand_input :: "bytes \<Rightarrow> u32 \<Rightarrow> u32 \<Rightarrow> bytes" where
  "rand_input root i j = root @ u32_be i @ u32_be j"

definition compute_rand_i_j :: "platform \<Rightarrow> musig_psbt_session_t \<Rightarrow> u32 \<Rightarrow> u32 \<Rightarrow> bytes" where
  "compute_rand_i_j cx psbt_session i j = cx_hash_sha256 cx (rand_input (rand_root psbt_session) i j)"

definition musigsession_initialize_signing_state :: "device \<Rightarrow> device" where
  "musigsession_initialize_signing_state d =
     d\<lparr>signing := \<lparr>round1 = zero_session, round2 = zero_session\<rparr>\<rparr>"

definition musigsession_round1_initialize ::
    "(nat \<Rightarrow> bytes) \<Rightarrow> bytes \<Rightarrow> device \<Rightarrow> musig_psbt_session_t \<times> device" where
  "musigsession_round1_initialize random psbt_session_id d =
     (let d = d\<lparr>sessions := snd (musigsession_pop psbt_session_id (sessions d))\<rparr>;
          d = (if session_id (round1 (signing d)) \<noteq> psbt_session_id then
                 d\<lparr>signing := (signing d)\<lparr>round1 := \<lparr>session_id = psbt_session_id, rand_root = random (drawn d)\<rparr>\<rparr>,
                   drawn := Suc (drawn d)\<rparr>
               else d)
      in (round1 (signing d), d))"

definition musigsession_round2_initialize :: "bytes \<Rightarrow> device \<Rightarrow> musig_psbt_session_t option \<times> device" where
  "musigsession_round2_initialize psbt_session_id d =
     (if session_id (round2 (signing d)) \<noteq> psbt_session_id then
        (case musigsession_pop psbt_session_id (sessions d) of
           (None, _) \<Rightarrow> (None, d)
         | (Some s, ss) \<Rightarrow> (Some s, d\<lparr>sessions := ss, signing := (signing d)\<lparr>round2 := s\<rparr>\<rparr>))
      else (Some (round2 (signing d)), d))"

definition musigsession_commit :: "device \<Rightarrow> device" where
  "musigsession_commit d =
     (if round1 (signing d) \<noteq> zero_session
      then d\<lparr>sessions := musigsession_store (round1 (signing d)) (sessions d)\<rparr> else d)"

section \<open>Signing flows\<close>

text \<open>The calls in the order that \<^verbatim>\<open>src/src/musig/musig_sessions.h\<close> prescribes: a flow initializes the
  signing state, starts rounds for any number of inputs and key expressions, and is completed by
  the commit, after which it makes no more calls; it can be abandoned at any time.  Session identifiers are hashes, taken to be nonzero.\<close>

inductive step :: "(nat \<Rightarrow> bytes) \<Rightarrow> device \<Rightarrow> device \<Rightarrow> bool" for random where
  start: "step random d ((musigsession_initialize_signing_state d)\<lparr>flow := Suc (flow d), active := True\<rparr>)"
| round1: "step random d d'" if "active d" "sid \<noteq> replicate 32 0"
    "musigsession_round1_initialize random sid d = (s, d')"
| round2: "step random d (d'\<lparr>signed := (flow d, rand_root s) # signed d\<rparr>)" if "active d" "sid \<noteq> replicate 32 0"
    "musigsession_round2_initialize sid d = (Some s, d')"
| round2_missing: "step random d d'" if "active d" "sid \<noteq> replicate 32 0"
    "musigsession_round2_initialize sid d = (None, d')"
| commit: "step random d ((musigsession_commit d)\<lparr>active := False\<rparr>)" if "active d"

definition initial_device :: device where
  "initial_device = \<lparr>sessions = replicate MAX_N_MUSIG_SESSIONS zero_session,
     signing = \<lparr>round1 = zero_session, round2 = zero_session\<rparr>, drawn = 0, flow = 0, active = False, signed = []\<rparr>"

abbreviation reachable :: "(nat \<Rightarrow> bytes) \<Rightarrow> device \<Rightarrow> bool" where
  "reachable random d \<equiv> (step random)\<^sup>*\<^sup>* initial_device d"

section \<open>Invariant\<close>

definition roots :: "musig_psbt_session_t list \<Rightarrow> bytes list" where
  "roots ss = map rand_root (filter (\<lambda>s. s \<noteq> zero_session) ss)"

definition session_ok :: "musig_psbt_session_t \<Rightarrow> bool" where
  "session_ok s \<longleftrightarrow> s = zero_session \<or> session_id s \<noteq> replicate 32 0"

definition used :: "device \<Rightarrow> bytes set" where
  "used d = snd ` set (signed d)"

definition sessions_inv :: "(nat \<Rightarrow> bytes) \<Rightarrow> device \<Rightarrow> bool" where
  "sessions_inv random d \<longleftrightarrow>
     length (sessions d) = MAX_N_MUSIG_SESSIONS \<and> list_all session_ok (sessions d)
     \<and> session_ok (round1 (signing d)) \<and> session_ok (round2 (signing d))
     \<and> distinct (roots (sessions d))
     \<and> set (roots (sessions d)) \<union> set (roots [round1 (signing d)]) \<union> used d \<subseteq> random ` {..<drawn d}
     \<and> set (roots (sessions d)) \<inter> used d = {}
     \<and> (active d \<longrightarrow> set (roots [round1 (signing d)]) \<inter> (set (roots (sessions d)) \<union> used d) = {})
     \<and> (\<forall>(f, r) \<in> set (signed d). f \<le> flow d)
     \<and> (active d \<longrightarrow> round2 (signing d) \<noteq> zero_session \<longrightarrow> (flow d, rand_root (round2 (signing d))) \<in> set (signed d))
     \<and> inj_on snd (set (signed d))"

lemma roots_simps [simp]:
  "roots [] = []" "roots (s # ss) = (if s = zero_session then roots ss else rand_root s # roots ss)"
  "roots (ss @ ts) = roots ss @ roots ts"
  by (simp_all add: roots_def)

text \<open>What popping a session does to the storage.\<close>

lemma pop_keeps:
  assumes "musigsession_pop i ss = (out, ss')" "list_all session_ok ss"
  shows "length ss' = length ss \<and> list_all session_ok ss'"
  using assms by (induction ss arbitrary: ss') (auto simp: session_ok_def split: if_splits prod.splits)

lemma pop_None: "musigsession_pop i ss = (None, ss') \<Longrightarrow> ss' = ss"
  by (induction ss arbitrary: ss') (auto split: if_splits prod.splits)

lemma pop_Some:
  assumes "musigsession_pop i ss = (Some s, ss')" "i \<noteq> replicate 32 0"
  shows "session_id s = i \<and> (\<exists>xs ys. ss = xs @ s # ys \<and> ss' = xs @ zero_session # ys \<and> s \<noteq> zero_session)"
  using assms
proof (induction ss arbitrary: ss')
  case (Cons t ss)
  show ?case
  proof (cases "session_id t = i")
    case True
    then show ?thesis
      using Cons.prems by (intro conjI exI [of _ "[]"] exI [of _ ss]) (auto simp: zero_session_def)
  next
    case False
    then obtain ts where ts: "musigsession_pop i ss = (Some s, ts)" "ss' = t # ts"
      using Cons.prems by (auto split: prod.splits)
    then obtain xs ys where "session_id s = i" "ss = xs @ s # ys" "ts = xs @ zero_session # ys" "s \<noteq> zero_session"
      using Cons.IH [OF ts(1) Cons.prems(2)] by blast
    then show ?thesis
      by (intro conjI exI [of _ "t # xs"] exI [of _ ys]) (simp_all add: ts(2))
  qed
qed simp

lemma pop_roots:
  assumes "musigsession_pop i ss = (out, ss')" "i \<noteq> replicate 32 0" "distinct (roots ss)"
  shows "distinct (roots ss') \<and> set (roots ss') \<subseteq> set (roots ss)
    \<and> (\<forall>s. out = Some s \<longrightarrow> s \<noteq> zero_session \<and> rand_root s \<in> set (roots ss) \<and> rand_root s \<notin> set (roots ss'))"
proof (cases out)
  case None
  then show ?thesis
    using assms pop_None by fastforce
next
  case (Some s)
  then show ?thesis
    using assms pop_Some [of i ss s ss'] by auto
qed

lemma free_slot_zero: "free_slot ss = Some i \<Longrightarrow> i < length ss \<and> ss ! i = zero_session"
  by (induction ss arbitrary: i) (auto simp: is_all_zeros_def split: if_splits)

lemma roots_update:
  assumes "i < length ss" "distinct (roots ss)" "rand_root s \<notin> set (roots ss)" "s \<noteq> zero_session"
  shows "distinct (roots (ss[i := s])) \<and> set (roots (ss[i := s])) \<subseteq> insert (rand_root s) (set (roots ss))"
proof -
  obtain xs t ys where ss: "ss = xs @ t # ys" "length xs = i"
    using id_take_nth_drop [OF assms(1)] assms(1) by (metis length_take min.absorb4)
  then have "ss[i := s] = xs @ s # ys"
    by (simp add: list_update_append)
  then show ?thesis
    using assms(2-4) by (auto simp: ss(1) split: if_splits)
qed

lemma store_roots:
  assumes "length ss = 8" "list_all session_ok ss" "distinct (roots ss)" "rand_root s \<notin> set (roots ss)"
    and "s \<noteq> zero_session" "session_ok s"
  shows "length (musigsession_store s ss) = 8 \<and> list_all session_ok (musigsession_store s ss)
    \<and> distinct (roots (musigsession_store s ss))
    \<and> set (roots (musigsession_store s ss)) \<subseteq> insert (rand_root s) (set (roots ss))"
proof -
  obtain out ts where ts: "musigsession_pop (session_id s) ss = (out, ts)"
    by (cases "musigsession_pop (session_id s) ss")
  have i: "session_id s \<noteq> replicate 32 0"
    using assms(5,6) by (simp add: session_ok_def)
  define k where "k = (case free_slot ts of None \<Rightarrow> 0 | Some i \<Rightarrow> i)"
  have l: "length ts = 8" "list_all session_ok ts"
    using pop_keeps [OF ts assms(2)] assms(1) by simp_all
  then have k: "k < length ts"
    using free_slot_zero [of ts] by (auto simp: k_def split: option.splits)
  have r: "distinct (roots ts)" "set (roots ts) \<subseteq> set (roots ss)"
    using pop_roots [OF ts i assms(3)] by simp_all
  then have "distinct (roots (ts[k := s])) \<and> set (roots (ts[k := s])) \<subseteq> insert (rand_root s) (set (roots ts))"
    using assms(4,5) k by (intro roots_update) auto
  moreover have "list_all session_ok (ts[k := s])"
    using l(2) assms(6) k by (auto simp: list_all_length nth_list_update)
  ultimately show ?thesis
    using r(2) l(1) by (auto simp: musigsession_store_def ts Let_def simp flip: k_def)
qed

lemma used_simps [simp]:
  "used (d\<lparr>sessions := ss\<rparr>) = used d" "used (d\<lparr>signing := st\<rparr>) = used d" "used (d\<lparr>drawn := n\<rparr>) = used d"
  "used (d\<lparr>flow := n\<rparr>) = used d" "used (d\<lparr>active := b\<rparr>) = used d"
  "used (d\<lparr>signed := x # xs\<rparr>) = insert (snd x) (used (d\<lparr>signed := xs\<rparr>))" "used (d\<lparr>signed := signed d\<rparr>) = used d"
  by (simp_all add: used_def)

lemma inv_initial: "sessions_inv random initial_device"
  by (simp add: sessions_inv_def initial_device_def session_ok_def roots_def used_def list_all_iff)

lemma inv_round1:
  assumes "sessions_inv random d" "inj_on random {..<drawn d'}" "active d" "sid \<noteq> replicate 32 0"
    and "musigsession_round1_initialize random sid d = (s, d')"
  shows "sessions_inv random d'"
proof -
  obtain out ss where ss: "musigsession_pop sid (sessions d) = (out, ss)"
    by (cases "musigsession_pop sid (sessions d)")
  note i = assms(1) [unfolded sessions_inv_def]
  have p: "length ss = 8" "list_all session_ok ss" "distinct (roots ss)" "set (roots ss) \<subseteq> set (roots (sessions d))"
    using pop_keeps [OF ss] pop_roots [OF ss assms(4)] i by auto
  have sub: "random ` {..<drawn d} \<subseteq> random ` {..<Suc (drawn d)}"
    by auto
  show ?thesis
  proof (cases "session_id (round1 (signing d)) = sid")
    case True
    then have "d' = d\<lparr>sessions := ss\<rparr>"
      using assms(5) by (simp add: musigsession_round1_initialize_def ss)
    then show ?thesis
      using i p by (auto simp: sessions_inv_def)
  next
    case False
    let ?r = "\<lparr>session_id = sid, rand_root = random (drawn d)\<rparr>"
    have d': "d' = d\<lparr>sessions := ss, signing := (signing d)\<lparr>round1 := ?r\<rparr>, drawn := Suc (drawn d)\<rparr>"
      using assms(5) False by (auto simp: musigsession_round1_initialize_def ss)
    have fresh: "random (drawn d) \<notin> random ` {..<drawn d}"
      using assms(2) by (simp add: d' lessThan_Suc)
    have r: "?r \<noteq> zero_session" "session_ok ?r"
      using assms(4) by (simp_all add: zero_session_def session_ok_def)
    have "set (roots ss) \<subseteq> random ` {..<drawn d}" "used d \<subseteq> random ` {..<drawn d}"
      using i p(4) by auto
    then show ?thesis
      unfolding sessions_inv_def d' using i p r fresh sub by auto
  qed
qed

lemma inv_round2:
  assumes "sessions_inv random d" "active d" "sid \<noteq> replicate 32 0"
    and "musigsession_round2_initialize sid d = (Some s, d')"
  shows "sessions_inv random (d'\<lparr>signed := (flow d, rand_root s) # signed d\<rparr>)"
proof (cases "session_id (round2 (signing d)) = sid")
  note i = assms(1) [unfolded sessions_inv_def]
  case True
  then have d': "d' = d" "s = round2 (signing d)"
    using assms(4) by (auto simp: musigsession_round2_initialize_def)
  have "round2 (signing d) \<noteq> zero_session"
    using True assms(3) by (auto simp: zero_session_def)
  then have "(flow d, rand_root s) \<in> set (signed d)"
    using i assms(2) d'(2) by auto
  then have "set ((flow d, rand_root s) # signed d) = set (signed d)" "rand_root s \<in> used d"
    by (auto simp: used_def image_iff intro: bexI [rotated])
  then show ?thesis
    using i unfolding sessions_inv_def d'(1) by (simp add: insert_absorb)
next
  note i = assms(1) [unfolded sessions_inv_def]
  case False
  then obtain ss where ss: "musigsession_pop sid (sessions d) = (Some s, ss)"
      "d' = d\<lparr>sessions := ss, signing := (signing d)\<lparr>round2 := s\<rparr>\<rparr>"
    using assms(4) by (auto simp: musigsession_round2_initialize_def split: prod.splits option.splits)
  have p: "length ss = 8" "list_all session_ok ss" "distinct (roots ss)" "set (roots ss) \<subseteq> set (roots (sessions d))"
      "s \<noteq> zero_session" "rand_root s \<in> set (roots (sessions d))" "rand_root s \<notin> set (roots ss)" "session_ok s"
    using pop_keeps [OF ss(1)] pop_roots [OF ss(1) assms(3)] pop_Some [OF ss(1) assms(3)] i assms(3)
    by (auto simp: session_ok_def)
  have n: "rand_root s \<notin> used d"
    using p(6) i by auto
  then have "inj_on snd (insert (flow d, rand_root s) (set (signed d)))"
    using i by (auto simp: used_def)
  then show ?thesis
    using i p n assms(2) unfolding sessions_inv_def ss(2) by auto
qed

lemma inv_commit:
  assumes "sessions_inv random d" "active d"
  shows "sessions_inv random ((musigsession_commit d)\<lparr>active := False\<rparr>)"
proof (cases "round1 (signing d) = zero_session")
  case False
  note i = assms(1) [unfolded sessions_inv_def]
  have "length (musigsession_store (round1 (signing d)) (sessions d)) = 8
      \<and> list_all session_ok (musigsession_store (round1 (signing d)) (sessions d))
      \<and> distinct (roots (musigsession_store (round1 (signing d)) (sessions d)))
      \<and> set (roots (musigsession_store (round1 (signing d)) (sessions d)))
        \<subseteq> insert (rand_root (round1 (signing d))) (set (roots (sessions d)))"
    using i assms(2) False by (intro store_roots) auto
  then show ?thesis
    using i assms(2) False unfolding sessions_inv_def musigsession_commit_def by auto
qed (use assms in \<open>simp add: sessions_inv_def musigsession_commit_def\<close>)

lemma inv_start:
  assumes "sessions_inv random d"
  shows "sessions_inv random ((musigsession_initialize_signing_state d)\<lparr>flow := Suc (flow d), active := True\<rparr>)"
  using assms by (auto simp: sessions_inv_def musigsession_initialize_signing_state_def session_ok_def)

lemma step_drawn: "step random d d' \<Longrightarrow> drawn d \<le> drawn d'"
  by (induction rule: step.induct)
    (auto simp: musigsession_initialize_signing_state_def musigsession_round1_initialize_def
      musigsession_round2_initialize_def musigsession_commit_def Let_def split: if_splits prod.splits option.splits)

lemma step_inv:
  "step random d d' \<Longrightarrow> inj_on random {..<drawn d'} \<Longrightarrow> sessions_inv random d \<Longrightarrow> sessions_inv random d'"
proof (induction rule: step.induct)
  case (round2_missing d sid d')
  then have "d' = d"
    by (auto simp: musigsession_round2_initialize_def split: if_splits prod.splits option.splits)
  then show ?case
    using round2_missing by simp
qed (auto intro: inv_start inv_round1 inv_round2 inv_commit)

lemma reachable_inv: "reachable random d \<Longrightarrow> inj_on random {..<drawn d} \<Longrightarrow> sessions_inv random d"
proof (induction rule: rtranclp_induct)
  case (step d d')
  then have "inj_on random {..<drawn d}"
    using step_drawn by (meson inj_on_subset lessThan_subset_iff)
  then show ?case
    using step step_inv by blast
qed (rule inv_initial)

section \<open>Properties\<close>

text \<open>C33: The randomness of nonces is never used twice.  In every run of the calls, in the order that the
  module prescribes and with any identifiers and any abandoned flows, the strings from which the
  randomness for the second round is hashed differ for different flows, inputs or key expressions,
  as long as the generator has not repeated itself; and a root that has been used is no longer in
  storage.\<close>

theorem musig_randomness_fresh:
  assumes "reachable random d" and "inj_on random {..<drawn d}" and "\<And>n. length (random n) = 32"
    and "(f, r) \<in> set (signed d)" and "(f', r') \<in> set (signed d)" and "(f, i, j) \<noteq> (f', i', j')"
  shows "rand_input r i j \<noteq> rand_input r' i' j' \<and> r \<notin> set (roots (sessions d))"
proof -
  note inv = reachable_inv [OF assms(1,2), unfolded sessions_inv_def]
  have "r \<in> used d" "r' \<in> used d"
    using assms(4,5) by (auto simp: used_def image_iff intro: bexI [rotated])
  then have l: "length r = 32" "length r' = 32" and n: "r \<notin> set (roots (sessions d))"
    using inv assms(3) by auto
  have "rand_input r i j \<noteq> rand_input r' i' j'"
  proof
    assume "rand_input r i j = rand_input r' i' j'"
    then have e: "r = r'" "i = i'" "j = j'"
      using l by (simp_all add: rand_input_def u32_be_inj)
    moreover have "f = f'"
      using inv assms(4,5) e(1) inj_onD [of snd "set (signed d)" "(f, r)" "(f', r')"] by simp
    ultimately show False
      using assms(6) by simp
  qed
  with n show ?thesis by simp
qed

text \<open>Two flows with rounds 1 and 2 of one session, then both rounds of a second session in one flow each.\<close>

definition example_random :: "nat \<Rightarrow> bytes" where
  "example_random n = to_base 32 (Suc n)"

definition example_flow :: "bytes \<Rightarrow> device \<Rightarrow> device" where
  "example_flow sid d =
     (let d = (musigsession_initialize_signing_state d)\<lparr>flow := Suc (flow d), active := True\<rparr>;
          d = snd (musigsession_round1_initialize example_random sid d);
          d = (musigsession_commit d)\<lparr>active := False\<rparr>;
          d = (musigsession_initialize_signing_state d)\<lparr>flow := Suc (flow d), active := True\<rparr>
      in case musigsession_round2_initialize sid d of
           (None, d) \<Rightarrow> d
         | (Some s, d') \<Rightarrow> d'\<lparr>signed := (flow d, rand_root s) # signed d\<rparr>)"

lemma example_flow_reachable:
  assumes "reachable example_random d" "sid \<noteq> replicate 32 0"
  shows "reachable example_random (example_flow sid d)"
proof -
  define d1 where "d1 = (musigsession_initialize_signing_state d)\<lparr>flow := Suc (flow d), active := True\<rparr>"
  define d2 where "d2 = snd (musigsession_round1_initialize example_random sid d1)"
  define d3 where "d3 = (musigsession_commit d2)\<lparr>active := False\<rparr>"
  define d4 where "d4 = (musigsession_initialize_signing_state d3)\<lparr>flow := Suc (flow d3), active := True\<rparr>"
  have a: "active d1" "active d2" "active d4"
    by (simp_all add: d1_def d2_def d4_def musigsession_round1_initialize_def Let_def)
  have "step example_random d d1"
    unfolding d1_def by (rule step.start)
  moreover have "step example_random d1 d2"
    using a(1) assms(2) by (intro step.round1 [of d1 sid _ "fst (musigsession_round1_initialize example_random sid d1)"])
      (simp_all add: d2_def)
  moreover have "step example_random d2 d3"
    unfolding d3_def using a(2) by (rule step.commit)
  moreover have "step example_random d3 d4"
    unfolding d4_def by (rule step.start)
  ultimately have "reachable example_random d4"
    using assms(1) by (meson rtranclp.rtrancl_into_rtrancl)
  moreover have "example_flow sid d = (case musigsession_round2_initialize sid d4 of
      (None, d) \<Rightarrow> d | (Some s, d') \<Rightarrow> d'\<lparr>signed := (flow d4, rand_root s) # signed d4\<rparr>)"
    unfolding example_flow_def Let_def d4_def d3_def d2_def d1_def ..
  then have "step example_random d4 (example_flow sid d)"
    using a(3) assms(2) by (auto split: prod.splits option.splits intro: step.round2 step.round2_missing)
  ultimately show ?thesis
    by (rule rtranclp.rtrancl_into_rtrancl)
qed

definition example_sessions :: device where
  "example_sessions = example_flow (replicate 32 9) (example_flow (replicate 32 7) initial_device)"

theorem musig_randomness_fresh_witness:
  "signed example_sessions = [(4, to_base 32 2), (2, to_base 32 1)]
   \<and> rand_input (to_base 32 2) 0 0 \<noteq> rand_input (to_base 32 1) 0 0"
proof -
  have r: "reachable example_random example_sessions"
    by (simp add: example_sessions_def example_flow_reachable replicate_eqI)
  have s: "signed example_sessions = [(4, to_base 32 2), (2, to_base 32 1)]" and n: "drawn example_sessions = 2"
    by code_simp+
  have "{..<2 :: nat} = {0, 1}"
    by auto
  moreover have "example_random 0 \<noteq> example_random 1"
    by code_simp
  ultimately have i: "inj_on example_random {..<drawn example_sessions}"
    unfolding n by simp
  show ?thesis
    using musig_randomness_fresh [OF r i, of 4 "to_base 32 2" 2 "to_base 32 1" 0 0 0 0] s
    by (simp add: example_random_def)
qed

end
