(* ===== verification/Script_Compiler.thy ===== *)
theory Script_Compiler
  imports Policy_Ast Script
begin

text \<open>
  The compiler from policies to Bitcoin scripts: the stack machine of
  \<^verbatim>\<open>src/src/handler/lib/policy.c\<close>, in which every fragment is a table of commands or a processor of its
  own, and the bytes of the script are fed to a hash computation as they are produced.

  The stack \<open>nodes[0..node_stack_eos]\<close> is a list, the top first.  The bytes fed to \<open>hash_context\<close> are kept
  in \<open>hash_input\<close>; without a context (\<open>NULL\<close>) the run is the same and only the length is used.  The
  functions take two parameters: \<open>dk\<close>, what \<open>get_derived_pubkey\<close> answers for a key expression in the
  current session, and \<open>h160\<close>, the function \<open>crypto_hash160\<close>.
\<close>

section \<open>The commands\<close>

datatype generic_processor_command =
    CMD_CODE_OP u8
  | CMD_CODE_OP_V u8
  | CMD_CODE_PUSH_PK
  | CMD_CODE_PUSH_PKH
  | CMD_CODE_PUSH_UINT32
  | CMD_CODE_PUSH_HASH20
  | CMD_CODE_PUSH_HASH32
  | CMD_CODE_PROCESS_CHILD nat
  | CMD_CODE_PROCESS_CHILD_V nat
  | CMD_CODE_PROCESS_CHILD_VV nat

datatype internal_script_type =
    WRAPPED_SCRIPT_TYPE_SH | WRAPPED_SCRIPT_TYPE_SH_WSH | WRAPPED_SCRIPT_TYPE_WSH
  | WRAPPED_SCRIPT_TYPE_TAPSCRIPT

definition fragment_whitelist_sh :: "PolicyNodeType list" where
  "fragment_whitelist_sh = [TOKEN_WPKH, TOKEN_MULTI, TOKEN_SORTEDMULTI]"

definition fragment_whitelist_sh_wsh :: "PolicyNodeType list" where
  "fragment_whitelist_sh_wsh = [TOKEN_MULTI, TOKEN_SORTEDMULTI]"

definition fragment_whitelist_wsh :: "PolicyNodeType list" where
  "fragment_whitelist_wsh =
     [TOKEN_0, TOKEN_1, TOKEN_PK, TOKEN_PKH, TOKEN_PK_K, TOKEN_PK_H, TOKEN_OLDER, TOKEN_AFTER,
      TOKEN_SHA256, TOKEN_HASH256, TOKEN_RIPEMD160, TOKEN_HASH160, TOKEN_ANDOR, TOKEN_AND_V,
      TOKEN_AND_B, TOKEN_AND_N, TOKEN_MULTI, TOKEN_OR_B, TOKEN_OR_C, TOKEN_OR_D, TOKEN_OR_I,
      TOKEN_SORTEDMULTI, TOKEN_THRESH,
      TOKEN_A, TOKEN_S, TOKEN_C, TOKEN_T, TOKEN_D, TOKEN_V, TOKEN_J, TOKEN_N, TOKEN_L, TOKEN_U]"

definition fragment_whitelist_tapscript :: "PolicyNodeType list" where
  "fragment_whitelist_tapscript =
     [TOKEN_0, TOKEN_1, TOKEN_PK, TOKEN_PKH, TOKEN_PK_K, TOKEN_PK_H, TOKEN_OLDER, TOKEN_AFTER,
      TOKEN_SHA256, TOKEN_HASH256, TOKEN_RIPEMD160, TOKEN_HASH160, TOKEN_ANDOR, TOKEN_AND_V,
      TOKEN_AND_B, TOKEN_AND_N, TOKEN_MULTI_A, TOKEN_OR_B, TOKEN_OR_C, TOKEN_OR_D, TOKEN_OR_I,
      TOKEN_SORTEDMULTI_A, TOKEN_THRESH,
      TOKEN_A, TOKEN_S, TOKEN_C, TOKEN_T, TOKEN_D, TOKEN_V, TOKEN_J, TOKEN_N, TOKEN_L, TOKEN_U]"

definition whitelist :: "internal_script_type \<Rightarrow> PolicyNodeType list" where
  "whitelist t = (case t of
      WRAPPED_SCRIPT_TYPE_SH \<Rightarrow> fragment_whitelist_sh
    | WRAPPED_SCRIPT_TYPE_SH_WSH \<Rightarrow> fragment_whitelist_sh_wsh
    | WRAPPED_SCRIPT_TYPE_WSH \<Rightarrow> fragment_whitelist_wsh
    | WRAPPED_SCRIPT_TYPE_TAPSCRIPT \<Rightarrow> fragment_whitelist_tapscript)"

text \<open>The tables; the entry \<open>CMD_CODE_END\<close> is the end of the list.\<close>

definition commands_constant :: "const_tok \<Rightarrow> generic_processor_command list" where
  "commands_constant t = (case t of Tok_0 \<Rightarrow> [CMD_CODE_OP_V OP_0] | Tok_1 \<Rightarrow> [CMD_CODE_OP_V OP_1])"

definition commands_pk_k :: "generic_processor_command list" where
  "commands_pk_k = [CMD_CODE_PUSH_PK, CMD_CODE_OP_V OP_CHECKSIGVERIFY]"

definition commands_pk_h :: "generic_processor_command list" where
  "commands_pk_h =
     [CMD_CODE_OP OP_DUP, CMD_CODE_OP OP_HASH160, CMD_CODE_PUSH_PKH, CMD_CODE_OP OP_EQUALVERIFY]"

definition commands_pk :: "generic_processor_command list" where
  "commands_pk = [CMD_CODE_PUSH_PK, CMD_CODE_OP_V OP_CHECKSIG]"

definition commands_uint32 :: "uint_tok \<Rightarrow> generic_processor_command list" where
  "commands_uint32 t = (case t of
      Tok_OLDER \<Rightarrow> [CMD_CODE_PUSH_UINT32, CMD_CODE_OP_V OP_CSV]
    | Tok_AFTER \<Rightarrow> [CMD_CODE_PUSH_UINT32, CMD_CODE_OP_V OP_CLTV])"

definition commands_hash256_tok :: "hash256_tok \<Rightarrow> generic_processor_command list" where
  "commands_hash256_tok t =
     [CMD_CODE_OP OP_SIZE, CMD_CODE_OP 1, CMD_CODE_OP 32, CMD_CODE_OP OP_EQUALVERIFY,
      CMD_CODE_OP (case t of Tok_SHA256 \<Rightarrow> OP_SHA256 | Tok_HASH256 \<Rightarrow> OP_HASH256),
      CMD_CODE_PUSH_HASH32, CMD_CODE_OP_V OP_EQUAL]"

definition commands_hash160_tok :: "hash160_tok \<Rightarrow> generic_processor_command list" where
  "commands_hash160_tok t =
     [CMD_CODE_OP OP_SIZE, CMD_CODE_OP 1, CMD_CODE_OP 32, CMD_CODE_OP OP_EQUALVERIFY,
      CMD_CODE_OP (case t of Tok_RIPEMD160 \<Rightarrow> OP_RIPEMD160 | Tok_HASH160 \<Rightarrow> OP_HASH160),
      CMD_CODE_PUSH_HASH20, CMD_CODE_OP_V OP_EQUAL]"

definition commands_andor :: "generic_processor_command list" where
  "commands_andor =
     [CMD_CODE_PROCESS_CHILD 0, CMD_CODE_OP OP_NOTIF, CMD_CODE_PROCESS_CHILD 2, CMD_CODE_OP OP_ELSE,
      CMD_CODE_PROCESS_CHILD 1, CMD_CODE_OP_V OP_ENDIF]"

definition commands_script2 :: "script2_tok \<Rightarrow> generic_processor_command list" where
  "commands_script2 t = (case t of
      Tok_AND_V \<Rightarrow> [CMD_CODE_PROCESS_CHILD 0, CMD_CODE_PROCESS_CHILD_V 1]
    | Tok_AND_B \<Rightarrow> [CMD_CODE_PROCESS_CHILD 0, CMD_CODE_PROCESS_CHILD 1, CMD_CODE_OP_V OP_BOOLAND]
    | Tok_AND_N \<Rightarrow>
        [CMD_CODE_PROCESS_CHILD 0, CMD_CODE_OP OP_NOTIF, CMD_CODE_OP OP_0, CMD_CODE_OP OP_ELSE,
         CMD_CODE_PROCESS_CHILD 1, CMD_CODE_OP_V OP_ENDIF]
    | Tok_OR_B \<Rightarrow> [CMD_CODE_PROCESS_CHILD 0, CMD_CODE_PROCESS_CHILD 1, CMD_CODE_OP_V OP_BOOLOR]
    | Tok_OR_C \<Rightarrow>
        [CMD_CODE_PROCESS_CHILD 0, CMD_CODE_OP OP_NOTIF, CMD_CODE_PROCESS_CHILD 1,
         CMD_CODE_OP_V OP_ENDIF]
    | Tok_OR_D \<Rightarrow>
        [CMD_CODE_PROCESS_CHILD 0, CMD_CODE_OP OP_IFDUP, CMD_CODE_OP OP_NOTIF,
         CMD_CODE_PROCESS_CHILD 1, CMD_CODE_OP_V OP_ENDIF]
    | Tok_OR_I \<Rightarrow>
        [CMD_CODE_OP OP_IF, CMD_CODE_PROCESS_CHILD 0, CMD_CODE_OP OP_ELSE, CMD_CODE_PROCESS_CHILD 1,
         CMD_CODE_OP_V OP_ENDIF])"

definition commands_wrapper :: "wrap_tok \<Rightarrow> generic_processor_command list" where
  "commands_wrapper w = (case w of
      Tok_A \<Rightarrow> [CMD_CODE_OP OP_TOALTSTACK, CMD_CODE_PROCESS_CHILD 0, CMD_CODE_OP OP_FROMALTSTACK]
    | Tok_S \<Rightarrow> [CMD_CODE_OP OP_SWAP, CMD_CODE_PROCESS_CHILD 0]
    | Tok_C \<Rightarrow> [CMD_CODE_PROCESS_CHILD 0, CMD_CODE_OP_V OP_CHECKSIG]
    | Tok_T \<Rightarrow> [CMD_CODE_PROCESS_CHILD 0, CMD_CODE_OP_V OP_1]
    | Tok_D \<Rightarrow>
        [CMD_CODE_OP OP_DUP, CMD_CODE_OP OP_IF, CMD_CODE_PROCESS_CHILD 0, CMD_CODE_OP_V OP_ENDIF]
    | Tok_V \<Rightarrow> [CMD_CODE_PROCESS_CHILD_VV 0]
    | Tok_J \<Rightarrow>
        [CMD_CODE_OP OP_SIZE, CMD_CODE_OP OP_0NOTEQUAL, CMD_CODE_OP OP_IF, CMD_CODE_PROCESS_CHILD 0,
         CMD_CODE_OP_V OP_ENDIF]
    | Tok_N \<Rightarrow> [CMD_CODE_PROCESS_CHILD 0, CMD_CODE_OP_V OP_0NOTEQUAL]
    | Tok_L \<Rightarrow>
        [CMD_CODE_OP OP_IF, CMD_CODE_OP OP_0, CMD_CODE_OP OP_ELSE, CMD_CODE_PROCESS_CHILD 0,
         CMD_CODE_OP_V OP_ENDIF]
    | Tok_U \<Rightarrow>
        [CMD_CODE_OP OP_IF, CMD_CODE_PROCESS_CHILD 0, CMD_CODE_OP OP_ELSE, CMD_CODE_OP OP_0,
         CMD_CODE_OP_V OP_ENDIF])"

section \<open>The state\<close>

abbreviation (input) MAX_POLICY_DEPTH :: nat where "MAX_POLICY_DEPTH \<equiv> 12"

abbreviation (input) PROCESSOR_FLAG_V :: u8 where "PROCESSOR_FLAG_V \<equiv> 1"

record policy_parser_node_state =
  node_policy :: policy_node
  node_length :: u16
  node_step :: u8
  node_pflags :: u8

record policy_parser_state =
  is_taproot :: bool
  nodes :: "policy_parser_node_state list"
  hash_input :: bytes

definition state_stack_push ::
    "policy_parser_state \<Rightarrow> policy_node \<Rightarrow> u8 \<Rightarrow> policy_parser_state option" where
  "state_stack_push state policy_node flags =
     (if length (nodes state) \<ge> MAX_POLICY_DEPTH then None
      else Some (state\<lparr>nodes :=
        \<lparr>node_policy = policy_node, node_length = 0, node_step = 0, node_pflags = flags\<rparr> # nodes state\<rparr>))"

definition state_stack_pop :: "policy_parser_state \<Rightarrow> (u16 \<times> policy_parser_state) option" where
  "state_stack_pop state = (case nodes state of
      [] \<Rightarrow> None
    | [node] \<Rightarrow> Some (node_length node, state\<lparr>nodes := []\<rparr>)
    | node # parent # rest \<Rightarrow>
        Some (node_length node,
          state\<lparr>nodes := parent\<lparr>node_length := node_length parent + node_length node\<rparr> # rest\<rparr>))"

text \<open>A processor answers \<open>None\<close> for -1, otherwise whether the node is finished.\<close>

type_synonym processor = "policy_parser_state \<Rightarrow> (bool \<times> policy_parser_state) option"

definition execute_processor ::
    "processor \<Rightarrow> policy_parser_state \<Rightarrow> (u16 \<times> policy_parser_state) option" where
  "execute_processor proc state =
     do { (finished, state) \<leftarrow> proc state;
          if finished then state_stack_pop state else Some (0, state) }"

text \<open>Updates of the node on the top of the stack.\<close>

definition map_top ::
    "(policy_parser_node_state \<Rightarrow> policy_parser_node_state) \<Rightarrow> policy_parser_state \<Rightarrow> policy_parser_state" where
  "map_top f state = (case nodes state of [] \<Rightarrow> state | node # rest \<Rightarrow> state\<lparr>nodes := f node # rest\<rparr>)"

section \<open>Output\<close>

definition update_output :: "bytes \<Rightarrow> policy_parser_state \<Rightarrow> policy_parser_state" where
  "update_output data state =
     (map_top (\<lambda>node. node\<lparr>node_length := node_length node + word_of_nat (length data)\<rparr>) state)
       \<lparr>hash_input := hash_input state @ data\<rparr>"

definition update_output_u8 :: "u8 \<Rightarrow> policy_parser_state \<Rightarrow> policy_parser_state" where
  "update_output_u8 data = update_output [data]"

definition update_output_push_u32 :: "u32 \<Rightarrow> policy_parser_state \<Rightarrow> policy_parser_state" where
  "update_output_push_u32 n state =
     (if n = 0 then update_output_u8 OP_0 state
      else if n \<le> 16 then update_output_u8 (0x50 + ucast n) state
      else
        let n_le = the (write_u32_le (replicate 4 0) 0 n);
            byte_size =
              (if n \<le> 0x7f then 1 else if n \<le> 0x7fff then 2 else if n \<le> 0x7fffff then 3
               else if n \<le> 0x7fffffff then 4 else 5 :: u8);
            state = update_output_u8 byte_size state
        in if byte_size < 5 then update_output (take (unat byte_size) n_le) state
           else update_output_u8 0 (update_output (take 4 n_le) state))"

definition update_output_op_v :: "u8 \<Rightarrow> policy_parser_state \<Rightarrow> policy_parser_state" where
  "update_output_op_v op state =
     (if nodes state \<noteq> [] \<and> node_pflags (hd (nodes state)) AND PROCESSOR_FLAG_V \<noteq> 0 then
        if op = OP_CHECKSIG \<or> op = OP_CHECKMULTISIG \<or> op = OP_NUMEQUAL \<or> op = OP_EQUAL
          \<or> op = OP_CHECKSIGVERIFY
        then update_output_u8 (op + 1) state
        else update_output_u8 OP_VERIFY (update_output_u8 op state)
      else update_output_u8 op state)"

section \<open>The processors\<close>

text \<open>The members that a command reads after casting the node to the structure of its tag.\<close>

fun node_scripts :: "policy_node \<Rightarrow> policy_node list" where
  "node_scripts (With_wrapper _ _ x) = [x]"
| "node_scripts (With_script2 _ _ x y) = [x, y]"
| "node_scripts (With_script3 _ x y z) = [x, y, z]"
| "node_scripts _ = []"

fun node_key :: "policy_node \<Rightarrow> policy_node_keyexpr option" where
  "node_key (With_key _ _ k) = Some k"
| "node_key _ = None"

fun node_uint32 :: "policy_node \<Rightarrow> u32 option" where
  "node_uint32 (With_uint32 _ _ n) = Some n"
| "node_uint32 _ = None"

fun node_hash :: "policy_node \<Rightarrow> bytes option" where
  "node_hash (With_hash256 _ _ h) = Some h"
| "node_hash (With_hash160 _ _ h) = Some h"
| "node_hash _ = None"

text \<open>The key as it is pushed or hashed: x-only within taproot.\<close>

definition script_key :: "bool \<Rightarrow> bytes \<Rightarrow> bytes" where
  "script_key tap pubkey = (if tap then drop 1 pubkey else pubkey)"

definition push_child :: "policy_node \<Rightarrow> nat \<Rightarrow> u8 \<Rightarrow> policy_parser_state \<Rightarrow> policy_parser_state option" where
  "push_child node i flags state =
     (if i < length (node_scripts node) then state_stack_push state (node_scripts node ! i) flags else None)"

fun run_command ::
    "(policy_node_keyexpr \<Rightarrow> bytes option) \<Rightarrow> (bytes \<Rightarrow> bytes) \<Rightarrow> policy_node \<Rightarrow> u8 \<Rightarrow>
     generic_processor_command \<Rightarrow> policy_parser_state \<Rightarrow> policy_parser_state option" where
  "run_command dk h160 node flags (CMD_CODE_OP op) state = Some (update_output_u8 op state)"
| "run_command dk h160 node flags (CMD_CODE_OP_V op) state = Some (update_output_op_v op state)"
| "run_command dk h160 node flags CMD_CODE_PUSH_PK state =
     do { k \<leftarrow> node_key node;
          compressed_pubkey \<leftarrow> dk k;
          Some (if \<not> is_taproot state
                then update_output compressed_pubkey (update_output_u8 33 state)
                else update_output (drop 1 compressed_pubkey) (update_output_u8 32 state)) }"
| "run_command dk h160 node flags CMD_CODE_PUSH_PKH state =
     do { k \<leftarrow> node_key node;
          compressed_pubkey \<leftarrow> dk k;
          Some (update_output (h160 (script_key (is_taproot state) compressed_pubkey))
                 (update_output_u8 20 state)) }"
| "run_command dk h160 node flags CMD_CODE_PUSH_UINT32 state =
     do { n \<leftarrow> node_uint32 node; Some (update_output_push_u32 n state) }"
| "run_command dk h160 node flags CMD_CODE_PUSH_HASH20 state =
     do { h \<leftarrow> node_hash node; Some (update_output (take 20 h) (update_output_u8 20 state)) }"
| "run_command dk h160 node flags CMD_CODE_PUSH_HASH32 state =
     do { h \<leftarrow> node_hash node; Some (update_output (take 32 h) (update_output_u8 32 state)) }"
| "run_command dk h160 node flags (CMD_CODE_PROCESS_CHILD i) state = push_child node i 0 state"
| "run_command dk h160 node flags (CMD_CODE_PROCESS_CHILD_V i) state = push_child node i flags state"
| "run_command dk h160 node flags (CMD_CODE_PROCESS_CHILD_VV i) state =
     push_child node i (flags OR PROCESSOR_FLAG_V) state"

text \<open>The increment of \<open>node->step\<close> is done before the command, which does not look at it, so that it
  acts on the node and not on a child that the command has pushed.\<close>

definition next_step :: "policy_parser_state \<Rightarrow> policy_parser_state" where
  "next_step = map_top (\<lambda>node. node\<lparr>node_step := node_step node + 1\<rparr>)"

definition process_generic_node ::
    "(policy_node_keyexpr \<Rightarrow> bytes option) \<Rightarrow> (bytes \<Rightarrow> bytes) \<Rightarrow> generic_processor_command list \<Rightarrow> processor"
  where
  "process_generic_node dk h160 commands state = (case nodes state of
      [] \<Rightarrow> None
    | node # _ \<Rightarrow>
        let step = unat (node_step node) in
        if step > length commands then None
        else if step = length commands then Some (True, state)
        else do {
          state \<leftarrow> run_command dk h160 (node_policy node) (node_pflags node) (commands ! step) (next_step state);
          Some (False, state) })"

definition process_pkh_wpkh_node ::
    "(policy_node_keyexpr \<Rightarrow> bytes option) \<Rightarrow> (bytes \<Rightarrow> bytes) \<Rightarrow> processor" where
  "process_pkh_wpkh_node dk h160 state = (case nodes state of
      [] \<Rightarrow> None
    | node # _ \<Rightarrow>
        if node_step node \<noteq> 0 then None
        else do {
          k \<leftarrow> node_key (node_policy node);
          compressed_pubkey \<leftarrow> dk k;
          if node_type (node_policy node) = TOKEN_PKH then
            let state = update_output_u8 OP_DUP state;
                state = update_output_u8 OP_HASH160 state;
                state = update_output_u8 20 state;
                state = update_output (h160 (script_key (is_taproot state) compressed_pubkey)) state;
                state = update_output_u8 OP_EQUALVERIFY state
            in Some (True, update_output_op_v OP_CHECKSIG state)
          else if is_taproot state then None
          else
            let state = update_output_u8 OP_0 state;
                state = update_output_u8 20 state
            in Some (True, update_output (h160 compressed_pubkey) state) })"

definition process_thresh_node :: processor where
  "process_thresh_node state = (case nodes state of
      [] \<Rightarrow> None
    | node # _ \<Rightarrow>
       (case node_policy node of
          Thresh _ k xs \<Rightarrow>
            if unat (node_step node) < length xs then
              let cur = xs ! unat (node_step node);
                  state = (if node_step node > 1 then update_output_u8 OP_ADD state else state)
              in do { state \<leftarrow> state_stack_push (next_step state) cur 0; Some (False, state) }
            else
              let state = (if length xs \<ge> 2 then update_output_u8 OP_ADD state else state);
                  state = update_output_push_u32 (word_of_nat k) state
              in Some (True, update_output_op_v OP_EQUAL state)
        | _ \<Rightarrow> None))"

section \<open>Multisig\<close>

definition cmp_arrays :: "bytes \<Rightarrow> bytes \<Rightarrow> int" where
  "cmp_arrays a b =
     (case dropWhile (\<lambda>(x, y). x = y) (zip a b) of [] \<Rightarrow> 0 | (x, y) # _ \<Rightarrow> uint x - uint y)"

text \<open>The inner loop over the keys from index \<open>j\<close>: \<open>best\<close> is the content of \<open>compressed_pubkey\<close> and \<open>index\<close> the
  variable \<open>smallest_pubkey_index\<close>.  The prefix byte is ignored when \<open>tap\<close>.\<close>

fun smallest_pubkey ::
    "(policy_node_keyexpr \<Rightarrow> bytes option) \<Rightarrow> bool \<Rightarrow> bytes \<Rightarrow> u32 \<Rightarrow> policy_node_keyexpr list \<Rightarrow>
     bytes \<Rightarrow> u32 \<Rightarrow> (bytes \<times> u32) option" where
  "smallest_pubkey dk tap used j [] best index = Some (best, index)"
| "smallest_pubkey dk tap used j (k # ks) best index =
     do {
       is_used \<leftarrow> bitvector_get used j;
       if is_used then smallest_pubkey dk tap used (j + 1) ks best index
       else do {
         cur_pubkey \<leftarrow> dk k;
         if cmp_arrays (script_key tap best) (script_key tap cur_pubkey) > 0
         then smallest_pubkey dk tap used (j + 1) ks cur_pubkey j
         else smallest_pubkey dk tap used (j + 1) ks best index } }"

text \<open>The keys in the order in which the outer loop emits them, for \<open>n\<close> iterations.\<close>

fun sorted_pubkeys ::
    "(policy_node_keyexpr \<Rightarrow> bytes option) \<Rightarrow> bool \<Rightarrow> policy_node_keyexpr list \<Rightarrow> nat \<Rightarrow> bytes \<Rightarrow>
     bytes list option" where
  "sorted_pubkeys dk tap ks 0 used = Some []"
| "sorted_pubkeys dk tap ks (Suc n) used =
     do {
       (compressed_pubkey, index) \<leftarrow> smallest_pubkey dk tap used 0 ks (replicate 33 0xFF) (- 1);
       used \<leftarrow> bitvector_set used index True;
       rest \<leftarrow> sorted_pubkeys dk tap ks n used;
       Some (compressed_pubkey # rest) }"

definition multi_pubkeys ::
    "(policy_node_keyexpr \<Rightarrow> bytes option) \<Rightarrow> multi_tok \<Rightarrow> policy_node_keyexpr list \<Rightarrow> bytes list option" where
  "multi_pubkeys dk t ks = (case t of
      Tok_MULTI \<Rightarrow> those (map dk ks)
    | Tok_MULTI_A \<Rightarrow> those (map dk ks)
    | Tok_SORTEDMULTI \<Rightarrow> sorted_pubkeys dk False ks (length ks) [0, 0]
    | Tok_SORTEDMULTI_A \<Rightarrow> sorted_pubkeys dk True ks (length ks) [0, 0])"

definition process_multi_sortedmulti_node ::
    "(policy_node_keyexpr \<Rightarrow> bytes option) \<Rightarrow> processor" where
  "process_multi_sortedmulti_node dk state = (case nodes state of
      [] \<Rightarrow> None
    | node # _ \<Rightarrow>
       (case node_policy node of
          Multisig t _ k ks \<Rightarrow>
            if length ks > 16 then None
            else do {
              pubkeys \<leftarrow> multi_pubkeys dk t ks;
              let state = update_output_u8 (0x50 + word_of_nat k) state;
              let state = fold (\<lambda>pubkey state. update_output pubkey (update_output_u8 0x21 state)) pubkeys state;
              let state = update_output_u8 (0x50 + word_of_nat (length ks)) state;
              Some (True, update_output_op_v OP_CHECKMULTISIG state) }
        | _ \<Rightarrow> None))"

definition process_multi_a_sortedmulti_a_node ::
    "(policy_node_keyexpr \<Rightarrow> bytes option) \<Rightarrow> processor" where
  "process_multi_a_sortedmulti_a_node dk state = (case nodes state of
      [] \<Rightarrow> None
    | node # _ \<Rightarrow>
       (case node_policy node of
          Multisig t _ k ks \<Rightarrow>
            if k > 16 then None
            else do {
              pubkeys \<leftarrow> multi_pubkeys dk t ks;
              let state = fold (\<lambda>(i, pubkey) state.
                let state = update_output (drop 1 pubkey) (update_output_u8 0x20 state)
                in if i = 0 then update_output_u8 OP_CHECKSIG state
                   else update_output_u8 OP_CHECKSIGADD state) (enumerate (0::nat) pubkeys) state;
              let state = update_output_u8 (0x50 + word_of_nat k) state;
              Some (True, update_output_op_v OP_NUMEQUAL state) }
        | _ \<Rightarrow> None))"

section \<open>The machine\<close>

fun process_node ::
    "(policy_node_keyexpr \<Rightarrow> bytes option) \<Rightarrow> (bytes \<Rightarrow> bytes) \<Rightarrow> policy_node \<Rightarrow> processor" where
  "process_node dk h160 (Constant t _) = process_generic_node dk h160 (commands_constant t)"
| "process_node dk h160 (With_key t _ _) = (case t of
      Tok_PK_K \<Rightarrow> process_generic_node dk h160 commands_pk_k
    | Tok_PK_H \<Rightarrow> process_generic_node dk h160 commands_pk_h
    | Tok_PK \<Rightarrow> process_generic_node dk h160 commands_pk
    | Tok_PKH \<Rightarrow> process_pkh_wpkh_node dk h160
    | Tok_WPKH \<Rightarrow> process_pkh_wpkh_node dk h160)"
| "process_node dk h160 (With_uint32 t _ _) = process_generic_node dk h160 (commands_uint32 t)"
| "process_node dk h160 (With_hash256 t _ _) = process_generic_node dk h160 (commands_hash256_tok t)"
| "process_node dk h160 (With_hash160 t _ _) = process_generic_node dk h160 (commands_hash160_tok t)"
| "process_node dk h160 (With_script3 _ _ _ _) = process_generic_node dk h160 commands_andor"
| "process_node dk h160 (With_script2 t _ _ _) = process_generic_node dk h160 (commands_script2 t)"
| "process_node dk h160 (Thresh _ _ _) = process_thresh_node"
| "process_node dk h160 (Multisig t _ _ _) =
     (if t = Tok_MULTI \<or> t = Tok_SORTEDMULTI then process_multi_sortedmulti_node dk
      else process_multi_a_sortedmulti_a_node dk)"
| "process_node dk h160 (With_wrapper w _ _) = process_generic_node dk h160 (commands_wrapper w)"
| "process_node dk h160 (With_sh _ _) = (\<lambda>_. None)"
| "process_node dk h160 (Tr _ _) = (\<lambda>_. None)"

text \<open>One iteration of the loop of \<open>get_wallet_internal_script_hash\<close>, with the value of \<open>ret\<close>.\<close>

definition machine_step ::
    "(policy_node_keyexpr \<Rightarrow> bytes option) \<Rightarrow> (bytes \<Rightarrow> bytes) \<Rightarrow> PolicyNodeType list \<Rightarrow>
     policy_parser_state \<Rightarrow> (u16 \<times> policy_parser_state) option" where
  "machine_step dk h160 wl state = (case nodes state of
      [] \<Rightarrow> None
    | node # _ \<Rightarrow>
        if node_type (node_policy node) \<notin> set wl then None
        else execute_processor (process_node dk h160 (node_policy node)) state)"

text \<open>The loop may in principle run forever, so it has fuel, and running out of it is told apart from an
  error and from a result (the length returned and the bytes given to the hash).\<close>

datatype outcome = Out_of_fuel | Failed | Finished u16 bytes

fun machine_run ::
    "(policy_node_keyexpr \<Rightarrow> bytes option) \<Rightarrow> (bytes \<Rightarrow> bytes) \<Rightarrow> PolicyNodeType list \<Rightarrow> nat \<Rightarrow>
     policy_parser_state \<Rightarrow> outcome" where
  "machine_run dk h160 wl 0 state = Out_of_fuel"
| "machine_run dk h160 wl (Suc fuel) state = (case machine_step dk h160 wl state of
      None \<Rightarrow> Failed
    | Some (ret, state) \<Rightarrow>
        if nodes state = [] then Finished ret (hash_input state) else machine_run dk h160 wl fuel state)"

definition get_wallet_internal_script_hash ::
    "nat \<Rightarrow> (policy_node_keyexpr \<Rightarrow> bytes option) \<Rightarrow> (bytes \<Rightarrow> bytes) \<Rightarrow> policy_node \<Rightarrow> internal_script_type \<Rightarrow>
     bytes \<Rightarrow> outcome" where
  "get_wallet_internal_script_hash fuel dk h160 policy script_type hash_context =
     machine_run dk h160 (whitelist script_type) fuel
       \<lparr>is_taproot = (script_type = WRAPPED_SCRIPT_TYPE_TAPSCRIPT),
        nodes = [\<lparr>node_policy = policy, node_length = 0, node_step = 0, node_pflags = 0\<rparr>],
        hash_input = hash_context\<rparr>"

end
