(* ===== verification/Key_Sorting.thy ===== *)
theory Key_Sorting
  imports Script_Compiler "HOL-Library.List_Lexorder" "HOL-Library.Multiset"
begin

text \<open>
  The order of the keys in \<open>sortedmulti\<close> and \<open>sortedmulti_a\<close>: the quadratic search of \<^verbatim>\<open>policy.c\<close>, which
  marks the keys already emitted in a bit vector, yields the sorted list of the keys.
\<close>

lemma cmp_arrays_pos_iff: "length a = length b \<Longrightarrow> cmp_arrays a b > 0 \<longleftrightarrow> b < a"
proof (induction a b rule: list_induct2)
  case (Cons x xs y ys)
  show ?case
    using Cons.IH by (cases "x = y") (auto simp: cmp_arrays_def word_less_def)
qed (simp add: cmp_arrays_def)

text \<open>The derived keys, as compressed points: the first byte is the sign, the rest a coordinate, which is
  less than the field's prime and so not all ones.\<close>

definition compressed_point :: "bytes \<Rightarrow> bool" where
  "compressed_point pk \<longleftrightarrow> length pk = 33 \<and> hd pk < 0xFF \<and> drop 1 pk \<noteq> replicate 32 0xFF"

lemma le_all_ones: "length b = n \<Longrightarrow> b \<le> replicate n (0xFF :: u8)"
proof (induction n arbitrary: b)
  case (Suc n)
  then obtain x xs where b: "b = x # xs" "length xs = n"
    by (cases b) auto
  have "x \<le> 0xFF"
    using unat_u8_bound [of x] by (simp add: word_le_nat_alt)
  then show ?case
    using Suc.IH [OF b(2)] b(1) by (auto simp: less_le)
qed simp

lemma script_key_less:
  assumes "compressed_point pk"
  shows "script_key tap pk < script_key tap (replicate 33 0xFF)" "length (script_key tap pk) = (if tap then 32 else 33)"
proof -
  obtain x xs where pk: "pk = x # xs" "length xs = 32" "x < 0xFF" "xs \<noteq> replicate 32 0xFF"
    using assms by (cases pk) (auto simp: compressed_point_def)
  have "replicate 33 (0xFF :: u8) = 0xFF # replicate 32 0xFF"
    by (simp add: numeral_eq_Suc)
  then show "script_key tap pk < script_key tap (replicate 33 0xFF)"
    using pk le_all_ones [OF pk(2)] by (auto simp: script_key_def less_le)
  show "length (script_key tap pk) = (if tap then 32 else 33)"
    using pk by (simp add: script_key_def)
qed

text \<open>The bit vector \<open>used\<close> holds the set \<open>U\<close> of the indices already emitted.\<close>

definition marks :: "bytes \<Rightarrow> nat set \<Rightarrow> bool" where
  "marks used U \<longleftrightarrow> (\<forall>i<16. bitvector_get used (word_of_nat i) = Some (i \<in> U))"

lemma marks_empty: "marks [0, 0] {}"
  unfolding marks_def
proof (intro allI impI)
  fix i :: nat
  assume i: "i < 16"
  then have u: "unat (word_of_nat i div 8 :: u32) = i div 8"
    by (simp add: unat_div unat_of_nat_u32)
  have "i div 8 = 0 \<or> i div 8 = 1"
    using i by linarith
  then have "rd [0, 0 :: u8] (word_of_nat i div 8) = Some 0"
    by (auto simp: rd_def u)
  then show "bitvector_get [0, 0] (word_of_nat i) = Some (i \<in> {})"
    by (simp add: bitvector_get_bit)
qed

lemma word_of_nat_inj_u32:
  assumes "word_of_nat i = (word_of_nat j :: u32)" "i < 4294967296" "j < 4294967296"
  shows "i = j"
  using arg_cong [OF assms(1), of unat] assms(2,3) by (simp add: unat_of_nat_u32)

lemma marks_set:
  assumes "marks used U" "i < 16"
  obtains used' where "bitvector_set used (word_of_nat i) True = Some used'" "marks used' (insert i U)"
proof -
  have "bitvector_get used (word_of_nat i) \<noteq> None"
    using assms by (simp add: marks_def)
  then obtain used' where set: "bitvector_set used (word_of_nat i) True = Some used'"
    by (auto simp: bitvector_get_def bitvector_set_def Let_def wr_def rd_def split: if_splits Option.bind_splits)
  have "j = i" if "j < 16" "word_of_nat j = (word_of_nat i :: u32)" for j
    using word_of_nat_inj_u32 [OF that(2)] that(1) assms(2) by simp
  then have "marks used' (insert i U)"
    using assms by (auto simp: marks_def bitvector_get_set [OF set])
  then show ?thesis
    using set that by blast
qed

text \<open>The inner loop finds the first smallest of the keys not yet emitted, from index \<open>j\<close>, if it is smaller
  than \<open>best\<close>.\<close>

definition least_from :: "(bytes \<Rightarrow> bytes) \<Rightarrow> bytes list \<Rightarrow> nat set \<Rightarrow> nat \<Rightarrow> bytes \<Rightarrow> bool" where
  "least_from sk pks U j b \<longleftrightarrow> (\<forall>k. j \<le> k \<and> k < length pks \<and> k \<notin> U \<longrightarrow> sk b \<le> sk (pks ! k))"

definition smallest_found ::
    "(bytes \<Rightarrow> bytes) \<Rightarrow> bytes list \<Rightarrow> nat set \<Rightarrow> nat \<Rightarrow> bytes \<Rightarrow> u32 \<Rightarrow> bytes \<Rightarrow> u32 \<Rightarrow> bool" where
  "smallest_found sk pks U j best index b i \<longleftrightarrow> least_from sk pks U j b \<and>
     (b = best \<and> i = index
      \<or> (\<exists>m<length pks. i = word_of_nat m \<and> m \<notin> U \<and> b = pks ! m \<and> sk b < sk best))"

lemma least_from_Suc:
  assumes "j < length pks"
  shows "least_from sk pks U j b \<longleftrightarrow> (j \<notin> U \<longrightarrow> sk b \<le> sk (pks ! j)) \<and> least_from sk pks U (Suc j) b"
proof
  show "least_from sk pks U j b \<Longrightarrow> (j \<notin> U \<longrightarrow> sk b \<le> sk (pks ! j)) \<and> least_from sk pks U (Suc j) b"
    using assms by (simp add: least_from_def)
  show "least_from sk pks U j b" if "(j \<notin> U \<longrightarrow> sk b \<le> sk (pks ! j)) \<and> least_from sk pks U (Suc j) b"
    unfolding least_from_def
  proof (intro allI impI)
    fix k
    assume "j \<le> k \<and> k < length pks \<and> k \<notin> U"
    then show "sk b \<le> sk (pks ! k)"
      using that by (cases "k = j") (simp_all add: least_from_def)
  qed
qed

lemma smallest_found_take:
  assumes "j < length pks" "j \<notin> U" "sk (pks ! j) < sk best"
    and "smallest_found sk pks U (Suc j) (pks ! j) (word_of_nat j) b i"
  shows "smallest_found sk pks U j best index b i"
proof -
  have "sk b \<le> sk (pks ! j)"
    using assms(4) by (auto simp: smallest_found_def)
  moreover from this have "sk b < sk best"
    using assms(3) by simp
  ultimately show ?thesis
    using assms(1,2,4) unfolding smallest_found_def least_from_Suc [OF assms(1)] by blast
qed

lemma smallest_found_skip:
  assumes "j < length pks" "j \<in> U \<or> sk best \<le> sk (pks ! j)"
    and "smallest_found sk pks U (Suc j) best index b i"
  shows "smallest_found sk pks U j best index b i"
  using assms(2,3) unfolding smallest_found_def least_from_Suc [OF assms(1)] by auto

lemma smallest_pubkey_found:
  assumes n: "length ks \<le> 16" "length pks = length ks" and used: "marks used U"
    and dk: "\<And>i. i < length ks \<Longrightarrow> dk (ks ! i) = Some (pks ! i)"
    and pt: "\<And>i. i < length ks \<Longrightarrow> length (pks ! i) = 33"
    and j: "j \<le> length ks" and best: "length best = 33"
  shows "\<exists>b i. smallest_pubkey dk tap used (word_of_nat j) (drop j ks) best index = Some (b, i)
    \<and> smallest_found (script_key tap) pks U j best index b i"
  using j best
proof (induction "length ks - j" arbitrary: j best index)
  case 0
  then show ?case
    using n(2) by (auto simp: smallest_found_def least_from_def)
next
  case (Suc n)
  then have j: "j < length ks" "j < length pks" and d: "drop j ks = ks ! j # drop (Suc j) ks"
    using n(2) by (simp_all add: take_drop_Cons_nth)
  have get: "bitvector_get used (word_of_nat j) = Some (j \<in> U)"
    using used j n by (simp add: marks_def)
  have cmp: "0 < cmp_arrays (script_key tap best) (script_key tap (pks ! j)) \<longleftrightarrow>
      script_key tap (pks ! j) < script_key tap best"
    using pt [OF j(1)] Suc.prems(2) by (intro cmp_arrays_pos_iff) (simp add: script_key_def)
  have n: "n = length ks - Suc j" "Suc j \<le> length ks"
    using Suc.hyps(2) j by simp_all
  have w: "word_of_nat j + 1 = (word_of_nat (Suc j) :: u32)"
    by simp
  show ?case
  proof (cases "j \<notin> U \<and> script_key tap (pks ! j) < script_key tap best")
    case True
    from Suc.hyps(1) [OF n pt [OF j(1)], of "word_of_nat j"] obtain b i
      where run: "smallest_pubkey dk tap used (word_of_nat (Suc j)) (drop (Suc j) ks) (pks ! j) (word_of_nat j) = Some (b, i)"
        and f: "smallest_found (script_key tap) pks U (Suc j) (pks ! j) (word_of_nat j) b i"
      by blast
    have "smallest_pubkey dk tap used (word_of_nat j) (drop j ks) best index = Some (b, i)"
      using run True get cmp dk [OF j(1)] by (simp only: d smallest_pubkey.simps w) simp
    then show ?thesis
      using smallest_found_take [OF j(2) _ _ f] True by blast
  next
    case False
    from Suc.hyps(1) [OF n Suc.prems(2), of index] obtain b i
      where run: "smallest_pubkey dk tap used (word_of_nat (Suc j)) (drop (Suc j) ks) best index = Some (b, i)"
        and f: "smallest_found (script_key tap) pks U (Suc j) best index b i"
      by blast
    have "smallest_pubkey dk tap used (word_of_nat j) (drop j ks) best index = Some (b, i)"
      using run False get cmp dk [OF j(1)] by (simp only: d smallest_pubkey.simps w) auto
    then show ?thesis
      using smallest_found_skip [OF j(2) _ f] False by (auto simp: not_less)
  qed
qed

text \<open>The outer loop.\<close>

definition unused_keys :: "(bytes \<Rightarrow> bytes) \<Rightarrow> bytes list \<Rightarrow> nat set \<Rightarrow> bytes multiset" where
  "unused_keys sk pks U = image_mset (\<lambda>i. sk (pks ! i)) (mset_set ({..<length pks} - U))"

lemma sorted_pubkeys_spec:
  assumes n: "length ks \<le> 16" "length pks = length ks"
    and dk: "\<And>i. i < length ks \<Longrightarrow> dk (ks ! i) = Some (pks ! i)"
    and pt: "\<And>i. i < length ks \<Longrightarrow> compressed_point (pks ! i)"
    and "marks used U" "card ({..<length ks} - U) = m"
  shows "\<exists>rs. sorted_pubkeys dk tap ks m used = Some rs \<and> sorted (map (script_key tap) rs)
    \<and> mset (map (script_key tap) rs) = unused_keys (script_key tap) pks U"
  using assms(5,6)
proof (induction m arbitrary: used U)
  case 0
  then have none: "{..<length ks} - U = {}"
    by simp
  show ?case
    unfolding unused_keys_def n(2) none by simp
next
  case (Suc m)
  let ?sk = "script_key tap"
  have len: "\<And>i. i < length ks \<Longrightarrow> length (pks ! i) = 33"
    using pt by (simp add: compressed_point_def)
  have "{..<length ks} - U \<noteq> {}"
    using Suc.prems(2) by (metis card.empty nat.distinct(1))
  then obtain k where k: "k < length ks" "k \<notin> U"
    by blast
  define ff :: bytes where "ff = replicate 33 0xFF"
  have ff: "length ff = 33" "\<not> ?sk ff \<le> ?sk (pks ! k)"
    unfolding ff_def using script_key_less(1) [OF pt [OF k(1)], of tap] by simp_all
  have "\<exists>b i. smallest_pubkey dk tap used (word_of_nat 0) (drop 0 ks) ff (- 1) = Some (b, i)
      \<and> smallest_found ?sk pks U 0 ff (- 1) b i"
    by (rule smallest_pubkey_found [OF n Suc.prems(1) dk len le0 ff(1)])
  then obtain b i where run: "smallest_pubkey dk tap used 0 ks ff (- 1) = Some (b, i)"
    and f: "smallest_found ?sk pks U 0 ff (- 1) b i"
    by auto
  have least: "?sk b \<le> ?sk (pks ! k)" if "k < length ks" "k \<notin> U" for k
    using f that n(2) by (simp add: smallest_found_def least_from_def)
  have "b \<noteq> ff"
    using least [OF k] ff(2) by metis
  then obtain x where x: "x < length ks" "i = word_of_nat x" "x \<notin> U" "b = pks ! x"
    using f n(2) unfolding smallest_found_def by metis
  have x16: "x < 16"
    using x(1) n(1) by simp
  obtain used' where set: "bitvector_set used (word_of_nat x) True = Some used'"
    and marks: "marks used' (insert x U)"
    by (rule marks_set [OF Suc.prems(1) x16])
  have diff: "{..<length ks} - U = insert x ({..<length ks} - insert x U)"
    using x by auto
  have "card ({..<length ks} - U) = Suc (card ({..<length ks} - insert x U))"
    by (subst diff, rule card_insert_disjoint) simp_all
  then have "card ({..<length ks} - insert x U) = m"
    using Suc.prems(2) by linarith
  from Suc.IH [OF marks this] obtain rs where rs: "sorted_pubkeys dk tap ks m used' = Some rs"
    "sorted (map ?sk rs)" "mset (map ?sk rs) = unused_keys ?sk pks (insert x U)"
    by blast
  have "mset_set ({..<length ks} - U) = add_mset x (mset_set ({..<length ks} - insert x U))"
    by (subst diff, rule mset_set.insert) simp_all
  then have "unused_keys ?sk pks U = add_mset (?sk b) (unused_keys ?sk pks (insert x U))"
    by (simp add: unused_keys_def n(2) x(4))
  moreover have "?sk b \<le> y" if "y \<in> set (map ?sk rs)" for y
  proof -
    have "y \<in># unused_keys ?sk pks (insert x U)"
      using that rs(3) by (metis set_mset_mset)
    then show ?thesis
      using least n(2) by (auto simp: unused_keys_def)
  qed
  moreover have "sorted_pubkeys dk tap ks (Suc m) used = Some (b # rs)"
    using run set rs(1) x(2) by (simp add: ff_def)
  ultimately show ?case
    using rs(2,3) by (intro exI [of _ "b # rs"]) simp
qed

lemma unused_keys_empty: "unused_keys sk pks {} = mset (map sk pks)"
proof -
  have "map sk pks = map (\<lambda>i. sk (pks ! i)) [0..<length pks]"
    by (rule nth_equalityI) simp_all
  then show ?thesis
    by (simp only: unused_keys_def mset_set_upto_eq_mset_upto mset_map Diff_empty)
qed

lemma sorted_pubkeys_sort:
  assumes n: "length ks \<le> 16" and dk: "those (map dk ks) = Some pks" and pt: "list_all compressed_point pks"
  shows "\<exists>rs. sorted_pubkeys dk tap ks (length ks) [0, 0] = Some rs
    \<and> map (script_key tap) rs = sort (map (script_key tap) pks)"
proof -
  have pks: "list_all2 (\<lambda>k pk. dk k = Some pk) ks pks"
    using dk by (simp add: those_map_Some)
  then have len: "length pks = length ks"
    by (simp add: list_all2_lengthD)
  obtain rs where rs: "sorted_pubkeys dk tap ks (length ks) [0, 0] = Some rs"
    "sorted (map (script_key tap) rs)" "mset (map (script_key tap) rs) = unused_keys (script_key tap) pks {}"
    using sorted_pubkeys_spec [OF n len _ _ marks_empty, of dk "length ks" tap] pks pt
    by (auto simp: list_all2_conv_all_nth list_all_length)
  have "sort (map (script_key tap) pks) = map (script_key tap) rs"
    using rs(2,3) by (intro properties_for_sort) (simp_all only: unused_keys_empty)
  with rs(1) show ?thesis
    by simp
qed

lemma smallest_pubkey_fails:
  assumes "\<exists>k\<in>set ks. dk k = None" and "\<And>i. i < length ks \<Longrightarrow> bitvector_get used (word_of_nat i + j) = Some False"
  shows "smallest_pubkey dk tap used j ks best index = None"
  using assms
proof (induction ks arbitrary: j best index)
  case (Cons k ks)
  have "bitvector_get used j = Some False"
    using Cons.prems(2) [of 0] by simp
  moreover have "bitvector_get used (word_of_nat i + (j + 1)) = Some False" if "i < length ks" for i
    using Cons.prems(2) [of "Suc i"] that by (simp add: ac_simps)
  ultimately show ?case
    using Cons.IH [of "j + 1"] Cons.prems(1) by (cases "dk k") auto
qed simp

lemma sorted_pubkeys_fails:
  assumes "length ks \<le> 16" and "those (map dk ks) = None"
  shows "sorted_pubkeys dk tap ks (length ks) [0, 0] = None"
proof -
  have "\<exists>k\<in>set ks. dk k = None"
    using assms(2) those_map_total [of ks dk] by force
  moreover have "bitvector_get [0, 0] (word_of_nat i) = Some False" if "i < length ks" for i
    using marks_empty that assms(1) by (simp add: marks_def)
  ultimately show ?thesis
    using smallest_pubkey_fails [of ks dk "[0, 0]" 0] by (cases "length ks") auto
qed

end
