(* ===== verification/Script_Correct.thy ===== *)
theory Script_Correct
  imports Key_Sorting
begin

text \<open>
  The correctness of the script compiler: the stack machine produces, for every policy, exactly the script
  that a recursive reference compiler (the table of the miniscript specification) assigns to it, and
  fails exactly when that one does, when a fragment is not allowed in the context, or when the policy
  is nested more than twelve deep.  It always terminates.
\<close>

section \<open>The reference compiler\<close>

fun le_bytes :: "nat \<Rightarrow> bytes" where
  "le_bytes n = (if n = 0 then [] else word_of_nat (n mod 256) # le_bytes (n div 256))"

declare le_bytes.simps [simp del]

text \<open>The minimal push of a number: numbers are signed and little endian, so that a further byte is
  needed when the top bit is set.\<close>

definition push_number :: "nat \<Rightarrow> bytes" where
  "push_number n =
     (if n = 0 then [OP_0] else if n \<le> 16 then [0x50 + word_of_nat n]
      else let bs = le_bytes n; bs = (if bit (last bs) 7 then bs @ [0] else bs)
           in word_of_nat (length bs) # bs)"

definition op_v :: "bool \<Rightarrow> u8 \<Rightarrow> bytes" where
  "op_v v op =
     (if \<not> v then [op]
      else if op \<in> {OP_CHECKSIG, OP_CHECKMULTISIG, OP_NUMEQUAL, OP_EQUAL, OP_CHECKSIGVERIFY} then [op + 1]
      else [op, OP_VERIFY])"

definition key_push :: "bool \<Rightarrow> bytes \<Rightarrow> bytes" where
  "key_push tap k = (if tap then 32 # drop 1 k else 33 # k)"

definition ref_key ::
    "bool \<Rightarrow> (policy_node_keyexpr \<Rightarrow> bytes option) \<Rightarrow> (bytes \<Rightarrow> bytes) \<Rightarrow> bool \<Rightarrow> key_tok \<Rightarrow>
     policy_node_keyexpr \<Rightarrow> bytes option" where
  "ref_key tap dk h160 v t key =
     do { k \<leftarrow> dk key;
          let h = h160 (script_key tap k);
          case t of
            Tok_PK \<Rightarrow> Some (key_push tap k @ op_v v OP_CHECKSIG)
          | Tok_PK_K \<Rightarrow> Some (key_push tap k @ op_v v OP_CHECKSIGVERIFY)
          | Tok_PK_H \<Rightarrow> Some ([OP_DUP, OP_HASH160, 20] @ h @ [OP_EQUALVERIFY])
          | Tok_PKH \<Rightarrow> Some ([OP_DUP, OP_HASH160, 20] @ h @ [OP_EQUALVERIFY] @ op_v v OP_CHECKSIG)
          | Tok_WPKH \<Rightarrow> if tap then None else Some ([OP_0, 20] @ h) }"

text \<open>The keys of a multisig as they are in the script: x-only for the tapscript variants, sorted for the
  sorted ones.\<close>

definition ref_keys :: "(policy_node_keyexpr \<Rightarrow> bytes option) \<Rightarrow> multi_tok \<Rightarrow> policy_node_keyexpr list \<Rightarrow>
    bytes list option" where
  "ref_keys dk t ks =
     do { pks \<leftarrow> those (map dk ks);
          Some (case t of
            Tok_MULTI \<Rightarrow> pks | Tok_MULTI_A \<Rightarrow> map (drop 1) pks
          | Tok_SORTEDMULTI \<Rightarrow> sort pks | Tok_SORTEDMULTI_A \<Rightarrow> sort (map (drop 1) pks)) }"

definition ref_multi :: "(policy_node_keyexpr \<Rightarrow> bytes option) \<Rightarrow> bool \<Rightarrow> multi_tok \<Rightarrow> nat \<Rightarrow>
    policy_node_keyexpr list \<Rightarrow> bytes option" where
  "ref_multi dk v t k ks =
     (if t = Tok_MULTI \<or> t = Tok_SORTEDMULTI then
        if length ks > 16 then None
        else do { pks \<leftarrow> ref_keys dk t ks;
          Some ([0x50 + word_of_nat k] @ concat (map (\<lambda>pk. 33 # pk) pks)
            @ [0x50 + word_of_nat (length ks)] @ op_v v OP_CHECKMULTISIG) }
      else
        if k > 16 then None
        else do { pks \<leftarrow> ref_keys dk t ks;
          Some (concat (map (\<lambda>(i, pk). 32 # pk @ [if i = 0 then OP_CHECKSIG else OP_CHECKSIGADD])
              (enumerate (0::nat) pks))
            @ [0x50 + word_of_nat k] @ op_v v OP_NUMEQUAL) })"

definition ref_script2 :: "bool \<Rightarrow> script2_tok \<Rightarrow> bytes \<Rightarrow> bytes \<Rightarrow> bytes" where
  "ref_script2 v t x y = (case t of
      Tok_AND_V \<Rightarrow> x @ y
    | Tok_AND_B \<Rightarrow> x @ y @ op_v v OP_BOOLAND
    | Tok_AND_N \<Rightarrow> x @ [OP_NOTIF, OP_0, OP_ELSE] @ y @ op_v v OP_ENDIF
    | Tok_OR_B \<Rightarrow> x @ y @ op_v v OP_BOOLOR
    | Tok_OR_C \<Rightarrow> x @ [OP_NOTIF] @ y @ op_v v OP_ENDIF
    | Tok_OR_D \<Rightarrow> x @ [OP_IFDUP, OP_NOTIF] @ y @ op_v v OP_ENDIF
    | Tok_OR_I \<Rightarrow> [OP_IF] @ x @ [OP_ELSE] @ y @ op_v v OP_ENDIF)"

definition ref_wrapper :: "bool \<Rightarrow> wrap_tok \<Rightarrow> bytes \<Rightarrow> bytes" where
  "ref_wrapper v w x = (case w of
      Tok_A \<Rightarrow> [OP_TOALTSTACK] @ x @ [OP_FROMALTSTACK]
    | Tok_S \<Rightarrow> [OP_SWAP] @ x
    | Tok_C \<Rightarrow> x @ op_v v OP_CHECKSIG
    | Tok_T \<Rightarrow> x @ op_v v OP_1
    | Tok_D \<Rightarrow> [OP_DUP, OP_IF] @ x @ op_v v OP_ENDIF
    | Tok_V \<Rightarrow> x
    | Tok_J \<Rightarrow> [OP_SIZE, OP_0NOTEQUAL, OP_IF] @ x @ op_v v OP_ENDIF
    | Tok_N \<Rightarrow> x @ op_v v OP_0NOTEQUAL
    | Tok_L \<Rightarrow> [OP_IF, OP_0, OP_ELSE] @ x @ op_v v OP_ENDIF
    | Tok_U \<Rightarrow> [OP_IF] @ x @ [OP_ELSE, OP_0] @ op_v v OP_ENDIF)"

definition ref_thresh :: "bytes list \<Rightarrow> bytes" where
  "ref_thresh ss = (case ss of [] \<Rightarrow> [] | s # ss \<Rightarrow> s @ concat (map (\<lambda>s. s @ [OP_ADD]) ss))"

definition ref_hash :: "bool \<Rightarrow> u8 \<Rightarrow> bytes \<Rightarrow> bytes" where
  "ref_hash v op h =
     [OP_SIZE, 1, 32, OP_EQUALVERIFY, op, word_of_nat (length h)] @ h @ op_v v OP_EQUAL"

text \<open>The script of a policy; \<open>v\<close> says that its result is to be verified and not left on the stack.\<close>

fun script ::
    "bool \<Rightarrow> (policy_node_keyexpr \<Rightarrow> bytes option) \<Rightarrow> (bytes \<Rightarrow> bytes) \<Rightarrow> bool \<Rightarrow> policy_node \<Rightarrow> bytes option" where
  "script tap dk h160 v (Constant t _) = Some (op_v v (case t of Tok_0 \<Rightarrow> OP_0 | Tok_1 \<Rightarrow> OP_1))"
| "script tap dk h160 v (With_key t _ k) = ref_key tap dk h160 v t k"
| "script tap dk h160 v (With_uint32 t _ n) =
     Some (push_number (unat n) @ op_v v (case t of Tok_OLDER \<Rightarrow> OP_CSV | Tok_AFTER \<Rightarrow> OP_CLTV))"
| "script tap dk h160 v (With_hash256 t _ h) =
     Some (ref_hash v (case t of Tok_SHA256 \<Rightarrow> OP_SHA256 | Tok_HASH256 \<Rightarrow> OP_HASH256) h)"
| "script tap dk h160 v (With_hash160 t _ h) =
     Some (ref_hash v (case t of Tok_RIPEMD160 \<Rightarrow> OP_RIPEMD160 | Tok_HASH160 \<Rightarrow> OP_HASH160) h)"
| "script tap dk h160 v (With_script3 _ x y z) =
     do { sx \<leftarrow> script tap dk h160 False x;
          sz \<leftarrow> script tap dk h160 False z;
          sy \<leftarrow> script tap dk h160 False y;
          Some (sx @ [OP_NOTIF] @ sz @ [OP_ELSE] @ sy @ op_v v OP_ENDIF) }"
| "script tap dk h160 v (With_script2 t _ x y) =
     do { sx \<leftarrow> script tap dk h160 False x;
          sy \<leftarrow> script tap dk h160 (v \<and> t = Tok_AND_V) y;
          Some (ref_script2 v t sx sy) }"
| "script tap dk h160 v (Thresh _ k xs) =
     do { ss \<leftarrow> those (map (script tap dk h160 False) xs);
          Some (ref_thresh ss @ push_number k @ op_v v OP_EQUAL) }"
| "script tap dk h160 v (Multisig t _ k ks) = ref_multi dk v t k ks"
| "script tap dk h160 v (With_wrapper w _ x) =
     do { sx \<leftarrow> script tap dk h160 (w = Tok_V) x; Some (ref_wrapper v w sx) }"
| "script tap dk h160 v (With_sh _ _) = None"
| "script tap dk h160 v (Tr _ _) = None"

text \<open>Only allowed fragments, nested at most \<open>d\<close> deep.\<close>

fun sub_scripts :: "policy_node \<Rightarrow> policy_node list" where
  "sub_scripts (Thresh _ _ xs) = xs"
| "sub_scripts x = node_scripts x"

fun fits :: "PolicyNodeType list \<Rightarrow> nat \<Rightarrow> policy_node \<Rightarrow> bool" where
  "fits wl 0 x \<longleftrightarrow> False"
| "fits wl (Suc d) x \<longleftrightarrow> node_type x \<in> set wl \<and> list_all (fits wl d) (sub_scripts x)"

text \<open>The limits that the parser guarantees and that the machine relies on: at most 16 keys in a multisig,
  hashes of the right size; and fewer than 256 children of a \<open>thresh\<close>, as the step counter of a node has
  eight bits.\<close>

fun machine_limits :: "policy_node \<Rightarrow> bool" where
  "machine_limits (Thresh _ k xs) \<longleftrightarrow> length xs < 256 \<and> k < 4294967296 \<and> list_all machine_limits xs"
| "machine_limits (Multisig _ _ k ks) \<longleftrightarrow> length ks \<le> 16"
| "machine_limits (With_script3 _ x y z) \<longleftrightarrow> machine_limits x \<and> machine_limits y \<and> machine_limits z"
| "machine_limits (With_script2 _ _ x y) \<longleftrightarrow> machine_limits x \<and> machine_limits y"
| "machine_limits (With_wrapper _ _ x) \<longleftrightarrow> machine_limits x"
| "machine_limits (With_hash256 _ _ h) \<longleftrightarrow> length h = 32"
| "machine_limits (With_hash160 _ _ h) \<longleftrightarrow> length h = 20"
| "machine_limits _ \<longleftrightarrow> True"

section \<open>The output operations append bytes\<close>

lemma update_output_append: "update_output b (update_output a st) = update_output (a @ b) st"
  by (cases "nodes st") (simp_all add: update_output_def map_top_def add.assoc)

lemma update_output_fields [simp]:
  "is_taproot (update_output a st) = is_taproot st"
  "nodes (update_output a st) = [] \<longleftrightarrow> nodes st = []"
  "nodes st \<noteq> [] \<Longrightarrow> node_pflags (hd (nodes (update_output a st))) = node_pflags (hd (nodes st))"
  by (auto simp: update_output_def map_top_def split: list.splits)

lemma word_of_nat_mod_256: "word_of_nat (m mod 256) = (word_of_nat m :: u8)"
  by (simp add: word_of_nat_eq_iff take_bit_eq_mod)

lemma le_bytes_small:
  "0 < n \<Longrightarrow> n < 256 \<Longrightarrow> le_bytes n = [word_of_nat n]"
  "256 \<le> n \<Longrightarrow> n < 65536 \<Longrightarrow> le_bytes n = [word_of_nat n, word_of_nat (n div 256)]"
  "65536 \<le> n \<Longrightarrow> n < 16777216 \<Longrightarrow>
     le_bytes n = [word_of_nat n, word_of_nat (n div 256), word_of_nat (n div 65536)]"
  "16777216 \<le> n \<Longrightarrow> n < 4294967296 \<Longrightarrow>
     le_bytes n =
       [word_of_nat n, word_of_nat (n div 256), word_of_nat (n div 65536), word_of_nat (n div 16777216)]"
proof -
  have step: "0 < m \<Longrightarrow> le_bytes m = word_of_nat m # le_bytes (m div 256)" for m
    by (subst le_bytes.simps) (simp add: word_of_nat_mod_256)
  have zero: "le_bytes 0 = []"
    by (simp add: le_bytes.simps)
  show one: "0 < n \<Longrightarrow> n < 256 \<Longrightarrow> le_bytes n = [word_of_nat n]" for n
    by (simp add: step zero)
  show two: "256 \<le> n \<Longrightarrow> n < 65536 \<Longrightarrow> le_bytes n = [word_of_nat n, word_of_nat (n div 256)]" for n
    by (simp add: step [of n] one div_greater_zero_iff less_mult_imp_div_less)
  show three: "65536 \<le> n \<Longrightarrow> n < 16777216 \<Longrightarrow>
     le_bytes n = [word_of_nat n, word_of_nat (n div 256), word_of_nat (n div 65536)]" for n
    by (simp add: step [of n] two div_greater_zero_iff less_mult_imp_div_less less_eq_div_iff_mult_less_eq
        div_mult2_eq [of n 256 256, simplified])
  show "16777216 \<le> n \<Longrightarrow> n < 4294967296 \<Longrightarrow>
     le_bytes n =
       [word_of_nat n, word_of_nat (n div 256), word_of_nat (n div 65536), word_of_nat (n div 16777216)]"
    by (simp add: step [of n] three div_greater_zero_iff less_mult_imp_div_less less_eq_div_iff_mult_less_eq
        div_mult2_eq [of n 256 256, simplified] div_mult2_eq [of n 256 65536, simplified])
qed

lemma bit_top_u8: "m < 256 \<Longrightarrow> bit (word_of_nat m :: u8) 7 \<longleftrightarrow> 128 \<le> m"
proof -
  assume m: "m < 256"
  have "bit (word_of_nat m :: u8) 7 \<longleftrightarrow> odd (m div 128)"
    by (simp only: bit_of_nat_iff) (simp add: bit_iff_odd)
  also have "\<dots> \<longleftrightarrow> 128 \<le> m"
    using m div_nat_eqI [of 128 1 m] by (cases "128 \<le> m") auto
  finally show ?thesis .
qed

lemma ucast_drop_bit_u8: "ucast (drop_bit k (n :: u32)) = (word_of_nat (unat n div 2 ^ k) :: u8)"
  by (simp add: word_unat_eq_iff unsigned_ucast_eq unsigned_of_nat unsigned_take_bit_eq
      unsigned_drop_bit_eq)
    (simp add: drop_bit_eq_div take_bit_nat_eq_self unat_u32_bound)

lemma u32_le_array:
  "write_u32_le (replicate 4 0) 0 n =
     Some [word_of_nat (unat n), word_of_nat (unat n div 256), word_of_nat (unat n div 65536),
       word_of_nat (unat n div 16777216)]"
proof -
  have "replicate 4 (0 :: u8) = [0, 0, 0, 0]"
    by (simp add: numeral_eq_Suc)
  then show ?thesis
    using ucast_drop_bit_u8 [of 0 n] ucast_drop_bit_u8 [of 8 n] ucast_drop_bit_u8 [of 16 n]
      ucast_drop_bit_u8 [of 24 n]
    by (simp add: write_u32_le_def wr_def)
qed

lemma push_number_cases:
  fixes n :: u32
  assumes "16 < n"
  shows "push_number (unat n) =
    (let bs = [word_of_nat (unat n), word_of_nat (unat n div 256), word_of_nat (unat n div 65536),
               word_of_nat (unat n div 16777216)]
     in if n \<le> 0x7f then 1 # take 1 bs else if n \<le> 0x7fff then 2 # take 2 bs
        else if n \<le> 0x7fffff then 3 # take 3 bs else if n \<le> 0x7fffffff then 4 # bs else 5 # bs @ [0])"
proof -
  define N where "N = unat n"
  have N: "16 < N" "N < 4294967296"
    using assms unat_u32_bound [of n] by (simp_all add: N_def word_less_nat_alt)
  have c: "(n \<le> 0x7f) = (N \<le> 127)" "(n \<le> 0x7fff) = (N \<le> 32767)" "(n \<le> 0x7fffff) = (N \<le> 8388607)"
    "(n \<le> 0x7fffffff) = (N \<le> 2147483647)"
    by (simp_all add: N_def word_le_nat_alt)
  consider "N \<le> 127" | "128 \<le> N" "N < 256" | "256 \<le> N" "N \<le> 32767" | "32768 \<le> N" "N < 65536"
    | "65536 \<le> N" "N \<le> 8388607" | "8388608 \<le> N" "N < 16777216"
    | "16777216 \<le> N" "N \<le> 2147483647" | "2147483648 \<le> N"
    by linarith
  then show ?thesis
    unfolding N_def [symmetric] push_number_def c Let_def
    by cases (use N in \<open>simp_all add: le_bytes_small bit_top_u8 less_mult_imp_div_less
        less_eq_div_iff_mult_less_eq\<close>)
qed

lemma update_output_push_u32_eq: "update_output_push_u32 n st = update_output (push_number (unat n)) st"
proof (cases "n \<le> 16")
  case True
  then show ?thesis
    using ucast_drop_bit_u8 [of 0 n]
    by (simp add: update_output_push_u32_def push_number_def update_output_u8_def word_le_nat_alt
        unat_eq_zero)
next
  case False
  then have "16 < n" "n \<noteq> 0"
    by auto
  with False push_number_cases [of n] show ?thesis
    unfolding update_output_push_u32_def u32_le_array Let_def update_output_u8_def
    by (cases "n \<le> 0x7f"; cases "n \<le> 0x7fff"; cases "n \<le> 0x7fffff"; cases "n \<le> 0x7fffffff")
      (simp_all only: if_False if_True simp_thms, simp_all add: update_output_append)
qed

lemma update_output_op_v_flags:
  "nodes st \<noteq> [] \<Longrightarrow> node_pflags (hd (nodes st)) = (if v then 1 else 0) \<Longrightarrow>
   update_output_op_v op st = update_output (op_v v op) st"
  by (auto simp: update_output_op_v_def update_output_u8_def update_output_append op_v_def)

section \<open>Simulation\<close>

abbreviation v_flag :: "bool \<Rightarrow> u8" where "v_flag v \<equiv> (if v then 1 else 0)"

abbreviation mk_frame :: "policy_node \<Rightarrow> nat \<Rightarrow> nat \<Rightarrow> bool \<Rightarrow> policy_parser_node_state" where
  "mk_frame x l i v \<equiv>
     \<lparr>node_policy = x, node_length = word_of_nat l, node_step = word_of_nat i, node_pflags = v_flag v\<rparr>"

abbreviation mk_state :: "bool \<Rightarrow> policy_parser_node_state list \<Rightarrow> bytes \<Rightarrow> policy_parser_state" where
  "mk_state tap ns inp \<equiv> \<lparr>is_taproot = tap, nodes = ns, hash_input = inp\<rparr>"

definition add_length :: "u16 \<Rightarrow> policy_parser_node_state list \<Rightarrow> policy_parser_node_state list" where
  "add_length l ns =
     (case ns of [] \<Rightarrow> [] | n # ns \<Rightarrow> n\<lparr>node_length := node_length n + l\<rparr> # ns)"

text \<open>What happens after the node on the top has been popped, having emitted \<open>l\<close> bytes.\<close>

definition resume where
  "resume dk h160 wl fuel tap l rest inp =
     (if rest = [] then Finished (word_of_nat l) inp
      else machine_run dk h160 wl fuel (mk_state tap (add_length (word_of_nat l) rest) inp))"

text \<open>The run from \<open>st\<close> ends, within some number of steps, as the optional result \<open>r\<close> says.\<close>

definition runs_to where
  "runs_to dk h160 wl tap rest inp l st r \<longleftrightarrow>
     (\<exists>n. \<forall>fuel. machine_run dk h160 wl (n + fuel) st =
        (case r of None \<Rightarrow> Failed
         | Some s \<Rightarrow> resume dk h160 wl fuel tap (l + length s) rest (inp @ s)))"

lemma update_output_frame [simp]:
  "update_output s (mk_state tap (f # rest) inp) =
     mk_state tap (f\<lparr>node_length := node_length f + word_of_nat (length s)\<rparr> # rest) (inp @ s)"
  by (simp add: update_output_def map_top_def)

lemma runs_to_fail:
  "machine_step dk h160 wl st = None \<Longrightarrow> runs_to dk h160 wl tap rest inp l st None"
  unfolding runs_to_def by (rule exI [of _ 1]) simp

lemma runs_to_step:
  assumes "machine_step dk h160 wl st = Some (ret, st')" "nodes st' \<noteq> []"
    and "runs_to dk h160 wl tap rest inp l st' r"
  shows "runs_to dk h160 wl tap rest inp l st r"
proof -
  from assms(3) obtain n where "\<forall>fuel. machine_run dk h160 wl (n + fuel) st' =
        (case r of None \<Rightarrow> Failed
         | Some s \<Rightarrow> resume dk h160 wl fuel tap (l + length s) rest (inp @ s))"
    by (auto simp: runs_to_def)
  with assms(1,2) show ?thesis
    unfolding runs_to_def by (intro exI [of _ "Suc n"]) simp
qed

lemma pop_frame:
  "state_stack_pop (mk_state tap (f # rest) inp) = Some (node_length f, mk_state tap (add_length (node_length f) rest) inp)"
  by (simp add: state_stack_pop_def add_length_def split: list.split)

text \<open>A node that is finished by its processor in one step, having emitted \<open>s\<close>.\<close>

lemma runs_to_done:
  assumes "node_type x \<in> set wl"
    and "process_node dk h160 x (mk_state tap (mk_frame x l i v # rest) inp) =
      Some (True, update_output s (mk_state tap (mk_frame x l i v # rest) inp))"
  shows "runs_to dk h160 wl tap rest inp l (mk_state tap (mk_frame x l i v # rest) inp) (Some s)"
proof -
  have "machine_step dk h160 wl (mk_state tap (mk_frame x l i v # rest) inp) =
    Some (word_of_nat (l + length s), mk_state tap (add_length (word_of_nat (l + length s)) rest) (inp @ s))"
    using assms by (simp add: machine_step_def execute_processor_def pop_frame flip: of_nat_add)
  then show ?thesis
    unfolding runs_to_def resume_def
    by (intro exI [of _ 1]) (simp add: add_length_def split: list.split)
qed

text \<open>A child is pushed and run, then the node continues.\<close>

lemma runs_to_child:
  assumes step: "machine_step dk h160 wl st = Some (ret, mk_state tap (mk_frame c 0 0 u # f # rest) inp')"
    and child: "runs_to dk h160 wl tap (f # rest) inp' 0 (mk_state tap (mk_frame c 0 0 u # f # rest) inp') r"
    and cont: "\<And>s. r = Some s \<Longrightarrow>
      runs_to dk h160 wl tap rest inp l
        (mk_state tap (f\<lparr>node_length := node_length f + word_of_nat (length s)\<rparr> # rest) (inp' @ s)) (g s)"
  shows "runs_to dk h160 wl tap rest inp l st (Option.bind r g)"
proof (rule runs_to_step [OF step])
  from child obtain n where n: "\<And>fuel. machine_run dk h160 wl (n + fuel) (mk_state tap (mk_frame c 0 0 u # f # rest) inp') =
      (case r of None \<Rightarrow> Failed | Some s \<Rightarrow> resume dk h160 wl fuel tap (length s) (f # rest) (inp' @ s))"
    unfolding runs_to_def add_0 by blast
  show "runs_to dk h160 wl tap rest inp l (mk_state tap (mk_frame c 0 0 u # f # rest) inp') (Option.bind r g)"
  proof (cases r)
    case None
    then show ?thesis
      using n unfolding runs_to_def by (intro exI [of _ n]) simp
  next
    case (Some s)
    from cont [OF Some] obtain m where m: "\<And>fuel. machine_run dk h160 wl (m + fuel)
        (mk_state tap (f\<lparr>node_length := node_length f + word_of_nat (length s)\<rparr> # rest) (inp' @ s)) =
      (case g s of None \<Rightarrow> Failed | Some s \<Rightarrow> resume dk h160 wl fuel tap (l + length s) rest (inp @ s))"
      by (auto simp: runs_to_def)
    have "machine_run dk h160 wl (n + m + fuel) (mk_state tap (mk_frame c 0 0 u # f # rest) inp') =
      (case g s of None \<Rightarrow> Failed | Some s \<Rightarrow> resume dk h160 wl fuel tap (l + length s) rest (inp @ s))" for fuel
      using n [of "m + fuel"] m [of fuel] Some by (simp add: resume_def add_length_def add.assoc)
    then show ?thesis
      using Some unfolding runs_to_def by (intro exI [of _ "n + m"]) simp
  qed
qed simp

text \<open>The tables, read as a sequence of pieces of script.\<close>

fun command_bytes where
  "command_bytes tap dk h160 v x (CMD_CODE_OP op) = Some [op]"
| "command_bytes tap dk h160 v x (CMD_CODE_OP_V op) = Some (op_v v op)"
| "command_bytes tap dk h160 v x CMD_CODE_PUSH_PK =
     do { k \<leftarrow> node_key x; pk \<leftarrow> dk k; Some (key_push tap pk) }"
| "command_bytes tap dk h160 v x CMD_CODE_PUSH_PKH =
     do { k \<leftarrow> node_key x; pk \<leftarrow> dk k; Some (20 # h160 (script_key tap pk)) }"
| "command_bytes tap dk h160 v x CMD_CODE_PUSH_UINT32 =
     do { n \<leftarrow> node_uint32 x; Some (push_number (unat n)) }"
| "command_bytes tap dk h160 v x CMD_CODE_PUSH_HASH20 = do { h \<leftarrow> node_hash x; Some (20 # take 20 h) }"
| "command_bytes tap dk h160 v x CMD_CODE_PUSH_HASH32 = do { h \<leftarrow> node_hash x; Some (32 # take 32 h) }"
| "command_bytes tap dk h160 v x _ = None"

fun command_child :: "bool \<Rightarrow> generic_processor_command \<Rightarrow> (nat \<times> bool) option" where
  "command_child v (CMD_CODE_PROCESS_CHILD i) = Some (i, False)"
| "command_child v (CMD_CODE_PROCESS_CHILD_V i) = Some (i, v)"
| "command_child v (CMD_CODE_PROCESS_CHILD_VV i) = Some (i, True)"
| "command_child v _ = None"

definition command_out where
  "command_out cp tap dk h160 v x c = (case command_child v c of
      None \<Rightarrow> command_bytes tap dk h160 v x c
    | Some (i, u) \<Rightarrow> if i < length (node_scripts x) then cp u (node_scripts x ! i) else None)"

fun commands_out where
  "commands_out cp tap dk h160 v x [] = Some []"
| "commands_out cp tap dk h160 v x (c # cs) =
     do { a \<leftarrow> command_out cp tap dk h160 v x c;
          b \<leftarrow> commands_out cp tap dk h160 v x cs;
          Some (a @ b) }"

lemma run_command_bytes:
  assumes "command_child v c = None" "node_pflags f = v_flag v"
  shows "run_command dk h160 x flags c (mk_state tap (f # rest) inp) =
    map_option (\<lambda>s. update_output s (mk_state tap (f # rest) inp)) (command_bytes tap dk h160 v x c)"
  using assms
  by (cases c)
    (simp_all add: update_output_u8_def update_output_append update_output_push_u32_eq
      update_output_op_v_flags [of _ v] key_push_def option.map_comp comp_def map_option_bind del: update_output_frame
      split: Option.bind_split)

lemma run_command_child:
  assumes "command_child v c = Some (i, u)"
  shows "run_command dk h160 x (v_flag v) c st =
    (if i < length (node_scripts x) then state_stack_push st (node_scripts x ! i) (v_flag u) else None)"
  using assms by (cases c) (auto simp: push_child_def)

lemma next_step_frame [simp]:
  "next_step (mk_state tap (f # rest) inp) = mk_state tap (f\<lparr>node_step := node_step f + 1\<rparr> # rest) inp"
  by (simp add: next_step_def map_top_def)

text \<open>The result of a policy within depth \<open>d\<close>.\<close>

definition comp_script where
  "comp_script wl tap dk h160 d v x = (if fits wl d x then script tap dk h160 v x else None)"

definition node_runs where
  "node_runs dk h160 wl tap x \<longleftrightarrow>
     (\<forall>rest inp v. length rest < 12 \<longrightarrow>
        runs_to dk h160 wl tap rest inp 0 (mk_state tap (mk_frame x 0 0 v # rest) inp)
          (comp_script wl tap dk h160 (12 - length rest) v x))"

lemma runs_to_shift:
  assumes "runs_to dk h160 wl tap rest (inp @ s) (l + length s) st r"
  shows "runs_to dk h160 wl tap rest inp l st (Option.bind r (\<lambda>b. Some (s @ b)))"
proof -
  from assms obtain n where "\<And>fuel. machine_run dk h160 wl (n + fuel) st =
    (case r of None \<Rightarrow> Failed
     | Some b \<Rightarrow> resume dk h160 wl fuel tap (l + length s + length b) rest ((inp @ s) @ b))"
    unfolding runs_to_def by blast
  then show ?thesis
    unfolding runs_to_def by (intro exI [of _ n]) (simp add: add.assoc split: option.split)
qed

lemma runs_to_push:
  assumes step: "machine_step dk h160 wl st =
      do { st \<leftarrow> state_stack_push (mk_state tap (f # rest) inp') c (v_flag u); Some (0, st) }"
    and child: "node_runs dk h160 wl tap c" and rest: "length rest < 12"
    and cont: "\<And>s. runs_to dk h160 wl tap rest inp l
        (mk_state tap (f\<lparr>node_length := node_length f + word_of_nat (length s)\<rparr> # rest) (inp' @ s)) (g s)"
  shows "runs_to dk h160 wl tap rest inp l st
      (Option.bind (comp_script wl tap dk h160 (11 - length rest) u c) g)"
proof (cases "length rest = 11")
  case True
  then show ?thesis
    using step by (auto simp: state_stack_push_def comp_script_def intro!: runs_to_fail)
next
  case False
  then have less: "length (f # rest) < 12"
    using rest by simp
  have "machine_step dk h160 wl st = Some (0, mk_state tap (mk_frame c 0 0 u # f # rest) inp')"
    using step less by (simp add: state_stack_push_def)
  moreover have "runs_to dk h160 wl tap (f # rest) inp' 0 (mk_state tap (mk_frame c 0 0 u # f # rest) inp')
      (comp_script wl tap dk h160 (11 - length rest) u c)"
    using child [unfolded node_runs_def, rule_format, OF less] by simp
  ultimately show ?thesis
    using cont by (rule runs_to_child)
qed

lemma generic_node_runs:
  assumes x: "node_type x \<in> set wl" "process_node dk h160 x = process_generic_node dk h160 cs"
    and cs: "length cs < 256" and rest: "length rest < 12"
    and children: "\<And>i. i < length (node_scripts x) \<Longrightarrow> node_runs dk h160 wl tap (node_scripts x ! i)"
    and i: "i \<le> length cs"
  shows "runs_to dk h160 wl tap rest inp l (mk_state tap (mk_frame x l i v # rest) inp)
    (commands_out (comp_script wl tap dk h160 (11 - length rest)) tap dk h160 v x (drop i cs))"
  using i
proof (induction "length cs - i" arbitrary: i l inp)
  case 0
  then have "unat (word_of_nat i :: u8) = length cs" "drop i cs = []"
    using cs by (simp_all add: unat_of_nat)
  then show ?case
    using x runs_to_done [of x wl dk h160 tap l i v rest inp "[]"]
    by (simp add: process_generic_node_def)
next
  case (Suc n)
  let ?st = "mk_state tap (mk_frame x l i v # rest) inp"
  let ?f = "mk_frame x l (Suc i) v"
  let ?cp = "comp_script wl tap dk h160 (11 - length rest)"
  have i: "i < length cs" and u: "unat (word_of_nat i :: u8) = i"
    using Suc.hyps(2) cs by (simp_all add: unat_of_nat)
  have drop: "drop i cs = cs ! i # drop (Suc i) cs"
    using i by (rule take_drop_Cons_nth)
  have IH: "runs_to dk h160 wl tap rest inp' l' (mk_state tap (mk_frame x l' (Suc i) v # rest) inp')
    (commands_out ?cp tap dk h160 v x (drop (Suc i) cs))" for inp' l'
    using Suc.hyps(1) [of "Suc i" inp' l'] Suc.hyps(2) i by simp
  have step: "machine_step dk h160 wl ?st =
    do { st \<leftarrow> run_command dk h160 x (v_flag v) (cs ! i) (mk_state tap (mk_frame x l (Suc i) v # rest) inp);
         Some (0, st) }"
    using x i u by (simp add: machine_step_def execute_processor_def process_generic_node_def add.commute
        flip: of_nat_Suc split: Option.bind_split)
  have cont: "runs_to dk h160 wl tap rest inp l
      (mk_state tap (?f\<lparr>node_length := node_length ?f + word_of_nat (length s)\<rparr> # rest) (inp @ s))
      (Option.bind (commands_out ?cp tap dk h160 v x (drop (Suc i) cs)) (\<lambda>b. Some (s @ b)))" for s
    using runs_to_shift [OF IH [of "inp @ s" "l + length s"]] by simp
  show ?case
  proof (cases "command_child v (cs ! i)")
    case None
    show ?thesis
    proof (cases "command_bytes tap dk h160 v x (cs ! i)")
      case bytes: None
      then show ?thesis
        using None step by (auto simp: drop command_out_def run_command_bytes intro!: runs_to_fail)
    next
      case bytes: (Some s)
      then show ?thesis
        using runs_to_step [OF _ _ cont [of s]] None step by (simp add: drop command_out_def run_command_bytes)
    qed
  next
    case (Some p)
    obtain c w where p: "p = (c, w)"
      by fastforce
    show ?thesis
    proof (cases "c < length (node_scripts x)")
      case True
      then show ?thesis
        using runs_to_push [OF _ children [OF True] rest cont, where u = w and st = ?st] Some p step
        by (simp add: drop command_out_def run_command_child)
    next
      case False
      then show ?thesis
        using step Some p by (auto simp: drop command_out_def run_command_child intro!: runs_to_fail)
    qed
  qed
qed

text \<open>The processors of their own.\<close>

lemma pkh_node_runs:
  assumes "node_type (With_key t f key) \<in> set wl" "t = Tok_PKH \<or> t = Tok_WPKH"
  shows "runs_to dk h160 wl tap rest inp 0 (mk_state tap (mk_frame (With_key t f key) 0 0 v # rest) inp)
    (ref_key tap dk h160 v t key)"
proof (cases "ref_key tap dk h160 v t key")
  case None
  then have "process_node dk h160 (With_key t f key)
      (mk_state tap (mk_frame (With_key t f key) 0 0 v # rest) inp) = None"
    using assms(2)
    by (auto simp: process_pkh_wpkh_node_def ref_key_def key_type_def Let_def split: Option.bind_splits if_splits)
  then show ?thesis
    using None assms(1) by (auto simp: machine_step_def execute_processor_def intro!: runs_to_fail)
next
  case (Some s)
  have "process_node dk h160 (With_key t f key) (mk_state tap (mk_frame (With_key t f key) 0 0 v # rest) inp)
    = Some (True, update_output s (mk_state tap (mk_frame (With_key t f key) 0 0 v # rest) inp))"
    using assms(2) Some
    by (auto simp: process_pkh_wpkh_node_def ref_key_def key_type_def Let_def script_key_def
        update_output_u8_def update_output_append update_output_op_v_flags [of _ v]
        simp del: update_output_frame elim!: bind_SomeE split: if_splits)
  then show ?thesis
    using runs_to_done [of "With_key t f key" wl dk h160 tap 0 0 v rest inp s] assms(1) Some by simp
qed

lemma update_output_Nil: "update_output [] st = st"
  by (cases st; cases "nodes st") (simp_all add: update_output_def map_top_def)

lemma fold_update_output:
  "(\<And>x st. h x st = update_output (g x) st) \<Longrightarrow> fold h xs st = update_output (concat (map g xs)) st"
  by (induction xs arbitrary: st) (simp_all add: update_output_Nil update_output_append)

lemma enumerate_map_snd: "enumerate n (map g xs) = map (\<lambda>(i, x). (i, g x)) (enumerate n xs)"
  by (induction xs arbitrary: n) simp_all

definition derives_points :: "(policy_node_keyexpr \<Rightarrow> bytes option) \<Rightarrow> bool" where
  "derives_points dk \<longleftrightarrow> (\<forall>k pk. dk k = Some pk \<longrightarrow> compressed_point pk)"

lemma script_key_fun: "script_key False = id" "script_key True = drop 1"
  by (simp_all add: script_key_def fun_eq_iff)

lemma multi_pubkeys_ref:
  assumes dk: "derives_points dk" and n: "length ks \<le> 16"
  shows "map_option (map (script_key (t = Tok_MULTI_A \<or> t = Tok_SORTEDMULTI_A))) (multi_pubkeys dk t ks)
    = ref_keys dk t ks"
proof (cases "those (map dk ks)")
  case None
  then show ?thesis
    using sorted_pubkeys_fails [OF n None]
    by (cases t) (simp_all add: multi_pubkeys_def ref_keys_def)
next
  case (Some pks)
  then have "list_all compressed_point pks"
    using dk by (auto simp: derives_points_def those_map_Some list_all2_conv_all_nth list_all_length)
  from sorted_pubkeys_sort [OF n Some this, of False] sorted_pubkeys_sort [OF n Some this, of True] Some
  show ?thesis
    by (cases t) (auto simp: multi_pubkeys_def ref_keys_def script_key_fun)
qed

lemma multi_node_runs:
  assumes dk: "derives_points dk" and n: "length ks \<le> 16"
    and t: "node_type (Multisig t f k ks) \<in> set wl"
  shows "runs_to dk h160 wl tap rest inp 0 (mk_state tap (mk_frame (Multisig t f k ks) 0 0 v # rest) inp)
    (ref_multi dk v t k ks)"
proof -
  let ?x = "Multisig t f k ks"
  let ?st = "mk_state tap (mk_frame ?x 0 0 v # rest) inp"
  have "process_node dk h160 ?x ?st = do { s \<leftarrow> ref_multi dk v t k ks; Some (True, update_output s ?st) }"
  proof (cases "t = Tok_MULTI \<or> t = Tok_SORTEDMULTI")
    case True
    have fold: "fold (\<lambda>pubkey state. update_output pubkey (update_output_u8 0x21 state)) pks st =
      update_output (concat (map (\<lambda>pk. 33 # pk) pks)) st" for pks st
      by (rule fold_update_output) (simp add: update_output_u8_def update_output_append)
    have "process_multi_sortedmulti_node dk ?st = (if length ks > 16 then None
      else do { pks \<leftarrow> multi_pubkeys dk t ks;
        Some (True, update_output_op_v OP_CHECKMULTISIG (update_output_u8 (0x50 + word_of_nat (length ks))
          (update_output (concat (map (\<lambda>pk. 33 # pk) pks)) (update_output_u8 (0x50 + word_of_nat k) ?st)))) })"
      by (simp only: process_multi_sortedmulti_node_def fold Let_def policy_parser_state.simps
          policy_parser_node_state.simps list.case policy_node.case)
    then show ?thesis
      using True n multi_pubkeys_ref [OF dk n, of t, symmetric]
      by (auto simp: ref_multi_def script_key_fun
          update_output_u8_def update_output_append update_output_op_v_flags [of _ v] option.map_id
          simp del: update_output_frame split: Option.bind_splits)
  next
    case False
    have fold: "fold (\<lambda>(i, pubkey) state.
         let state = update_output (drop 1 pubkey) (update_output_u8 0x20 state)
         in if i = 0 then update_output_u8 OP_CHECKSIG state else update_output_u8 OP_CHECKSIGADD state)
        (enumerate (0::nat) pks) st =
      update_output (concat (map (\<lambda>(i, pk). 32 # pk @ [if i = 0 then OP_CHECKSIG else OP_CHECKSIGADD])
        (enumerate (0::nat) (map (drop 1) pks)))) st" for pks st
      unfolding enumerate_map_snd map_map
      by (rule fold_update_output) (auto simp: update_output_u8_def update_output_append Let_def)
    have "t = Tok_MULTI_A \<or> t = Tok_SORTEDMULTI_A"
      using False by (cases t) auto
    moreover have "process_multi_a_sortedmulti_a_node dk ?st = (if k > 16 then None
      else do { pks \<leftarrow> multi_pubkeys dk t ks;
        Some (True, update_output_op_v OP_NUMEQUAL (update_output_u8 (0x50 + word_of_nat k)
          (update_output (concat (map (\<lambda>(i, pk). 32 # pk @ [if i = 0 then OP_CHECKSIG else OP_CHECKSIGADD])
            (enumerate (0::nat) (map (drop 1) pks)))) ?st))) })"
      by (simp only: process_multi_a_sortedmulti_a_node_def fold [unfolded Let_def] Let_def policy_parser_state.simps
          policy_parser_node_state.simps list.case policy_node.case)
    ultimately show ?thesis
      using False n multi_pubkeys_ref [OF dk n, of t, symmetric]
      by (auto simp: ref_multi_def script_key_fun
          update_output_u8_def update_output_append update_output_op_v_flags [of _ v] 
          simp del: update_output_frame split: Option.bind_splits)
  qed
  then show ?thesis
    using t runs_to_done [of ?x wl dk h160 tap 0 0 v rest inp]
    by (cases "ref_multi dk v t k ks")
      (auto simp: machine_step_def execute_processor_def simp del: update_output_frame intro!: runs_to_fail)
qed

text \<open>The rest of a \<open>thresh\<close> from child \<open>i\<close> on, as the processor splits it.\<close>

fun thresh_rest where
  "thresh_rest cp v k i [] = Some ((if i \<ge> 2 then [OP_ADD] else []) @ push_number k @ op_v v OP_EQUAL)"
| "thresh_rest cp v k i (x # xs) =
     do { s \<leftarrow> cp x;
          b \<leftarrow> thresh_rest cp v k (Suc i) xs;
          Some ((if i \<ge> 2 then [OP_ADD] else []) @ s @ b) }"

lemma thresh_rest_adds:
  "2 \<le> i \<Longrightarrow> thresh_rest cp v k i xs =
     do { ss \<leftarrow> those (map cp xs);
          Some ([OP_ADD] @ concat (map (\<lambda>s. s @ [OP_ADD]) ss) @ push_number k @ op_v v OP_EQUAL) }"
  by (induction xs arbitrary: i) (auto split: Option.bind_split option.split)

lemma thresh_rest_ref:
  "thresh_rest cp v k 0 xs =
     do { ss \<leftarrow> those (map cp xs); Some (ref_thresh ss @ push_number k @ op_v v OP_EQUAL) }"
proof (cases xs)
  case (Cons x ys)
  then show ?thesis
    by (cases ys)
      (auto simp: ref_thresh_def thresh_rest_adds split: Option.bind_split option.split)
qed (simp add: ref_thresh_def)

lemma thresh_node_runs:
  assumes x: "x = Thresh f k xs" "node_type x \<in> set wl" and n: "length xs < 256" "k < 4294967296"
    and rest: "length rest < 12" and children: "\<And>c. c \<in> set xs \<Longrightarrow> node_runs dk h160 wl tap c"
    and i: "i \<le> length xs"
  shows "runs_to dk h160 wl tap rest inp l (mk_state tap (mk_frame x l i v # rest) inp)
    (thresh_rest (comp_script wl tap dk h160 (11 - length rest) False) v k i (drop i xs))"
  using i
proof (induction "length xs - i" arbitrary: i l inp)
  case 0
  then have i: "i = length xs" "unat (word_of_nat i :: u8) = length xs"
    using n by (simp_all add: unat_of_nat)
  let ?st = "mk_state tap (mk_frame x l i v # rest) inp"
  have "process_node dk h160 x ?st =
    Some (True, update_output ((if 2 \<le> length xs then [OP_ADD] else []) @ push_number k @ op_v v OP_EQUAL) ?st)"
    using i n
    by (simp add: x(1) process_thresh_node_def Let_def update_output_u8_def update_output_append
        update_output_push_u32_eq update_output_op_v_flags [of _ v] unat_of_nat_u32
        del: update_output_frame)
  then show ?case
    using runs_to_done [OF x(2)] i(1) by simp
next
  case (Suc m)
  then have i: "i < length xs" and u: "unat (word_of_nat i :: u8) = i" and m: "m = length xs - Suc i"
    using n by (simp_all add: unat_of_nat)
  let ?st = "mk_state tap (mk_frame x l i v # rest) inp"
  let ?a = "if 2 \<le> i then [OP_ADD] else []"
  let ?f = "mk_frame x (l + length ?a) (Suc i) v"
  let ?cp = "comp_script wl tap dk h160 (11 - length rest) False"
  have "(1 < (word_of_nat i :: u8)) \<longleftrightarrow> 2 \<le> i"
    using u by (auto simp: word_less_nat_alt)
  then have step: "machine_step dk h160 wl ?st =
    do { st \<leftarrow> state_stack_push (mk_state tap (?f # rest) (inp @ ?a)) (xs ! i) (v_flag False); Some (0, st) }"
    using x i u by (simp add: machine_step_def execute_processor_def process_thresh_node_def Let_def
        update_output_u8_def add.commute flip: of_nat_Suc split: Option.bind_split)
  have "runs_to dk h160 wl tap rest inp l
      (mk_state tap (?f\<lparr>node_length := node_length ?f + word_of_nat (length s)\<rparr> # rest) ((inp @ ?a) @ s))
      (Option.bind (thresh_rest ?cp v k (Suc i) (drop (Suc i) xs)) (\<lambda>b. Some (?a @ s @ b)))" for s
    using runs_to_shift [of _ _ _ _ _ inp "?a @ s" l, OF Suc.hyps(1) [OF m, of "inp @ ?a @ s" "l + length (?a @ s)"]] i
    by (simp add: add.assoc)
  then have "runs_to dk h160 wl tap rest inp l ?st
    (Option.bind (?cp (xs ! i)) (\<lambda>s. Option.bind (thresh_rest ?cp v k (Suc i) (drop (Suc i) xs)) (\<lambda>b. Some (?a @ s @ b))))"
    using children [of "xs ! i"] i by (intro runs_to_push [OF step _ rest]) simp_all
  then show ?case
    by (simp add: take_drop_Cons_nth [OF i])
qed

lemma node_runsI:
  assumes "\<And>rest inp v. length rest < 12 \<Longrightarrow> node_type x \<in> set wl \<Longrightarrow>
    runs_to dk h160 wl tap rest inp 0 (mk_state tap (mk_frame x 0 0 v # rest) inp)
      (if list_all (fits wl (11 - length rest)) (sub_scripts x) then script tap dk h160 v x else None)"
  shows "node_runs dk h160 wl tap x"
  unfolding node_runs_def
proof (intro allI impI)
  fix rest :: "policy_parser_node_state list" and inp v
  assume rest: "length rest < 12"
  then have d: "12 - length rest = Suc (11 - length rest)"
    by simp
  show "runs_to dk h160 wl tap rest inp 0 (mk_state tap (mk_frame x 0 0 v # rest) inp)
      (comp_script wl tap dk h160 (12 - length rest) v x)"
    unfolding comp_script_def d fits.simps using assms [OF rest, of inp v]
    by (cases "node_type x \<in> set wl") (auto simp: machine_step_def intro!: runs_to_fail)
qed

definition table_of where
  "table_of dk h160 x cs \<longleftrightarrow> process_node dk h160 x = process_generic_node dk h160 cs \<and> length cs < 256 \<and>
     (\<forall>wl tap d v. commands_out (comp_script wl tap dk h160 d) tap dk h160 v x cs =
        (if list_all (fits wl d) (sub_scripts x) then script tap dk h160 v x else None))"

lemma table_node_runs:
  assumes "table_of dk h160 x cs" and "\<And>c. c \<in> set (node_scripts x) \<Longrightarrow> node_runs dk h160 wl tap c"
  shows "node_runs dk h160 wl tap x"
proof (rule node_runsI)
  fix rest :: "policy_parser_node_state list" and inp v
  assume "length rest < 12" "node_type x \<in> set wl"
  then show "runs_to dk h160 wl tap rest inp 0 (mk_state tap (mk_frame x 0 0 v # rest) inp)
      (if list_all (fits wl (11 - length rest)) (sub_scripts x) then script tap dk h160 v x else None)"
    using generic_node_runs [of x wl dk h160 cs rest tap 0 inp 0 v] assms by (simp add: table_of_def)
qed

lemma bind_if_None [simp]: "Option.bind (if b then m else None) g = (if b then Option.bind m g else None)"
  by simp

lemma bind_None [simp]: "Option.bind m (\<lambda>_. None) = None"
  by (cases m) simp_all

lemma table_leaf:
  "table_of dk h160 (Constant t f) (commands_constant t)"
  "table_of dk h160 (With_uint32 u f n) (commands_uint32 u)"
  "length h = 32 \<Longrightarrow> table_of dk h160 (With_hash256 t256 f h) (commands_hash256_tok t256)"
  "length h = 20 \<Longrightarrow> table_of dk h160 (With_hash160 t160 f h) (commands_hash160_tok t160)"
  by (simp_all add: table_of_def commands_constant_def commands_uint32_def commands_hash256_tok_def
      commands_hash160_tok_def command_out_def ref_hash_def split: const_tok.split uint_tok.split)

lemma table_key:
  "table_of dk h160 (With_key Tok_PK f key) commands_pk"
  "table_of dk h160 (With_key Tok_PK_K f key) commands_pk_k"
  "table_of dk h160 (With_key Tok_PK_H f key) commands_pk_h"
  by (simp_all add: table_of_def commands_pk_def commands_pk_k_def commands_pk_h_def command_out_def
      ref_key_def Let_def split: Option.bind_split)

lemma table_wrapper: "table_of dk h160 (With_wrapper w f x) (commands_wrapper w)"
  by (cases w)
    (simp_all add: table_of_def commands_wrapper_def command_out_def ref_wrapper_def comp_script_def
      split: Option.bind_split)

lemma table_andor: "table_of dk h160 (With_script3 f x y z) commands_andor"
  by (auto simp: table_of_def commands_andor_def command_out_def comp_script_def
      split: Option.bind_split)

lemma table_script2: "table_of dk h160 (With_script2 t f x y) (commands_script2 t)"
  by (cases t)
    (auto simp: table_of_def commands_script2_def command_out_def ref_script2_def comp_script_def
      split: Option.bind_split)

lemma key_node_runs: "node_runs dk h160 wl tap (With_key t f key)"
proof (cases "t = Tok_PKH \<or> t = Tok_WPKH")
  case True
  then show ?thesis
    using pkh_node_runs [of t f key wl] by (intro node_runsI) simp
next
  case False
  then show ?thesis
    by (cases t) (auto intro: table_node_runs [OF table_key(1)] table_node_runs [OF table_key(2)]
        table_node_runs [OF table_key(3)])
qed

lemma top_node_runs: "node_runs dk h160 wl tap (With_sh t x)" "node_runs dk h160 wl tap (Tr k tree)"
  by (auto intro!: node_runsI runs_to_fail simp: machine_step_def execute_processor_def)

lemma all_node_runs:
  assumes dk: "derives_points dk"
  shows "machine_limits x \<Longrightarrow> node_runs dk h160 wl tap x"
proof (induction x rule: machine_limits.induct)
  case (1 f k xs)
  show ?case
  proof (rule node_runsI)
    fix rest :: "policy_parser_node_state list" and inp v
    assume *: "length rest < 12" "node_type (Thresh f k xs) \<in> set wl"
    have "those (map (comp_script wl tap dk h160 (11 - length rest) False) xs) =
      (if list_all (fits wl (11 - length rest)) xs then those (map (script tap dk h160 False) xs) else None)"
      by (induction xs) (auto simp: comp_script_def split: option.split)
    then show "runs_to dk h160 wl tap rest inp 0 (mk_state tap (mk_frame (Thresh f k xs) 0 0 v # rest) inp)
      (if list_all (fits wl (11 - length rest)) (sub_scripts (Thresh f k xs))
       then script tap dk h160 v (Thresh f k xs) else None)"
      unfolding sub_scripts.simps script.simps
      using thresh_node_runs [of "Thresh f k xs" f k xs wl rest dk h160 tap 0 inp 0 v] * 1
      by (simp add: thresh_rest_ref list_all_iff split del: if_split)
  qed
next
  case (2 t f k ks)
  then show ?case
    using multi_node_runs [OF dk] by (intro node_runsI) simp
qed (auto intro: table_node_runs [OF table_wrapper] table_node_runs [OF table_andor]
    table_node_runs [OF table_script2] table_node_runs [OF table_leaf(1)] table_node_runs [OF table_leaf(2)]
    table_node_runs [OF table_leaf(3)] table_node_runs [OF table_leaf(4)] key_node_runs top_node_runs)

text \<open>The loop from its initial state, in terms of the reference compiler within the limits of depth.\<close>

lemma compiler_runs:
  assumes "machine_limits policy" and "derives_points dk"
  shows "\<exists>n. \<forall>fuel\<ge>n. get_wallet_internal_script_hash fuel dk h160 policy script_type hash_context =
    (case comp_script (whitelist script_type) (script_type = WRAPPED_SCRIPT_TYPE_TAPSCRIPT) dk h160 12 False policy of
       None \<Rightarrow> Failed
     | Some s \<Rightarrow> Finished (word_of_nat (length s)) (hash_context @ s))"
proof -
  let ?wl = "whitelist script_type" and ?tap = "script_type = WRAPPED_SCRIPT_TYPE_TAPSCRIPT"
  have "runs_to dk h160 ?wl ?tap [] hash_context 0 (mk_state ?tap [mk_frame policy 0 0 False] hash_context)
      (comp_script ?wl ?tap dk h160 12 False policy)"
    using all_node_runs [OF assms(2,1), of h160 ?wl ?tap, unfolded node_runs_def, rule_format,
        of "[]" hash_context False]
    by simp
  then obtain n where n: "\<And>fuel. machine_run dk h160 ?wl (n + fuel)
      (mk_state ?tap [mk_frame policy 0 0 False] hash_context) =
    (case comp_script ?wl ?tap dk h160 12 False policy of None \<Rightarrow> Failed
     | Some s \<Rightarrow> resume dk h160 ?wl fuel ?tap (0 + length s) [] (hash_context @ s))"
    unfolding runs_to_def by blast
  have "get_wallet_internal_script_hash fuel dk h160 policy script_type hash_context =
      (case comp_script ?wl ?tap dk h160 12 False policy of None \<Rightarrow> Failed
       | Some s \<Rightarrow> Finished (word_of_nat (length s)) (hash_context @ s))" if "n \<le> fuel" for fuel
    using n [of "fuel - n"] that
    by (simp add: get_wallet_internal_script_hash_def resume_def split: option.splits)
  then show ?thesis
    by blast
qed

section \<open>Properties\<close>

text \<open>C7: For every policy within the limits of the machine and every derivation of keys that yields
  points, the compiler terminates (enough fuel gives an answer, the same for all larger fuels): it
  answers with the script of the reference compiler, its length modulo \<open>2^16\<close>, and the script appended to
  what has been hashed before; and it fails exactly when a key cannot be derived, a fragment is not
  allowed in the context or not supported, or the policy is nested more than 12 deep.\<close>

theorem script_compiler_correct:
  assumes "machine_limits policy" and "derives_points dk"
  shows "\<exists>n. \<forall>fuel\<ge>n. get_wallet_internal_script_hash fuel dk h160 policy script_type hash_context =
    (if fits (whitelist script_type) 12 policy then
       case script (script_type = WRAPPED_SCRIPT_TYPE_TAPSCRIPT) dk h160 False policy of
         None \<Rightarrow> Failed
       | Some s \<Rightarrow> Finished (word_of_nat (length s)) (hash_context @ s)
     else Failed)"
  using compiler_runs [OF assms, of h160 script_type hash_context]
  by (cases "fits (whitelist script_type) 12 policy") (simp_all add: comp_script_def)

definition example_dk :: "policy_node_keyexpr \<Rightarrow> bytes option" where
  "example_dk k = Some (2 # replicate 32 7)"

text \<open>\<^verbatim>\<open>and_v(v:pk(@0/**),older(1000))\<close>\<close>

definition example_and_v :: policy_node where
  "example_and_v = With_script2 Tok_AND_V None
     (With_wrapper Tok_V None (With_key Tok_PK None
        \<lparr>num_first = 0, num_second = 1, key_kind = KEY_EXPRESSION_NORMAL 0, keyexpr_index = 0\<rparr>))
     (With_uint32 Tok_OLDER None 1000)"

theorem script_compiler_correct_witness:
  "machine_limits example_and_v \<and> derives_points example_dk
   \<and> (\<exists>n. get_wallet_internal_script_hash n example_dk (\<lambda>_. []) example_and_v WRAPPED_SCRIPT_TYPE_WSH [] =
      Finished 39 ((33 # 2 # replicate 32 7) @ [OP_CHECKSIGVERIFY, 2, 0xe8, 3, OP_CSV]))"
proof -
  have l: "machine_limits example_and_v"
    by code_simp
  have d: "derives_points example_dk"
    by (simp add: derives_points_def example_dk_def compressed_point_def)
  have f: "fits (whitelist WRAPPED_SCRIPT_TYPE_WSH) 12 example_and_v"
    by code_simp
  have s: "script False example_dk (\<lambda>_. []) False example_and_v =
    Some ((33 # 2 # replicate 32 7) @ [OP_CHECKSIGVERIFY, 2, 0xe8, 3, OP_CSV])"
    by code_simp
  obtain n where "\<forall>fuel\<ge>n. get_wallet_internal_script_hash fuel example_dk (\<lambda>_. []) example_and_v
      WRAPPED_SCRIPT_TYPE_WSH [] = Finished 39 ((33 # 2 # replicate 32 7) @ [OP_CHECKSIGVERIFY, 2, 0xe8, 3, OP_CSV])"
    using script_compiler_correct [OF l d, of "\<lambda>_. []" WRAPPED_SCRIPT_TYPE_WSH "[]"] f s by auto
  then show ?thesis
    using l d by blast
qed

text \<open>C11: The keys of a \<open>sortedmulti\<close> are emitted in ascending order: the quadratic search with its bit vector
  of used keys is equivalent to sorting the list of the derived keys (of the x-only keys in tapscript),
  and fails exactly when the derivation of one of them fails.\<close>

theorem sortedmulti_sorts:
  assumes "length ks \<le> 16" and "derives_points dk"
  shows "map_option (map (script_key tap)) (sorted_pubkeys dk tap ks (length ks) [0, 0]) =
    map_option (\<lambda>pks. sort (map (script_key tap) pks)) (those (map dk ks))"
proof (cases "those (map dk ks)")
  case None
  then show ?thesis
    using sorted_pubkeys_fails [OF assms(1)] by simp
next
  case (Some pks)
  then have "list_all compressed_point pks"
    using assms(2) by (auto simp: derives_points_def those_map_Some list_all2_conv_all_nth list_all_length)
  then show ?thesis
    using sorted_pubkeys_sort [OF assms(1) Some, of tap] Some by auto
qed

lemma length_push_number: "length (push_number (unat n)) = unat (get_push_script_size n)"
proof (cases "n \<le> 16")
  case True
  then show ?thesis
    by (simp add: push_number_def get_push_script_size_def word_le_nat_alt)
next
  case False
  then have "16 < n"
    by simp
  then show ?thesis
    unfolding push_number_cases [OF \<open>16 < n\<close>] get_push_script_size_def Let_def
    by (auto simp: word_le_nat_alt word_less_nat_alt)
qed

theorem sortedmulti_sorts_witness:
  "\<exists>ks. length ks \<le> 16 \<and> derives_points example_dk
    \<and> map_option (map (script_key True)) (sorted_pubkeys example_dk True ks 1 [0, 0]) = Some [replicate 32 7]"
proof -
  define ks :: "policy_node_keyexpr list" where
    "ks = [\<lparr>num_first = 0, num_second = 1, key_kind = KEY_EXPRESSION_NORMAL 0, keyexpr_index = 0\<rparr>]"
  have "derives_points example_dk"
    by (simp add: derives_points_def example_dk_def compressed_point_def)
  moreover have "length ks = 1" "those (map example_dk ks) = Some [2 # replicate 32 7]"
    by (simp_all add: ks_def example_dk_def)
  ultimately show ?thesis
    using sortedmulti_sorts [of ks example_dk True]
    by (intro exI [of _ ks]) (simp add: script_key_def)
qed

text \<open>C14: A number is pushed in the shortest way: opcodes \<open>OP_0\<close> to \<open>OP_16\<close>, otherwise its minimal signed
  little-endian form; and \<open>get_push_script_size\<close> is the number of bytes emitted.\<close>

theorem push_u32_minimal:
  "update_output_push_u32 n st = update_output (push_number (unat n)) st
   \<and> length (push_number (unat n)) = unat (get_push_script_size n)"
  by (simp add: update_output_push_u32_eq length_push_number)

end
