(* ===== verification/Segwit_Addr.thy ===== *)
theory Segwit_Addr
  imports Bytes
begin

text \<open>
  Bech32 and Bech32m strings and SegWit addresses, \<^verbatim>\<open>src/src/common/segwit_addr.c\<close>.  Strings are
  the bytes before the terminating zero; \<open>None\<close> is the result 0 or \<open>BECH32_ENCODING_NONE\<close>.
\<close>

section \<open>Checksum\<close>

definition bech32_polymod_step :: "u32 \<Rightarrow> u32" where
  "bech32_polymod_step pre =
     (let b = ucast (drop_bit 25 pre) :: u8;
          generator = (\<lambda>i g. - ucast (drop_bit i b AND 1) AND g)
      in push_bit 5 (pre AND 0x1FFFFFF) XOR generator 0 0x3b6a57b2 XOR generator 1 0x26508e6d
         XOR generator 2 0x1ea119fa XOR generator 3 0x3d4233dd XOR generator 4 0x2a1462b3)"

datatype bech32_encoding = BECH32_ENCODING_BECH32 | BECH32_ENCODING_BECH32M

definition bech32_final_constant :: "bech32_encoding \<Rightarrow> u32" where
  "bech32_final_constant enc = (case enc of BECH32_ENCODING_BECH32 \<Rightarrow> 1 | BECH32_ENCODING_BECH32M \<Rightarrow> 0x2bc830a3)"

section \<open>Characters\<close>

definition charset :: bytes where
  "charset = ascii_string ''qpzry9x8gf2tvdw0s3jn54khce6mua7l''"

definition charset_rev :: "int list" where
  "charset_rev =
    [-1, -1, -1, -1, -1, -1, -1, -1, -1, -1, -1, -1, -1, -1, -1, -1,
     -1, -1, -1, -1, -1, -1, -1, -1, -1, -1, -1, -1, -1, -1, -1, -1,
     -1, -1, -1, -1, -1, -1, -1, -1, -1, -1, -1, -1, -1, -1, -1, -1,
     15, -1, 10, 17, 21, 20, 26, 30,  7,  5, -1, -1, -1, -1, -1, -1,
     -1, 29, -1, 24, 13, 25,  9,  8, 23, -1, 18, 22, 31, 27, 19, -1,
      1,  0,  3, 16, 11, 28, 12, 14,  6,  4,  2, -1, -1, -1, -1, -1,
     -1, 29, -1, 24, 13, 25,  9,  8, 23, -1, 18, 22, 31, 27, 19, -1,
      1,  0,  3, 16, 11, 28, 12, 14,  6,  4,  2, -1, -1, -1, -1, -1]"

definition is_upper :: "u8 \<Rightarrow> bool" where
  "is_upper c \<longleftrightarrow> ascii CHR ''A'' \<le> c \<and> c \<le> ascii CHR ''Z''"

definition is_lower :: "u8 \<Rightarrow> bool" where
  "is_lower c \<longleftrightarrow> ascii CHR ''a'' \<le> c \<and> c \<le> ascii CHR ''z''"

section \<open>Encoding\<close>

fun encode_hrp :: "bytes \<Rightarrow> u32 \<Rightarrow> u32 option" where
  "encode_hrp [] chk = Some chk"
| "encode_hrp (ch # hrp) chk =
     (if ch < 33 \<or> ch > 126 then None
      else if is_upper ch then None
      else encode_hrp hrp (bech32_polymod_step chk XOR ucast (drop_bit 5 ch)))"

fun encode_data :: "bytes \<Rightarrow> u32 \<Rightarrow> (u32 \<times> bytes) option" where
  "encode_data [] chk = Some (chk, [])"
| "encode_data (d # data) chk =
     (if drop_bit 5 d \<noteq> 0 then None
      else do {
        (chk, output) \<leftarrow> encode_data data (bech32_polymod_step chk XOR ucast d);
        Some (chk, charset ! unat d # output) })"

definition bech32_encode :: "bytes \<Rightarrow> bytes \<Rightarrow> bech32_encoding \<Rightarrow> bytes option" where
  "bech32_encode hrp data enc =
     do {
       chk \<leftarrow> encode_hrp hrp 1;
       if length hrp + 7 + length data > 90 then None
       else do {
         let chk = bech32_polymod_step chk;
         let chk = foldl (\<lambda>chk ch. bech32_polymod_step chk XOR ucast (ch AND 0x1f)) chk hrp;
         (chk, output) \<leftarrow> encode_data data chk;
         let chk = (bech32_polymod_step ^^ 6) chk XOR bech32_final_constant enc;
         Some (hrp @ ascii CHR ''1'' # output
               @ map (\<lambda>i. charset ! unat (drop_bit ((5 - i) * 5) chk AND 0x1f)) [0, 1, 2, 3, 4, 5]) }}"

section \<open>Decoding\<close>

text \<open>The loop over the human readable part: which cases occurred, the part in lower case, the checksum.\<close>

fun decode_hrp :: "bytes \<Rightarrow> bool \<Rightarrow> bool \<Rightarrow> u32 \<Rightarrow> (bool \<times> bool \<times> bytes \<times> u32) option" where
  "decode_hrp [] have_lower have_upper chk = Some (have_lower, have_upper, [], chk)"
| "decode_hrp (ch # input) have_lower have_upper chk =
     (if ch < 33 \<or> ch > 126 then None
      else
        let lower = have_lower \<or> is_lower ch;
            upper = have_upper \<or> \<not> is_lower ch \<and> is_upper ch;
            ch = (if \<not> is_lower ch \<and> is_upper ch then ch - ascii CHR ''A'' + ascii CHR ''a'' else ch)
        in do {
          (lower, upper, hrp, chk) \<leftarrow> decode_hrp input lower upper (bech32_polymod_step chk XOR ucast (drop_bit 5 ch));
          Some (lower, upper, ch # hrp, chk) })"

fun decode_data :: "bytes \<Rightarrow> bool \<Rightarrow> bool \<Rightarrow> u32 \<Rightarrow> (bool \<times> bool \<times> bytes \<times> u32) option" where
  "decode_data [] have_lower have_upper chk = Some (have_lower, have_upper, [], chk)"
| "decode_data (c # input) have_lower have_upper chk =
     (let v = (if c AND 0x80 \<noteq> 0 then - 1 else charset_rev ! unat c);
          lower = have_lower \<or> is_lower c;
          upper = have_upper \<or> is_upper c
      in if v = - 1 then None
         else do {
           (lower, upper, data, chk) \<leftarrow> decode_data input lower upper (bech32_polymod_step chk XOR word_of_int v);
           Some (lower, upper, word_of_int v # data, chk) })"

definition bech32_decode :: "bytes \<Rightarrow> (bech32_encoding \<times> bytes \<times> bytes) option" where
  "bech32_decode input =
     (let input_len = length input; data_len = length (takeWhile (\<lambda>c. c \<noteq> ascii CHR ''1'') (rev input));
          hrp_len = input_len - (1 + data_len)
      in if input_len < 8 \<or> input_len > 90 then None
         else if 1 + data_len \<ge> input_len \<or> data_len < 6 then None
         else do {
           (lower, upper, hrp, chk) \<leftarrow> decode_hrp (take hrp_len input) False False 1;
           let chk = bech32_polymod_step chk;
           let chk = foldl (\<lambda>chk ch. bech32_polymod_step chk XOR ucast (ch AND 0x1f)) chk (take hrp_len input);
           (lower, upper, data, chk) \<leftarrow> decode_data (drop (hrp_len + 1) input) lower upper chk;
           if lower \<and> upper then None
           else if chk = bech32_final_constant BECH32_ENCODING_BECH32
           then Some (BECH32_ENCODING_BECH32, hrp, take (data_len - 6) data)
           else if chk = bech32_final_constant BECH32_ENCODING_BECH32M
           then Some (BECH32_ENCODING_BECH32M, hrp, take (data_len - 6) data)
           else None })"

section \<open>Conversion between groups of bits\<close>

text \<open>The inner loop; the width \<open>outbits\<close> is 5 or 8.\<close>

function emit_bits :: "nat \<Rightarrow> u32 \<Rightarrow> nat \<Rightarrow> bytes \<times> nat" where
  "emit_bits outbits val bits =
     (if bits \<ge> outbits \<and> 0 < outbits then
        let bits = bits - outbits; (out, rest) = emit_bits outbits val bits
        in (ucast (drop_bit bits val AND (push_bit outbits 1 - 1)) # out, rest)
      else ([], bits))"
  by pat_completeness auto
termination
  by (relation "measure (\<lambda>(outbits, val, bits). bits)") auto

declare emit_bits.simps [simp del]

fun convert_loop :: "nat \<Rightarrow> nat \<Rightarrow> bytes \<Rightarrow> u32 \<Rightarrow> nat \<Rightarrow> bytes \<times> u32 \<times> nat" where
  "convert_loop outbits inbits [] val bits = ([], val, bits)"
| "convert_loop outbits inbits (x # xs) val bits =
     (let val = push_bit inbits val OR ucast x;
          (out, bits) = emit_bits outbits val (bits + inbits);
          (out', val, bits) = convert_loop outbits inbits xs val bits
      in (out @ out', val, bits))"

definition convert_bits :: "nat \<Rightarrow> bytes \<Rightarrow> nat \<Rightarrow> bool \<Rightarrow> bytes option" where
  "convert_bits outbits xs inbits pad =
     (let (out, val, bits) = convert_loop outbits inbits xs 0 0; maxv = push_bit outbits 1 - 1 in
      if pad then Some (if bits \<noteq> 0 then out @ [ucast (push_bit (outbits - bits) val AND maxv)] else out)
      else if push_bit (outbits - bits) val AND maxv \<noteq> 0 \<or> bits \<ge> inbits then None
      else Some out)"

section \<open>SegWit addresses\<close>

definition segwit_addr_encode :: "bytes \<Rightarrow> int \<Rightarrow> bytes \<Rightarrow> bytes option" where
  "segwit_addr_encode hrp witver witprog =
     (if witver > 16 then None
      else if witver = 0 \<and> length witprog \<noteq> 20 \<and> length witprog \<noteq> 32 then None
      else if length witprog < 2 \<or> length witprog > 40 then None
      else do {
        let enc = (if witver > 0 then BECH32_ENCODING_BECH32M else BECH32_ENCODING_BECH32);
        data \<leftarrow> convert_bits 5 witprog 8 True;
        bech32_encode hrp (word_of_int witver # data) enc })"

definition segwit_addr_decode :: "bytes \<Rightarrow> bytes \<Rightarrow> (int \<times> bytes) option" where
  "segwit_addr_decode hrp addr =
     do {
       (enc, hrp_actual, data) \<leftarrow> bech32_decode addr;
       if length data = 0 \<or> length data > 65 then None
       else if hrp \<noteq> hrp_actual then None
       else if data ! 0 > 16 then None
       else if data ! 0 = 0 \<and> enc \<noteq> BECH32_ENCODING_BECH32 then None
       else if data ! 0 > 0 \<and> enc \<noteq> BECH32_ENCODING_BECH32M then None
       else do {
         witdata \<leftarrow> convert_bits 8 (tl data) 5 False;
         if length witdata < 2 \<or> length witdata > 40 then None
         else if data ! 0 = 0 \<and> length witdata \<noteq> 20 \<and> length witdata \<noteq> 32 then None
         else Some (uint (data ! 0), witdata) }}"

section \<open>The checksum is linear\<close>

lemma generator_bit: "- ucast (drop_bit i (ucast (drop_bit 25 pre) :: u8) AND 1) AND g = (if bit (pre :: u32) (25 + i) then g else 0)"
  if "i < 7"
proof -
  have "drop_bit i (ucast (drop_bit 25 pre) :: u8) AND 1 = of_bool (bit pre (25 + i))"
    using that by (simp add: and_one_eq mod2_eq_if even_drop_bit_iff_not_bit bit_simps)
  then show ?thesis
    by simp
qed

lemma polymod_step_alt:
  "bech32_polymod_step pre = push_bit 5 (take_bit 25 pre)
     XOR (if bit pre 25 then 0x3b6a57b2 else 0) XOR (if bit pre 26 then 0x26508e6d else 0)
     XOR (if bit pre 27 then 0x1ea119fa else 0) XOR (if bit pre 28 then 0x3d4233dd else 0)
     XOR (if bit pre 29 then 0x2a1462b3 else 0)"
proof -
  have "pre AND 0x1FFFFFF = take_bit 25 pre"
    by (simp add: take_bit_eq_mask mask_eq_exp_minus_1)
  moreover have "bech32_polymod_step pre = push_bit 5 (pre AND 0x1FFFFFF)
     XOR (if bit pre (25 + 0) then 0x3b6a57b2 else 0) XOR (if bit pre (25 + 1) then 0x26508e6d else 0)
     XOR (if bit pre (25 + 2) then 0x1ea119fa else 0) XOR (if bit pre (25 + 3) then 0x3d4233dd else 0)
     XOR (if bit pre (25 + 4) then 0x2a1462b3 else 0)"
    unfolding bech32_polymod_step_def Let_def
    by (intro arg_cong2 [where f = "(XOR)"] refl generator_bit) simp_all
  ultimately show ?thesis
    by simp
qed

lemma select_xor: "(if bit (a XOR b) n then g else 0) = (if bit a n then g else 0) XOR (if bit b n then (g :: u32) else 0)"
  by (simp add: bit_simps)

lemma polymod_step_xor: "bech32_polymod_step (a XOR b) = bech32_polymod_step a XOR bech32_polymod_step b"
  unfolding polymod_step_alt select_xor take_bit_xor push_bit_xor by (simp only: ac_simps)

lemma polymod_step_small: "take_bit 25 a = a \<Longrightarrow> bech32_polymod_step a = push_bit 5 a"
proof -
  assume a: "take_bit 25 a = a"
  then have "\<not> bit a n" if "25 \<le> n" for n
    using that bit_take_bit_iff [of 25 a n] by auto
  then show ?thesis
    using a by (simp add: polymod_step_alt)
qed

lemma polymod_step_30: "take_bit 30 (bech32_polymod_step a) = bech32_polymod_step a"
  by (simp add: polymod_step_alt take_bit_xor take_bit_push_bit)

lemma push_drop_bit:
  fixes T :: u32
  shows "push_bit 5 (drop_bit (n + 5) T) XOR (drop_bit n T AND 0x1f) = drop_bit n T"
proof -
  have "drop_bit n T AND 0x1f = take_bit 5 (drop_bit n T)"
    by (simp add: take_bit_eq_mask mask_eq_exp_minus_1)
  then show ?thesis
    by (auto intro!: bit_eqI simp: bit_simps)
qed

text \<open>Appending the six digits of \<open>T\<close> adds \<open>T\<close> to the checksum.\<close>

lemma polymod_digit:
  assumes "take_bit 30 T = T" and "n \<le> 25"
  shows "bech32_polymod_step (c XOR drop_bit (n + 5) T) XOR (drop_bit n T AND 0x1f)
    = bech32_polymod_step c XOR drop_bit n (T :: u32)"
proof -
  have "m < 30" if "bit T m" for m
    using that assms(1) bit_take_bit_iff [of 30 T m] by simp
  then have "take_bit 25 (drop_bit (n + 5) T) = drop_bit (n + 5) T"
    by (force intro!: bit_eqI simp: bit_simps)
  then show ?thesis
    using push_drop_bit [of n T] by (simp add: polymod_step_xor polymod_step_small xor.assoc)
qed

lemma polymod_digits:
  assumes "take_bit 30 T = T"
  shows "foldl (\<lambda>chk v. bech32_polymod_step chk XOR v) c (map (\<lambda>i. drop_bit ((5 - i) * 5) T AND 0x1f) [0, 1, 2, 3, 4, 5])
    = (bech32_polymod_step ^^ 6) c XOR T"
proof -
  have "drop_bit 30 T = 0"
    using assms by (metis drop_bit_take_bit take_bit_0 diff_self_eq_0)
  then show ?thesis
    using polymod_digit [OF assms, of 25 c] polymod_digit [OF assms, of 20] polymod_digit [OF assms, of 15]
      polymod_digit [OF assms, of 10] polymod_digit [OF assms, of 5] polymod_digit [OF assms, of 0]
    by (simp add: numeral_eq_Suc)
qed

section \<open>Decoding what has been encoded\<close>

abbreviation add_values :: "u32 \<Rightarrow> bytes \<Rightarrow> u32" where
  "add_values \<equiv> foldl (\<lambda>chk v. bech32_polymod_step chk XOR ucast v)"

abbreviation symbol :: "u8 \<Rightarrow> u8" where
  "symbol v \<equiv> charset ! unat v"

lemma charset_inverse:
  "list_all (\<lambda>(v, c). c AND 0x80 = 0 \<and> charset_rev ! unat c = int v \<and> \<not> is_upper c \<and> c \<noteq> ascii CHR ''1'')
     (zip [0..<32] charset)"
  by code_simp

lemma symbol_props:
  assumes "drop_bit 5 v = 0"
  shows "symbol v AND 0x80 = 0" "charset_rev ! unat (symbol v) = uint v" "\<not> is_upper (symbol v)"
    "symbol v \<noteq> ascii CHR ''1''"
proof -
  have "drop_bit 5 (unat v) = 0"
    using assms by (metis unat_drop_bit_eq unsigned_0)
  then have v: "unat v < 32"
    by (simp add: drop_bit_eq_div div_eq_0_iff)
  have "zip [0..<32] charset ! unat v = (unat v, symbol v)" "length (zip [0..<32] charset) = 32"
    using v by (simp_all add: charset_def)
  then have "symbol v AND 0x80 = 0 \<and> charset_rev ! unat (symbol v) = int (unat v) \<and> \<not> is_upper (symbol v)
      \<and> symbol v \<noteq> ascii CHR ''1''"
    using charset_inverse [unfolded list_all_length, rule_format, of "unat v"] v by simp
  then show "symbol v AND 0x80 = 0" "charset_rev ! unat (symbol v) = uint v" "\<not> is_upper (symbol v)"
    "symbol v \<noteq> ascii CHR ''1''"
    by simp_all
qed

lemma decode_symbols:
  "list_all (\<lambda>v. drop_bit 5 v = 0) vs \<Longrightarrow>
   \<exists>l. decode_data (map symbol vs) lower False chk = Some (l, False, vs, add_values chk vs)"
proof (induction vs arbitrary: lower chk)
  case (Cons v vs)
  then have v: "drop_bit 5 v = 0"
    by simp
  obtain l where "decode_data (map symbol vs) (lower \<or> is_lower (symbol v)) False (bech32_polymod_step chk XOR ucast v)
      = Some (l, False, vs, add_values (bech32_polymod_step chk XOR ucast v) vs)"
    using Cons.IH Cons.prems by force
  moreover have "uint v \<noteq> - 1"
    using uint_ge_0 [of v] by linarith
  ultimately show ?case
    by (simp add: symbol_props [OF v])
qed simp

lemma encode_data_Some:
  "encode_data vs chk = Some (chk', out) \<Longrightarrow>
     list_all (\<lambda>v. drop_bit 5 v = 0) vs \<and> chk' = add_values chk vs \<and> out = map symbol vs"
  by (induction vs arbitrary: chk chk' out) (auto split: if_splits elim!: bind_pairE)

lemma decode_encode_hrp:
  "encode_hrp hrp chk = Some chk' \<Longrightarrow> \<exists>l. decode_hrp hrp lower False chk = Some (l, False, hrp, chk')"
proof (induction hrp arbitrary: chk lower)
  case (Cons ch hrp)
  then have "\<not> (ch < 33 \<or> ch > 126)" "\<not> is_upper ch"
      "encode_hrp hrp (bech32_polymod_step chk XOR ucast (drop_bit 5 ch)) = Some chk'"
    by (auto split: if_splits)
  moreover from this(3) obtain l where "decode_hrp hrp (lower \<or> is_lower ch) False
      (bech32_polymod_step chk XOR ucast (drop_bit 5 ch)) = Some (l, False, hrp, chk')"
    using Cons.IH by blast
  ultimately show ?case
    by simp
qed simp

text \<open>The checksum digits and the round trip of the strings.\<close>

lemma checksum_digits:
  fixes T :: u32
  defines "ws \<equiv> map (\<lambda>i. ucast (drop_bit ((5 - i) * 5) T AND 0x1f) :: u8) [0, 1, 2, 3, 4, 5]"
  shows "map (\<lambda>i. charset ! unat (drop_bit ((5 - i) * 5) T AND 0x1f)) [0, 1, 2, 3, 4, 5] = map symbol ws"
    and "list_all (\<lambda>v. drop_bit 5 v = 0) ws" and "length ws = 6"
    and "take_bit 30 T = T \<Longrightarrow> add_values c ws = (bech32_polymod_step ^^ 6) c XOR T"
proof -
  have mask: "x AND 0x1f = take_bit 5 x" for x :: u32
    by (simp add: take_bit_eq_mask mask_eq_exp_minus_1)
  have cast: "ucast (ucast (x AND 0x1f) :: u8) = x AND 0x1f" "drop_bit 5 (ucast (x AND 0x1f) :: u8) = 0" for x :: u32
    unfolding mask by (auto intro!: bit_eqI simp: bit_simps)
  have nat: "unat (ucast (x AND 0x1f) :: u8) = unat (x AND 0x1f)" for x :: u32
    using cast(1) [of x] by (metis unat_ucast_up(1))
  show "map (\<lambda>i. charset ! unat (drop_bit ((5 - i) * 5) T AND 0x1f)) [0, 1, 2, 3, 4, 5] = map symbol ws"
    by (simp add: ws_def nat)
  show "list_all (\<lambda>v. drop_bit 5 v = 0) ws" "length ws = 6"
    by (simp_all add: ws_def cast)
  show "add_values c ws = (bech32_polymod_step ^^ 6) c XOR T" if "take_bit 30 T = T"
    using polymod_digits [OF that, of c] by (simp add: ws_def cast)
qed

lemma polymod_six_30: "take_bit 30 ((bech32_polymod_step ^^ 6) chk) = (bech32_polymod_step ^^ 6) chk"
proof -
  have "(bech32_polymod_step ^^ 6) chk = bech32_polymod_step ((bech32_polymod_step ^^ 5) chk)"
    using funpow.simps(2) [of 5 bech32_polymod_step] by (simp add: fun_eq_iff)
  then show ?thesis
    by (simp only: polymod_step_30)
qed

lemma final_constant_30: "take_bit 30 (bech32_final_constant enc) = bech32_final_constant enc"
  by (cases enc) (simp_all add: bech32_final_constant_def)

lemma takeWhile_symbols:
  assumes "list_all (\<lambda>v. drop_bit 5 v = 0) vs"
  shows "takeWhile (\<lambda>c. c \<noteq> ascii CHR ''1'') (rev (map symbol vs)) = rev (map symbol vs)"
  unfolding takeWhile_eq_all_conv
proof
  fix c
  assume "c \<in> set (rev (map symbol vs))"
  then obtain v where "c = symbol v" "v \<in> set vs"
    unfolding set_rev set_map by (rule imageE)
  then show "c \<noteq> ascii CHR ''1''"
    using symbol_props(4) [of v] assms by (simp add: list_all_iff)
qed

lemma bech32_decode_encode:
  assumes "bech32_encode hrp vs enc = Some s" and "hrp \<noteq> []"
  shows "bech32_decode s = Some (enc, hrp, vs)"
proof -
  obtain chk1 chk2 out where e: "encode_hrp hrp 1 = Some chk1" "length hrp + 7 + length vs \<le> 90"
      "encode_data vs (foldl (\<lambda>chk ch. bech32_polymod_step chk XOR ucast (ch AND 0x1f)) (bech32_polymod_step chk1) hrp)
        = Some (chk2, out)" (is "encode_data vs ?chk = _")
    and s: "s = hrp @ ascii CHR ''1'' # out @ map (\<lambda>i. charset ! unat (drop_bit ((5 - i) * 5)
        ((bech32_polymod_step ^^ 6) chk2 XOR bech32_final_constant enc) AND 0x1f)) [0, 1, 2, 3, 4, 5]"
    using assms(1) unfolding bech32_encode_def Let_def by (auto split: if_splits elim!: bind_SomeE)
  define T where "T = (bech32_polymod_step ^^ 6) chk2 XOR bech32_final_constant enc"
  define ws where "ws = map (\<lambda>i. ucast (drop_bit ((5 - i) * 5) T AND 0x1f) :: u8) [0, 1, 2, 3, 4, 5]"
  note vs = encode_data_Some [OF e(3)] and ws = checksum_digits [of T, folded ws_def]
  have s: "s = hrp @ ascii CHR ''1'' # map symbol (vs @ ws)"
    using s vs ws(1) by (simp add: T_def)
  have digits: "list_all (\<lambda>v. drop_bit 5 v = 0) (vs @ ws)"
    using vs ws(2) by simp
  have "take_bit 30 T = T"
    by (simp add: T_def take_bit_xor final_constant_30 polymod_six_30)
  then have chk: "add_values ?chk (vs @ ws) = bech32_final_constant enc"
    using vs ws(4) by (simp add: T_def xor.assoc [symmetric])
  have "rev s = rev (map symbol (vs @ ws)) @ ascii CHR ''1'' # rev hrp"
    by (simp add: s)
  moreover have "takeWhile (\<lambda>c. c \<noteq> ascii CHR ''1'') (rev (map symbol (vs @ ws))) = rev (map symbol (vs @ ws))"
    by (rule takeWhile_symbols [OF digits])
  ultimately have "takeWhile (\<lambda>c. c \<noteq> ascii CHR ''1'') (rev s) = rev (map symbol (vs @ ws))"
    by (simp only: takeWhile_tail simp_thms)
  then have len: "length (takeWhile (\<lambda>c. c \<noteq> ascii CHR ''1'') (rev s)) = length vs + 6"
    using ws(3) by simp
  obtain l where l: "decode_hrp hrp False False 1 = Some (l, False, hrp, chk1)"
    using decode_encode_hrp [OF e(1)] by blast
  obtain l' where l': "decode_data (map symbol (vs @ ws)) l False ?chk
      = Some (l', False, vs @ ws, bech32_final_constant enc)"
    using decode_symbols [OF digits, of l ?chk] chk by auto
  show ?thesis
    unfolding bech32_decode_def Let_def len
    using assms(2) e(2) ws(3) l l' by (cases enc) (auto simp: s bech32_final_constant_def Suc_le_eq)
qed

section \<open>Groups of bits\<close>

text \<open>The lowest bits of a word, the most significant first.\<close>

definition msb_bits :: "nat \<Rightarrow> 'a::len word \<Rightarrow> bool list" where
  "msb_bits n w = map (bit w) (rev [0..<n])"

abbreviation bit_string :: "nat \<Rightarrow> bytes \<Rightarrow> bool list" where
  "bit_string n xs \<equiv> concat (map (msb_bits n) xs)"

lemma length_msb_bits [simp]: "length (msb_bits n w) = n"
  by (simp add: msb_bits_def)

lemma length_bit_string [simp]: "length (bit_string n xs) = n * length xs"
  by (induction xs) simp_all

lemma msb_bits_0 [simp]: "msb_bits 0 w = []"
  by (simp add: msb_bits_def)

lemma msb_bits_add:
  assumes "\<And>i. i < m \<Longrightarrow> bit w (i + n) = bit u i" and "\<And>i. i < n \<Longrightarrow> bit w i = bit v i"
  shows "msb_bits (m + n) w = msb_bits m u @ msb_bits n v"
proof -
  have "[0..<m + n] = [0..<n] @ map (\<lambda>i. i + n) [0..<m]"
    using upt_add_eq_append [of 0 n m] by (simp add: map_add_upt add.commute)
  then show ?thesis
    using assms by (simp add: msb_bits_def rev_map)
qed

lemma msb_bits_inj: "msb_bits n v = msb_bits n w \<Longrightarrow> i < n \<Longrightarrow> bit v i = bit w i"
  by (simp add: msb_bits_def)

lemma bit_string_inj: "length xs = length ys \<Longrightarrow> bit_string 8 xs = bit_string 8 ys \<Longrightarrow> xs = ys"
proof (induction xs ys rule: list_induct2)
  case (Cons x xs y ys)
  then have "msb_bits 8 x = msb_bits 8 y" "xs = ys"
    by simp_all
  then show ?case
    using msb_bits_inj [of 8 x y] by (auto intro: bit_word_eqI)
qed simp

lemma mask_word: "push_bit n 1 - 1 = (mask n :: u32)"
  by (simp add: mask_eq_exp_minus_1 push_bit_of_1)

text \<open>The invariant of the loops: the bits that went out and the lowest \<open>bits\<close> bits of \<open>val\<close> are the bits that came
  in.\<close>

lemma emit_bits_string:
  assumes "0 < n" "n \<le> 8" "bits \<le> 32" "emit_bits n val bits = (out, rest)"
  shows "bit_string n out @ msb_bits rest val = msb_bits bits val \<and> rest < n \<and> list_all (\<lambda>v. take_bit n v = v) out"
  using assms
proof (induction n val bits arbitrary: out rest rule: emit_bits.induct)
  case (1 n val bits)
  show ?case
  proof (cases "n \<le> bits")
    case True
    let ?b = "bits - n" and ?v = "ucast (drop_bit (bits - n) val AND (push_bit n 1 - 1)) :: u8"
    obtain out' where out': "emit_bits n val ?b = (out', rest)" "out = ?v # out'"
      using 1(5) True 1(2) by (subst (asm) emit_bits.simps) (auto simp: Let_def split: prod.splits)
    have v: "take_bit n ?v = ?v"
      unfolding mask_word by (auto intro!: bit_eqI simp: bit_simps)
    have "msb_bits (n + ?b) val = msb_bits n ?v @ msb_bits ?b val"
      using 1(3,4) True unfolding mask_word by (intro msb_bits_add) (auto simp: bit_simps add.commute)
    then show ?thesis
      using 1(1) [OF _ refl 1(2,3) _ out'(1)] True 1(2-4) v out'(2) by simp
  qed (use 1 in \<open>auto simp: emit_bits.simps\<close>)
qed

lemma convert_loop_string:
  assumes "0 < n" "n \<le> 8" "k \<le> 8" "bits < n" "list_all (\<lambda>v. take_bit k v = v) xs"
    and "convert_loop n k xs val bits = (out, val', bits')"
  shows "bit_string n out @ msb_bits bits' val' = msb_bits bits val @ bit_string k xs \<and> bits' < n
    \<and> list_all (\<lambda>v. take_bit n v = v) out"
  using assms(4-6)
proof (induction xs arbitrary: val bits out)
  case (Cons x xs)
  let ?val = "push_bit k val OR ucast x"
  obtain out1 bits1 out2 where r: "emit_bits n ?val (bits + k) = (out1, bits1)"
      "convert_loop n k xs ?val bits1 = (out2, val', bits')" "out = out1 @ out2"
    using Cons.prems(3) by (auto simp: Let_def split: prod.splits)
  have "\<not> bit x i" if "k \<le> i" for i
    using Cons.prems(2) that bit_take_bit_iff [of k x i] by auto
  then have "msb_bits (bits + k) ?val = msb_bits bits val @ msb_bits k x"
    using Cons.prems(1) assms(2,3) by (intro msb_bits_add) (auto simp: bit_simps)
  then show ?case
    using emit_bits_string [OF assms(1,2) _ r(1)] Cons.IH [OF _ _ r(2)] Cons.prems(1,2) assms(2,3) r(3) by auto
qed simp

lemma convert_bits_inverse:
  assumes "convert_bits 5 xs 8 True = Some ys"
  shows "list_all (\<lambda>v. drop_bit 5 v = 0) ys" and "convert_bits 8 ys 5 False = Some xs"
proof -
  obtain out val bits where c: "convert_loop 5 8 xs 0 0 = (out, val, bits)"
    by (cases "convert_loop 5 8 xs 0 0")
  have "take_bit 8 v = v" for v :: u8
    by (auto intro: bit_word_eqI simp: bit_simps)
  then have "list_all (\<lambda>v. take_bit 8 v = v) xs"
    by (simp add: list_all_iff)
  note l = convert_loop_string [OF _ _ _ _ this c, simplified]
  let ?last = "ucast (push_bit (5 - bits) val AND (push_bit 5 1 - 1)) :: u8"
  have "msb_bits (bits + (5 - bits)) ?last = msb_bits bits val @ msb_bits (5 - bits) (0 :: u8)"
    using l unfolding mask_word by (intro msb_bits_add) (auto simp: bit_simps)
  then have last: "msb_bits 5 ?last = msb_bits bits val @ msb_bits (5 - bits) (0 :: u8)" "take_bit 5 ?last = ?last"
    using l by simp (unfold mask_word, auto intro!: bit_eqI simp: bit_simps)
  have ys: "ys = (if bits \<noteq> 0 then out @ [?last] else out)"
    using assms by (simp only: convert_bits_def c Let_def split_conv if_True option.inject)
  define p where "p = (if bits = 0 then 0 else 5 - bits)"
  have p: "p < 5" "bit_string 5 ys = bit_string 8 xs @ msb_bits p (0 :: u8)" "list_all (\<lambda>v. take_bit 5 v = v) ys"
    using l last by (auto simp: p_def ys simp flip: append_assoc)
  show "list_all (\<lambda>v. drop_bit 5 v = 0) ys"
    using p(3) by (auto simp: list_all_iff) (metis drop_bit_take_bit diff_self_eq_0 take_bit_0)
  obtain out' val' bits' where c': "convert_loop 8 5 ys 0 0 = (out', val', bits')"
    by (cases "convert_loop 8 5 ys 0 0")
  note l' = convert_loop_string [OF _ _ _ _ p(3) c', simplified, unfolded p(2)]
  have "8 * length out' + bits' = 8 * length xs + p"
    using arg_cong [OF conjunct1 [OF l'], of length] by simp
  moreover have "bits' < 8"
    using l' by simp
  ultimately have len: "length out' = length xs" "bits' = p"
    using p(1) by presburger+
  then have eq: "bit_string 8 out' = bit_string 8 xs" "msb_bits p val' = msb_bits p (0 :: u8)"
    using l' by simp_all
  have "push_bit (8 - p) val' AND (push_bit 8 1 - 1) = 0"
    using eq(2) p(1) unfolding mask_word by (auto intro!: bit_eqI simp: bit_simps msb_bits_def)
  then show "convert_bits 8 ys 5 False = Some xs"
    using bit_string_inj [OF len(1) eq(1)] p(1) len(2) by (simp add: convert_bits_def c')
qed

lemma convert_bits_length:
  assumes "convert_bits 5 xs 8 True = Some ys"
  shows "5 * length ys < 8 * length xs + 5"
proof -
  obtain out val bits where c: "convert_loop 5 8 xs 0 0 = (out, val, bits)"
    by (cases "convert_loop 5 8 xs 0 0")
  have "take_bit 8 v = v" for v :: u8
    by (auto intro: bit_word_eqI simp: bit_simps)
  then have "list_all (\<lambda>v. take_bit 8 v = v) xs"
    by (simp add: list_all_iff)
  note l = convert_loop_string [OF _ _ _ _ this c, simplified]
  have "5 * length out + bits = 8 * length xs"
    using arg_cong [OF conjunct1 [OF l], of length] by simp
  then show ?thesis
    using assms l by (auto simp: convert_bits_def c split: if_splits)
qed

lemma segwit_addr_inverse:
  assumes "segwit_addr_encode hrp witver witprog = Some addr" and "0 \<le> witver" and "hrp \<noteq> []"
  shows "segwit_addr_decode hrp addr = Some (witver, witprog)"
proof -
  let ?enc = "if witver > 0 then BECH32_ENCODING_BECH32M else BECH32_ENCODING_BECH32"
  obtain data where e: "witver \<le> 16" "\<not> (witver = 0 \<and> length witprog \<noteq> 20 \<and> length witprog \<noteq> 32)"
      "2 \<le> length witprog" "length witprog \<le> 40" "convert_bits 5 witprog 8 True = Some data"
      "bech32_encode hrp (word_of_int witver # data) ?enc = Some addr"
    using assms(1) unfolding segwit_addr_encode_def Let_def by (auto split: if_splits elim!: bind_SomeE)
  have d: "bech32_decode addr = Some (?enc, hrp, word_of_int witver # data)"
    by (rule bech32_decode_encode [OF e(6) assms(3)])
  have "length data \<le> 64"
    using convert_bits_length [OF e(5)] e(4) by linarith
  moreover have v: "uint (word_of_int witver :: u8) = witver"
    using assms(2) e(1) by (simp add: uint_word_of_int)
  moreover have "(word_of_int witver :: u8) \<le> 16" "(word_of_int witver :: u8) = 0 \<longleftrightarrow> witver = 0"
    using v e(1) by (simp_all add: word_le_def word_uint_eq_iff)
  ultimately show ?thesis
    using assms(2) e(2-4) convert_bits_inverse(2) [OF e(5)]
    by (auto simp: segwit_addr_decode_def d word_gt_0 split: if_splits)
qed

section \<open>Properties\<close>

text \<open>C35: Decoding a SegWit address that was encoded gives back the version and the witness program: the
  checksum verifies with the constant of the version, the characters are those of one case, and the
  padding that the conversion to groups of five bits adds is recognised.  With the prefix of another
  network the address is refused.\<close>

theorem segwit_addr_decode_encode:
  assumes "segwit_addr_encode hrp witver witprog = Some addr" and "0 \<le> witver" and "hrp \<noteq> []"
  shows "segwit_addr_decode hrp' addr = (if hrp' = hrp then Some (witver, witprog) else None)"
proof (cases "hrp' = hrp")
  case True
  then show ?thesis
    using segwit_addr_inverse [OF assms] by simp
next
  case False
  obtain data enc where "bech32_encode hrp data enc = Some addr"
    using assms(1) unfolding segwit_addr_encode_def Let_def by (auto split: if_splits elim!: bind_SomeE)
  then show ?thesis
    using False bech32_decode_encode [OF _ assms(3)] by (simp add: segwit_addr_decode_def)
qed

theorem segwit_addr_decode_encode_witness:
  "\<exists>addr. segwit_addr_encode (ascii_string ''bc'') 16 [0x75, 0x1e] = Some addr
     \<and> segwit_addr_decode (ascii_string ''bc'') addr = Some (16, [0x75, 0x1e])
     \<and> segwit_addr_decode (ascii_string ''tb'') addr = None"
proof -
  have "convert_bits 5 [0x75, 0x1e] 8 True = Some [14, 20, 15, 0]"
    by (simp add: convert_bits_def emit_bits.simps)
  then obtain addr where e: "segwit_addr_encode (ascii_string ''bc'') 16 [0x75, 0x1e] = Some addr"
    by (simp add: segwit_addr_encode_def bech32_encode_def is_upper_def ascii_def Let_def)
  have "ascii_string ''bc'' \<noteq> []"
    by simp
  then show ?thesis
    using segwit_addr_decode_encode [OF e] e by (auto simp: ascii_inj)
qed

end
