(* ===== verification/Wallet_Script.thy ===== *)
theory Wallet_Script
  imports Script_Correct Key_Info Musig Segwit_Addr
begin

text \<open>
  From a wallet policy to scripts and addresses: \<open>get_derived_pubkey\<close> with its cache
  (\<^verbatim>\<open>src/src/handler/sign_psbt/sign_psbt_cache.c\<close>), the hash of a taptree and \<open>get_wallet_script\<close> of
  \<^verbatim>\<open>src/src/handler/lib/policy.c\<close>, and \<open>get_script_address\<close> of \<^verbatim>\<open>src/src/common/script.c\<close>.
\<close>

section \<open>The cache of derived keys\<close>

abbreviation (input) MAX_CACHED_KEY_EXPRESSIONS :: nat where "MAX_CACHED_KEY_EXPRESSIONS \<equiv> 16"

text \<open>The two arrays of two elements are indexed by \<open>is_change\<close>.\<close>

record derived_child_t =
  is_child_pubkey_initialized :: "bool \<Rightarrow> bool"
  child_pubkeys :: "bool \<Rightarrow> serialized_extended_pubkey_t"

type_synonym sign_psbt_cache_t = "derived_child_t list"

definition zero_xpub :: serialized_extended_pubkey_t where
  "zero_xpub = xpub_of_bytes (replicate 78 0)"

definition init_sign_psbt_cache :: sign_psbt_cache_t where
  "init_sign_psbt_cache = replicate MAX_CACHED_KEY_EXPRESSIONS
     \<lparr>is_child_pubkey_initialized = (\<lambda>_. False), child_pubkeys = (\<lambda>_. zero_xpub)\<rparr>"

definition first_step :: "policy_node_keyexpr \<Rightarrow> bool \<Rightarrow> u32" where
  "first_step keyexpr is_change = (if is_change then num_second keyexpr else num_first keyexpr)"

text \<open>\<open>cache\<close> is \<open>None\<close> for a null pointer; \<open>out_pubkey\<close> are the previous contents of the output.\<close>

definition derive_first_step_for_pubkey ::
    "platform \<Rightarrow> serialized_extended_pubkey_t \<Rightarrow> policy_node_keyexpr \<Rightarrow> sign_psbt_cache_t option \<Rightarrow> bool \<Rightarrow>
     serialized_extended_pubkey_t \<Rightarrow> serialized_extended_pubkey_t option \<times> sign_psbt_cache_t option" where
  "derive_first_step_for_pubkey cx base_key keyexpr cache is_change out_pubkey =
     (let change_step = first_step keyexpr is_change; i = unat (keyexpr_index keyexpr) in
      case cache of
        None \<Rightarrow> (map_option fst (bip32_CKDpub cx base_key change_step out_pubkey), None)
      | Some c \<Rightarrow>
          if i \<ge> MAX_CACHED_KEY_EXPRESSIONS
          then (map_option fst (bip32_CKDpub cx base_key change_step out_pubkey), Some c)
          else if \<not> is_child_pubkey_initialized (c ! i) is_change then
            (case bip32_CKDpub cx base_key change_step (child_pubkeys (c ! i) is_change) of
               None \<Rightarrow> (None, Some c)
             | Some (k, _) \<Rightarrow>
                 (Some k, Some (c[i := (c ! i)
                    \<lparr>child_pubkeys := (child_pubkeys (c ! i))(is_change := k),
                     is_child_pubkey_initialized := (is_child_pubkey_initialized (c ! i))(is_change := True)\<rparr>])))
          else (Some (child_pubkeys (c ! i) is_change), Some c))"

section \<open>Keys of a policy\<close>

record wallet_derivation_info_t =
  wallet_version :: int
  keys_merkle_root :: bytes
  wdi_n_keys :: u32
  address_index :: u32
  change :: bool

text \<open>The key, and the number of its derivation steps when its fingerprint is not one of the special ones.\<close>

definition get_extended_pubkey_from_client ::
    "platform \<Rightarrow> wallet_derivation_info_t \<Rightarrow> nat \<Rightarrow> (serialized_extended_pubkey_t \<times> nat) client" where
  "get_extended_pubkey_from_client cx wdi index =
     and_then (key_info_element cx (keys_merkle_root wdi) (wdi_n_keys wdi) (word_of_nat index)) (\<lambda>b.
     and_then (from_reply (parse_policy_map_key_info cx b (wallet_version wdi))) (\<lambda>info.
       value_of (ext_pubkey info,
         if get_fingerprint (master_key_fingerprint info) = FP_OTHER then length (master_key_derivation info) else 0)))"

primrec musig_pubkeys :: "platform \<Rightarrow> wallet_derivation_info_t \<Rightarrow> nat list \<Rightarrow> bytes list client" where
  "musig_pubkeys cx wdi [] = value_of []"
| "musig_pubkeys cx wdi (i # is) =
     and_then (or_return (get_extended_pubkey_from_client cx wdi i) (- 1)) (\<lambda>(k, _).
     and_then (musig_pubkeys cx wdi is) (\<lambda>ks. value_of (xpub_compressed_pubkey k # ks)))"

definition BIP_328_CHAINCODE :: bytes where
  "BIP_328_CHAINCODE =
    [0x86, 0x80, 0x87, 0xCA, 0x02, 0xA6, 0xF9, 0x74, 0xC4, 0x59, 0x89, 0x24, 0xC3, 0x6B, 0x57, 0x76,
     0x2D, 0x32, 0xCB, 0x45, 0x71, 0x71, 0x67, 0xE3, 0x00, 0x62, 0x2C, 0x71, 0x67, 0xE3, 0x89, 0x65]"

text \<open>The result of the key aggregation is not checked.\<close>

definition aggregate_xpub :: "platform \<Rightarrow> network \<Rightarrow> bytes list \<Rightarrow> serialized_extended_pubkey_t" where
  "aggregate_xpub cx net keys =
     (let Q = (case musig_key_agg cx (sort keys) of None \<Rightarrow> uninitialised cx 65 | Some ctx \<Rightarrow> agg_Q ctx) in
      zero_xpub\<lparr>xpub_version := u32_be (BIP32_PUBKEY_VERSION net),
        xpub_compressed_pubkey := (if point_y Q ! 31 mod 2 = 0 then 2 else 3) # point_x Q,
        xpub_chain_code := BIP_328_CHAINCODE\<rparr>)"

definition base_pubkey ::
    "platform \<Rightarrow> network \<Rightarrow> wallet_derivation_info_t \<Rightarrow> policy_node_keyexpr \<Rightarrow> (serialized_extended_pubkey_t \<times> nat) client" where
  "base_pubkey cx net wdi key_expr = (case key_kind key_expr of
      KEY_EXPRESSION_NORMAL index \<Rightarrow> or_return (get_extended_pubkey_from_client cx wdi index) (- 1)
    | KEY_EXPRESSION_MUSIG key_indexes \<Rightarrow>
        and_then (musig_pubkeys cx wdi key_indexes) (\<lambda>keys. value_of (aggregate_xpub cx net keys, 0)))"

definition get_derived_pubkey ::
    "platform \<Rightarrow> network \<Rightarrow> wallet_derivation_info_t \<Rightarrow> policy_node_keyexpr \<Rightarrow> sign_psbt_cache_t option \<Rightarrow>
     (bytes \<times> sign_psbt_cache_t option) client" where
  "get_derived_pubkey cx net wdi key_expr cache =
     and_then (base_pubkey cx net wdi key_expr) (\<lambda>(xpub, derive_len).
       if derive_len > 0 then
         (case derive_first_step_for_pubkey cx xpub key_expr cache (change wdi) xpub of
            (None, _) \<Rightarrow> (\<lambda>dc. (Err (- 1), dc))
          | (Some xpub, cache) \<Rightarrow>
              and_then (from_option (bip32_CKDpub cx xpub (address_index wdi) xpub) (- 1)) (\<lambda>(xpub, _).
                value_of (xpub_compressed_pubkey xpub, cache)))
       else value_of (xpub_compressed_pubkey xpub, cache))"

section \<open>Taptrees\<close>




section \<open>The script of a policy\<close>





section \<open>Addresses\<close>

text \<open>The constants that the build chooses for a network.\<close>

record coin =
  COIN_P2PKH_VERSION :: u32
  COIN_P2SH_VERSION :: u32
  COIN_NATIVE_SEGWIT_PREFIX :: bytes

text \<open>\<open>out_len\<close>, the size of the output, is positive.\<close>

definition get_script_address :: "platform \<Rightarrow> coin \<Rightarrow> bytes \<Rightarrow> nat \<Rightarrow> bytes option" where
  "get_script_address cx net spk out_len = (case get_script_type spk of
      None \<Rightarrow> None
    | Some SCRIPT_TYPE_P2PKH \<Rightarrow> base58_encode_address cx (take 20 (drop 3 spk)) (COIN_P2PKH_VERSION net) (out_len - 1)
    | Some SCRIPT_TYPE_P2SH \<Rightarrow> base58_encode_address cx (take 20 (drop 2 spk)) (COIN_P2SH_VERSION net) (out_len - 1)
    | Some _ \<Rightarrow>
        (if out_len < 73 + length (COIN_NATIVE_SEGWIT_PREFIX net) then None
         else segwit_addr_encode (COIN_NATIVE_SEGWIT_PREFIX net)
                (if spk ! 0 = 0 then 0 else uint (spk ! 0) - 80) (take (unat (spk ! 1)) (drop 2 spk))))"

section \<open>Scripts by the specification\<close>












section \<open>The cache is transparent\<close>

text \<open>The sum of two points is in the uncompressed format.\<close>

definition uncompressed_sums :: "platform \<Rightarrow> bool" where
  "uncompressed_sums cx \<longleftrightarrow> (\<forall>P Q R. P ! 0 = 4 \<and> cx_ecfp_add_point cx P Q = CX_OK R \<longrightarrow> R ! 0 = 4)"

lemma CKDpub_overwrites:
  assumes "uncompressed_sums cx"
  shows "bip32_CKDpub cx parent index c = bip32_CKDpub cx parent index d"
proof -
  have format: False
    if "secp256k1_point_unsafe cx s = Some P" "cx_ok (cx_ecfp_add_point cx P Q) = Some K"
      "crypto_get_compressed_pubkey K = None" for s P Q K
  proof -
    have "P ! 0 = 4"
      using that(1) by (auto simp: secp256k1_point_unsafe_def cx_ecfp_scalar_mult_unsafe_def elim!: bind_pairE)
    then show ?thesis
      using that(2,3) assms unfolding uncompressed_sums_def crypto_get_compressed_pubkey_def
      by (cases "cx_ecfp_add_point cx P Q") (auto split: if_splits)
  qed
  then show ?thesis
    unfolding bip32_CKDpub_def Let_def by (intro if_cong refl Option.bind_cong) (auto split: option.split dest: format)
qed

text \<open>The answers to a sequence of requests; \<open>base\<close> is the extended public key of a key expression.\<close>

fun derive_all ::
    "platform \<Rightarrow> (policy_node_keyexpr \<Rightarrow> serialized_extended_pubkey_t) \<Rightarrow> (policy_node_keyexpr \<times> bool) list \<Rightarrow>
     sign_psbt_cache_t option \<Rightarrow> serialized_extended_pubkey_t option list" where
  "derive_all cx base [] cache = []"
| "derive_all cx base ((k, is_change) # rs) cache =
     (let (r, cache) = derive_first_step_for_pubkey cx (base k) k cache is_change (base k) in
      r # derive_all cx base rs cache)"

definition cache_inv ::
    "platform \<Rightarrow> (policy_node_keyexpr \<Rightarrow> serialized_extended_pubkey_t) \<Rightarrow> policy_node_keyexpr set \<Rightarrow> sign_psbt_cache_t \<Rightarrow> bool" where
  "cache_inv cx base K c \<longleftrightarrow> length c = MAX_CACHED_KEY_EXPRESSIONS
     \<and> (\<forall>k\<in>K. \<forall>ch. unat (keyexpr_index k) < MAX_CACHED_KEY_EXPRESSIONS
          \<and> is_child_pubkey_initialized (c ! unat (keyexpr_index k)) ch
        \<longrightarrow> map_option fst (bip32_CKDpub cx (base k) (first_step k ch) (base k))
            = Some (child_pubkeys (c ! unat (keyexpr_index k)) ch))"

lemma derive_first_step_cached:
  assumes "uncompressed_sums cx" "inj_on keyexpr_index K" "k \<in> K" "cache_inv cx base K c"
  shows "\<exists>c'. derive_first_step_for_pubkey cx (base k) k (Some c) ch (base k)
    = (map_option fst (bip32_CKDpub cx (base k) (first_step k ch) (base k)), Some c') \<and> cache_inv cx base K c'"
proof -
  let ?i = "unat (keyexpr_index k)" and ?d = "bip32_CKDpub cx (base k) (first_step k ch) (base k)"
  have index: "unat (keyexpr_index l) = ?i \<longleftrightarrow> l = k" if "l \<in> K" for l
    using that assms(2,3) by (auto simp: inj_on_def word_unat_eq_iff)
  consider "16 \<le> ?i" | "?i < 16" "is_child_pubkey_initialized (c ! ?i) ch"
    | "?i < 16" "\<not> is_child_pubkey_initialized (c ! ?i) ch" "?d = None"
    | x t where "?i < 16" "\<not> is_child_pubkey_initialized (c ! ?i) ch" "?d = Some (x, t)"
    by fastforce
  then show ?thesis
  proof cases
    case 4
    let ?c' = "c[?i := (c ! ?i)\<lparr>child_pubkeys := (child_pubkeys (c ! ?i))(ch := x),
        is_child_pubkey_initialized := (is_child_pubkey_initialized (c ! ?i))(ch := True)\<rparr>]"
    have "derive_first_step_for_pubkey cx (base k) k (Some c) ch (base k) = (map_option fst ?d, Some ?c')"
      using 4 CKDpub_overwrites [OF assms(1), of "base k" "first_step k ch" "child_pubkeys (c ! ?i) ch" "base k"]
      by (simp add: derive_first_step_for_pubkey_def Let_def)
    moreover have "map_option fst (bip32_CKDpub cx (base l) (first_step l h) (base l))
        = Some (child_pubkeys (?c' ! unat (keyexpr_index l)) h)"
      if "l \<in> K" "unat (keyexpr_index l) < 16" "is_child_pubkey_initialized (?c' ! unat (keyexpr_index l)) h" for l h
      using that assms(4) 4 index [OF that(1)] unfolding cache_inv_def
      by (cases "l = k"; cases "h = ch") (auto simp: nth_list_update)
    ultimately show ?thesis
      using assms(4) unfolding cache_inv_def by (intro exI [of _ ?c']) simp
  next
    case 2
    then have "map_option fst ?d = Some (child_pubkeys (c ! ?i) ch)"
      using assms(3,4) unfolding cache_inv_def by blast
    then show ?thesis
      using 2 assms(4) by (auto simp: derive_first_step_for_pubkey_def Let_def)
  qed (use assms(4) CKDpub_overwrites [OF assms(1), of "base k" "first_step k ch" _ "base k"] in
      \<open>simp_all add: derive_first_step_for_pubkey_def Let_def\<close>)
qed

section \<open>Properties\<close>





text \<open>C37: The cache of derived keys cannot be observed: whatever sequence of key expressions, on the receive and
  on the change branch, is asked for while a transaction is signed, every answer is the same as
  without a cache.\<close>

theorem sign_psbt_cache_transparent:
  assumes "uncompressed_sums cx" and "inj_on keyexpr_index (fst ` set rs)"
  shows "derive_all cx base rs (Some init_sign_psbt_cache) = derive_all cx base rs None"
proof -
  have "derive_all cx base qs (Some c) = derive_all cx base qs None"
    if "set qs \<subseteq> set rs" "cache_inv cx base (fst ` set rs) c" for qs c
    using that
  proof (induction qs arbitrary: c)
    case (Cons q qs)
    obtain k ch where q: "q = (k, ch)"
      by (cases q)
    then have "k \<in> fst ` set rs"
      using Cons.prems(1) by force
    then obtain c' where "derive_first_step_for_pubkey cx (base k) k (Some c) ch (base k)
        = (map_option fst (bip32_CKDpub cx (base k) (first_step k ch) (base k)), Some c')" "cache_inv cx base (fst ` set rs) c'"
      using derive_first_step_cached [OF assms _ Cons.prems(2)] by blast
    then show ?case
      using Cons.IH [of c'] Cons.prems(1) by (simp add: q derive_first_step_for_pubkey_def [of _ _ _ None])
  qed simp
  moreover have "cache_inv cx base (fst ` set rs) init_sign_psbt_cache"
    by (auto simp: cache_inv_def init_sign_psbt_cache_def)
  ultimately show ?thesis
    by blast
qed

definition example_requests :: "(policy_node_keyexpr \<times> bool) list" where
  "example_requests =
     (let k = \<lparr>num_first = 0, num_second = 1, key_kind = KEY_EXPRESSION_NORMAL 0, keyexpr_index = 0\<rparr>
      in [(k, False), (k, True), (k, False)])"

theorem sign_psbt_cache_transparent_witness:
  "uncompressed_sums arithmetic_platform \<and> inj_on keyexpr_index (fst ` set example_requests)
   \<and> derive_all arithmetic_platform (\<lambda>_. zero_xpub) example_requests (Some init_sign_psbt_cache)
     = derive_all arithmetic_platform (\<lambda>_. zero_xpub) example_requests None"
proof -
  have "uncompressed_sums arithmetic_platform"
    by (simp add: uncompressed_sums_def arithmetic_platform_def)
  moreover have "inj_on keyexpr_index (fst ` set example_requests)"
    by (simp add: example_requests_def Let_def)
  ultimately show ?thesis
    using sign_psbt_cache_transparent by blast
qed

text \<open>C38: An address determines its script: decoding the address of an output script that is a witness program
  gives the version and the program, and these give back the script.\<close>

theorem script_address_decodes:
  assumes "get_script_address cx net spk out_len = Some addr" and "COIN_NATIVE_SEGWIT_PREFIX net \<noteq> []"
    and "get_script_type spk \<notin> {Some SCRIPT_TYPE_P2PKH, Some SCRIPT_TYPE_P2SH}"
  shows "\<exists>version program. segwit_addr_decode (COIN_NATIVE_SEGWIT_PREFIX net) addr = Some (version, program)
    \<and> spk = (if version = 0 then OP_0 else word_of_int (version + 80)) # word_of_nat (length program) # program"
proof -
  obtain t where t: "get_script_type spk = Some t" "t \<noteq> SCRIPT_TYPE_P2PKH" "t \<noteq> SCRIPT_TYPE_P2SH"
    using assms(1,3) by (auto simp: get_script_address_def split: option.splits)
  have "length spk = 2 + unat (spk ! 1)" "spk ! 0 = 0 \<or> 0x51 \<le> spk ! 0"
    using t by (auto simp: get_script_type_def Let_def split: if_splits)
  then obtain opcode len program where spk: "spk = opcode # len # program" "length program = unat len"
      "opcode = 0 \<or> 0x51 \<le> opcode"
    by (cases spk; cases "tl spk") auto
  let ?v = "if opcode = 0 then 0 else uint opcode - 80"
  have encoded: "segwit_addr_encode (COIN_NATIVE_SEGWIT_PREFIX net) ?v program = Some addr"
    using assms(1) t spk(2) unfolding get_script_address_def t(1) by (cases t) (simp_all add: spk(1) split: if_splits)
  have v: "0 \<le> ?v" "opcode = (if ?v = 0 then OP_0 else word_of_int (?v + 80))"
    using spk(3) by (auto simp: word_le_def)
  show ?thesis
  proof (intro exI conjI)
    show "segwit_addr_decode (COIN_NATIVE_SEGWIT_PREFIX net) addr = Some (?v, program)"
      by (rule segwit_addr_inverse [OF encoded v(1) assms(2)])
    show "spk = (if ?v = 0 then OP_0 else word_of_int (?v + 80)) # word_of_nat (length program) # program"
      using v(2) spk(1,2) by simp
  qed
qed

definition example_coin :: coin where
  "example_coin = \<lparr>COIN_P2PKH_VERSION = 0, COIN_P2SH_VERSION = 5, COIN_NATIVE_SEGWIT_PREFIX = ascii_string ''bc''\<rparr>"

theorem script_address_decodes_witness:
  "\<exists>addr version program.
     get_script_address arithmetic_platform example_coin [0x60, 2, 0x75, 0x1e] 80 = Some addr
     \<and> segwit_addr_decode (ascii_string ''bc'') addr = Some (version, program)
     \<and> [0x60, 2, 0x75, 0x1e] = (if version = 0 then OP_0 else word_of_int (version + 80)) # word_of_nat (length program) # program"
proof -
  have t: "get_script_type [0x60, 2, 0x75, 0x1e] = Some SCRIPT_TYPE_UNKNOWN_SEGWIT"
    by (simp add: get_script_type_def)
  have "convert_bits 5 [0x75, 0x1e] 8 True = Some [14, 20, 15, 0]"
    by (simp add: convert_bits_def emit_bits.simps)
  then obtain addr where "segwit_addr_encode (ascii_string ''bc'') 16 [0x75, 0x1e] = Some addr"
    by (simp add: segwit_addr_encode_def bech32_encode_def is_upper_def ascii_def Let_def)
  then have a: "get_script_address arithmetic_platform example_coin [0x60, 2, 0x75, 0x1e] 80 = Some addr"
    unfolding get_script_address_def t by (simp add: example_coin_def)
  have c: "COIN_NATIVE_SEGWIT_PREFIX example_coin = ascii_string ''bc''" "ascii_string ''bc'' \<noteq> []"
    by (simp_all add: example_coin_def)
  have "get_script_type [0x60, 2, 0x75, 0x1e] \<notin> {Some SCRIPT_TYPE_P2PKH, Some SCRIPT_TYPE_P2SH}"
    unfolding t by simp
  then show ?thesis
    using script_address_decodes [OF a, unfolded c(1)] c(2) a by blast
qed

end
