(* ===== verification/Spec2Isabelle.thy ===== *)
theory Spec2Isabelle
  imports Policy_Sanity Client_Runs Musig_Sessions Wallet_Script
begin

text \<open>
  Verification of the Babylon application for Ledger devices (C sources under \<^verbatim>\<open>src/src\<close>).

  \<^bold>\<open>The program.\<close>  The device holds keys and talks to an untrusted host.  A request names a wallet
  policy: a descriptor template with placeholders \<open>@i\<close> and, committed to by the root of a Merkle tree,
  the key information for every placeholder.  The device parses the template, checks that it is
  sane, fetches everything else it needs from the host by hash, compiles the policy to scripts and
  compares these with what it is asked to sign.

  \<^bold>\<open>Theories and sources.\<close>
  \<^item> \<open>Prelude\<close>: types, memory accesses (\<open>rd\<close>, \<open>wr\<close>), words and the option monad.
  \<^item> \<open>Bytes\<close>, \<open>Buffer\<close>: \<^verbatim>\<open>common/read.c, write.c, varint.c, bitvector.h, buffer.c\<close>.
  \<^item> \<open>Policy_Ast\<close>, \<open>Policy_Typing\<close>, \<open>Policy_Lexer\<close>, \<open>Policy_Parser\<close>: the structures and the parser of
    \<^verbatim>\<open>common/wallet.h\<close> and \<^verbatim>\<open>common/wallet.c\<close>; \<open>Parser_Correct\<close> and \<open>Parser_Fuel\<close> show what an accepted
    template satisfies and that the parser terminates.
  \<^item> \<open>Ext_Info\<close>: \<open>compute_miniscript_policy_ext_info\<close> of \<^verbatim>\<open>common/wallet.c\<close>; \<open>Miniscript_Paths\<close> compares it
    with the ways to satisfy and dissatisfy a script.
  \<^item> \<open>Script_Compiler\<close>: the stack machine of \<^verbatim>\<open>handler/lib/policy.c\<close> that turns a policy into a script;
    \<open>Key_Sorting\<close> and \<open>Script_Correct\<close> show that it implements the translation of the specification.
  \<^item> \<open>Script\<close>: \<^verbatim>\<open>common/script.c\<close>.
  \<^item> \<open>Policy_Keys\<close>: key expressions and sanity checks of \<^verbatim>\<open>handler/lib/policy.c\<close>; \<open>Policy_Sanity\<close> combines
    them with the parser and the static analysis.
  \<^item> \<open>Dispatcher\<close>, \<open>Merkle\<close>, \<open>Client\<close>: \<^verbatim>\<open>boilerplate/dispatcher.c, io.c, apdu_parser.c, common/merkle.c\<close>
    and the client commands in \<^verbatim>\<open>handler/lib\<close>; \<open>Client_Proofs\<close> shows what holds against every host,
    \<open>Client_Runs\<close> what a run with a particular host does.
  \<^item> \<open>Base58\<close>, \<open>Segwit_Addr\<close>: \<^verbatim>\<open>common/base58.c, segwit_addr.c\<close>.
  \<^item> \<open>Crypto\<close>: \<^verbatim>\<open>crypto.c, secp256k1.c\<close>.  The primitives of the operating system (hashes, modular arithmetic,
    points of the curve, the seed) are the fields of the record \<open>platform\<close>, a parameter of every definition
    that uses them; what is relied on is the named hypotheses \<open>subtracts\<close>, \<open>reduces\<close> and \<open>modular\<close>, which
    \<open>arithmetic_platform\<close> and \<open>generator_platform\<close> satisfy.
  \<^item> \<open>Key_Info\<close>: \<open>parse_policy_map_key_info\<close> of \<^verbatim>\<open>common/wallet.c\<close>; \<open>read_and_parse_wallet_policy\<close>,
    \<open>is_policy_sane\<close>, \<open>is_wallet_policy_standard\<close> and the HMACs of registered policies of
    \<^verbatim>\<open>handler/lib/policy.c\<close>.
  \<^item> \<open>Musig\<close>, \<open>Musig_Sessions\<close>: \<^verbatim>\<open>musig/musig.c, musig_sessions.c\<close>; the second is a transition system whose
    state is the persistent storage and the signing state, and whose steps are the calls of a signing flow.

  \<^item> \<open>Wallet_Script\<close>: \<open>get_derived_pubkey\<close>, \<open>compute_taptree_hash\<close> and \<open>get_wallet_script\<close> of
    \<^verbatim>\<open>handler/lib/policy.c\<close>, \<^verbatim>\<open>handler/sign_psbt/sign_psbt_cache.c\<close>, and \<open>get_script_address\<close> of \<^verbatim>\<open>common/script.c\<close>.

  \<^bold>\<open>State and effects.\<close>  A C structure is a record, a refusal is \<open>None\<close>, and an access outside of an object
  has no value.  Code that talks to the host is a function from the dispatcher context, which holds the
  messages of the host still to come, to a \<open>reply\<close> and a new context: \<open>Ok\<close>, an error code, \<open>Fault\<close> for
  undefined behaviour of C, and \<open>Hang\<close> for a loop that does not end.
  The host is arbitrary: a theorem about such code holds for all messages.

  \<^bold>\<open>What is shown.\<close>
  \<^item> Parsing: accepted templates are well typed and well formed, obey the bounds of the buffers, and number
    their key expressions in order; the parser terminates.
  \<^item> Static analysis: the flags and stack sizes are those of all satisfactions; the differences from the
    specification of miniscript are stated as theorems.
  \<^item> Compilation: the stack machine implements the recursive translation, and terminates; the output script
    of a policy is that of its specification, up to the root of a taptree; the cache of derived keys
    cannot be observed.
  \<^item> Sanity: a policy that is accepted needs a signature on every path of every script, and mixes no
    timelocks; all of its keys have been fetched and compared; repeated keys in key expressions are found
    exactly.  A policy named as the first Babylon policy, or unnamed, skips the check of its template.
  \<^item> Host: an accepted leaf, map value or preimage is the committed one up to inner nodes and hash collisions,
    which are exhibited; honest hosts are accepted; two forgeries are theorems.
  \<^item> Encodings: Base58, SegWit addresses and compressed points are decoded to what was encoded, and
    the address of a witness program determines the script; the description of an \<open>OP_RETURN\<close> output determines its script.
  \<^item> MuSig: a partial signature satisfies the equation of BIP-327, and the randomness of nonces is never used
    twice.

  \<^bold>\<open>Bounds and fuel.\<close>  \<open>parse_script\<close> has fuel for the depth of its recursion; \<open>Parser_Fuel\<close> shows that the
  fuel given by \<open>parse_descriptor_template\<close> suffices for every input.  The loop of the script compiler has
  fuel for its iterations, and \<open>script_compiler_correct\<close> shows that enough fuel gives the answer, which
  is then the same for all larger fuels.  Other loops are structural or have a termination proof; the loop
  of \<open>ceil_lg\<close>, which does not end for more than \<open>2^31\<close> leaves, answers \<open>None\<close> there.

  \<^bold>\<open>Not modelled.\<close>  The interleaving of the script compiler with the messages of the host that fetch its keys:
  \<open>get_derived_pubkey\<close> is modelled with these messages, and the compiler takes its answers as a function.  The
  parser of raw transactions (\<^verbatim>\<open>common/parser.c, handler/lib/psbt_parse_rawtx.c\<close>), the signing flow
  (\<^verbatim>\<open>handler/sign_psbt.c\<close> and \<^verbatim>\<open>handler/sign_psbt/\<close>) and the other handlers, which alternate with the
  screens; \<^verbatim>\<open>ui/\<close>, \<^verbatim>\<open>swap/\<close>, \<^verbatim>\<open>main.c\<close> and \<^verbatim>\<open>debug-helpers/\<close>, which are input and output; formatting of
  numbers and paths.  The libraries for the host and the tests are not part of the device.
\<close>

end
